(* ===== verification/Prelude.thy ===== *)
theory Prelude
  imports Main "HOL-Library.Multiset" "HOL-Library.Product_Lexorder"
begin

text \<open>
  Shared vocabulary of the development: results of fallible code, results of stateful
  fallible code, collections of simplification rules, and the facts on lists, sorting and
  counting that several components need.

  \<^item> \<open>('e, 'a) result\<close> is \<open>'e + 'a\<close>: \<open>Inl\<close> is a raised exception, \<open>Inr\<close> a returned value.
  \<^item> \<open>('s, 'e, 'a) outcome\<close> is \<open>'s \<times> ('e + 'a)\<close>: the mutable state survives a raised
    exception, as Python objects do when an exception is caught further up.
  \<^item> A table is a list of rows in their physical order; an update rewrites rows in place.
\<close>

named_theorems table_simps "how the table operations act on rows"
named_theorems frame_simps "fields an operation leaves unchanged"

type_synonym ('e, 'a) result = "'e + 'a"
type_synonym ('s, 'e, 'a) outcome = "'s \<times> ('e + 'a)"

section \<open>Sequencing fallible code\<close>

definition try_bind :: "'e + 'a \<Rightarrow> ('a \<Rightarrow> 'e + 'b) \<Rightarrow> 'e + 'b" where
  "try_bind r k = (case r of Inl e \<Rightarrow> Inl e | Inr a \<Rightarrow> k a)"

definition and_then :: "'s \<times> ('e + 'a) \<Rightarrow> ('s \<Rightarrow> 'a \<Rightarrow> 's \<times> ('e + 'b)) \<Rightarrow> 's \<times> ('e + 'b)" where
  "and_then o1 k = (case o1 of (s, Inl e) \<Rightarrow> (s, Inl e) | (s, Inr a) \<Rightarrow> k s a)"

definition lift_result :: "'s \<Rightarrow> 'e + 'a \<Rightarrow> 's \<times> ('e + 'a)" where
  "lift_result s r = (s, r)"

lemma try_bind_simps [simp]:
  "try_bind (Inl e) k = Inl e"
  "try_bind (Inr a) k = k a"
  by (simp_all add: try_bind_def)

lemma and_then_simps [simp]:
  "and_then (s, Inl e) k = (s, Inl e)"
  "and_then (s, Inr a) k = k s a"
  by (simp_all add: and_then_def)

lemma try_bind_eq_Inr:
  "try_bind r k = Inr b \<longleftrightarrow> (\<exists>a. r = Inr a \<and> k a = Inr b)"
  by (cases r) auto

lemma try_bind_eq_Inl:
  "try_bind r k = Inl e \<longleftrightarrow> r = Inl e \<or> (\<exists>a. r = Inr a \<and> k a = Inl e)"
  by (cases r) auto

text \<open>
  A property of the state that the first step establishes and the continuation keeps holds
  after the whole sequence, whether it returns or raises.
\<close>

lemma and_then_state:
  assumes "P (fst o1)"
    and "\<And>s a. o1 = (s, Inr a) \<Longrightarrow> P s \<Longrightarrow> P (fst (k s a))"
  shows "P (fst (and_then o1 k))"
  using assms by (cases o1; cases "snd o1") auto

text \<open>
  What a sequence of stateful steps does to the state, as a reflexive and transitive relation:
  if every step moves the state along the relation, so does their sequence, raising or not.
\<close>

locale state_evolution =
  fixes R :: "'s \<Rightarrow> 's \<Rightarrow> bool"
  assumes evolve_refl: "R s s"
    and evolve_trans: "R s t \<Longrightarrow> R t u \<Longrightarrow> R s u"
begin

lemma evolve_and_then:
  assumes "R s (fst o1)"
    and "\<And>s' a. o1 = (s', Inr a) \<Longrightarrow> R s' (fst (k s' a))"
  shows "R s (fst (and_then o1 k))"
proof (cases o1)
  case (Pair s' r)
  then show ?thesis using assms by (cases r) (auto intro: evolve_trans)
qed

lemma evolve_lift:
  assumes "\<And>a. r = Inr a \<Longrightarrow> R s (fst (k s a))"
  shows "R s (fst (and_then (lift_result s r) k))"
  using assms by (cases r) (auto simp: lift_result_def intro: evolve_refl)

end

section \<open>Lists as tables\<close>

definition update_where :: "('a \<Rightarrow> bool) \<Rightarrow> ('a \<Rightarrow> 'a) \<Rightarrow> 'a list \<Rightarrow> 'a list" where
  "update_where p f xs = map (\<lambda>x. if p x then f x else x) xs"

lemma length_update_where [table_simps]: "length (update_where p f xs) = length xs"
  by (simp add: update_where_def)

lemma set_update_where [table_simps]:
  "set (update_where p f xs) = (\<lambda>x. if p x then f x else x) ` set xs"
  by (simp add: update_where_def)

lemma map_update_where:
  assumes "\<And>x. x \<in> set xs \<Longrightarrow> p x \<Longrightarrow> g (f x) = g x"
  shows "map g (update_where p f xs) = map g xs"
  using assms by (simp add: update_where_def)

lemma filter_update_where:
  assumes "\<And>x. x \<in> set xs \<Longrightarrow> p x \<Longrightarrow> q (f x) = q x"
    and "\<And>x. x \<in> set xs \<Longrightarrow> q x \<Longrightarrow> \<not> p x"
  shows "filter q (update_where p f xs) = filter q xs"
  using assms by (induction xs) (auto simp: update_where_def)

lemma update_where_none:
  "(\<And>x. x \<in> set xs \<Longrightarrow> \<not> p x) \<Longrightarrow> update_where p f xs = xs"
  unfolding update_where_def by (rule map_idI) simp

lemma distinct_map_filter: "distinct (map f xs) \<Longrightarrow> distinct (map f (filter p xs))"
  by (induction xs) auto

lemma distinct_map_eq:
  "distinct (map f xs) \<Longrightarrow> x \<in> set xs \<Longrightarrow> y \<in> set xs \<Longrightarrow> f x = f y \<Longrightarrow> x = y"
  by (simp add: distinct_map inj_on_def)

lemma find_Some_distinct:
  assumes "distinct (map f xs)" "x \<in> set xs"
  shows "find (\<lambda>y. f y = f x) xs = Some x"
  using assms by (induction xs) force+

lemma find_None_iff_map: "find (\<lambda>y. f y = k) xs = None \<longleftrightarrow> k \<notin> f ` set xs"
  by (auto simp: find_None_iff)

lemma find_SomeD: "find p xs = Some x \<Longrightarrow> x \<in> set xs \<and> p x"
  by (auto simp: find_Some_iff)

lemma set_take_sort_key: "set (take n (sort_key f xs)) \<subseteq> set xs"
  using set_take_subset [of n "sort_key f xs"] by simp

text \<open>
  The rows a \<open>LIMIT n\<close> over an \<open>ORDER BY\<close> leaves out come no earlier in the order than
  the rows it takes.
\<close>

lemma take_sort_key_le:
  assumes "x \<in> set (take n (sort_key f xs))" "y \<in> set xs" "y \<notin> set (take n (sort_key f xs))"
  shows "f x \<le> f y"
proof -
  let ?ys = "sort_key f xs"
  from assms(2,3) have y: "y \<in> set (drop n ?ys)"
    by (metis Un_iff append_take_drop_id set_append set_sort)
  have "sorted (map f (take n ?ys @ drop n ?ys))" by simp
  then have "\<forall>a \<in> set (take n ?ys). \<forall>b \<in> set (drop n ?ys). f a \<le> f b"
    by (simp only: map_append sorted_append) auto
  with assms(1) y show ?thesis by blast
qed

text \<open>
  Being among the first \<open>n\<close> of an \<open>ORDER BY\<close> over unique keys is having fewer than \<open>n\<close> rows
  before oneself: the window function \<open>row_number\<close>.
\<close>

lemma length_filter_sort_key: "length (filter p (sort_key k xs)) = length (filter p xs)"
  by (metis mset_filter mset_sort size_mset)

lemma take_sort_key_rank:
  assumes "distinct (map k xs)" "x \<in> set xs"
  shows "x \<in> set (take n (sort_key k xs)) \<longleftrightarrow> length (filter (\<lambda>y. k y < k x) xs) < n"
proof -
  let ?ys = "sort_key k xs"
  have dist: "distinct (map k ?ys)" using assms(1) by (simp add: distinct_map)
  from assms(2) obtain us vs where ys: "?ys = us @ x # vs" by (metis set_sort split_list)
  have "sorted (map k (us @ x # vs))" by (metis sorted_sort_key ys)
  moreover have "distinct (map k (us @ x # vs))" using dist ys by simp
  ultimately have "\<forall>u \<in> set us. k u < k x" "\<forall>v \<in> set vs. \<not> k v < k x"
    by (auto simp: sorted_append order_less_le) (metis imageI)+
  then have "filter (\<lambda>y. k y < k x) ?ys = us" unfolding ys by (simp add: filter_id_conv)
  then have len: "length (filter (\<lambda>y. k y < k x) xs) = length us" by (metis length_filter_sort_key)
  have "x \<notin> set us" using dist ys by auto
  then have "x \<in> set (take n ?ys) \<longleftrightarrow> length us < n"
    unfolding ys using set_take_subset [of n us] by (cases "n - length us") auto
  with len show ?thesis by simp
qed

lemma take_filter_all: "(\<And>y. y \<in> set (take n ys) \<Longrightarrow> p y) \<Longrightarrow> take n (filter p ys) = take n ys"
proof (induction ys arbitrary: n)
  case (Cons y ys)
  then show ?case by (cases n) auto
qed simp

text \<open>Python's slice \<open>xs[:n]\<close>; a negative \<open>n\<close> counts from the end.\<close>

definition slice_to :: "int \<Rightarrow> 'a list \<Rightarrow> 'a list" where
  "slice_to n xs = take (nat (if n < 0 then int (length xs) + n else n)) xs"

lemma length_slice_to: "0 \<le> n \<Longrightarrow> int (length (slice_to n xs)) = min n (int (length xs))"
  by (simp add: slice_to_def)

section \<open>Counting\<close>

lemma length_filter_partition:
  "length (filter p xs) + length (filter (\<lambda>x. \<not> p x) xs) = length xs"
  by (rule sum_length_filter_compl)

lemma card_filter_distinct:
  "distinct (map f xs) \<Longrightarrow> card {x \<in> set xs. p x} = length (filter p xs)"
  by (metis distinct_card distinct_filter distinct_map set_filter)

end
