(* ===== verification/PyExn.thy ===== *)
theory PyExn
  imports Prelude
begin

text \<open>
  Exceptions as values. An exception object has a class and the two links Python keeps:
  \<open>__cause__\<close> (set by \<open>raise ... from\<close>) and \<open>__context__\<close> (the exception being handled).
  The classes are those the program tests with \<open>isinstance\<close> or raises itself: its own four,
  the httpx family, and the built-in ones of sockets, TLS, numbers and conversions. The
  subclass relation is the documented one: every httpx class here is an \<open>httpx.HTTPError\<close>;
  \<open>BlockedURLError\<close> and \<open>UnicodeError\<close> are \<open>ValueError\<close>s; \<open>CancelledError\<close> is a
  \<open>BaseException\<close> but not an \<open>Exception\<close>.
\<close>

datatype exn_class =
    BlockedURLError
  | NotAFeedError
  | ResponseTooLargeError
  | FallbackError
  | TimeoutException
  | ConnectError
  | HTTPStatusError int
  | TooManyRedirects
  | OtherHTTPError
  | TimeoutError
  | SSLError
  | GaiError
  | ConnectionRefusedError
  | UnicodeError
  | ValueError
  | TypeError
  | IndexError
  | KeyError
  | AttributeError
  | OverflowError
  | ZeroDivisionError
  | ImportError
  | DBAPIError
  | OtherException
  | CancelledError

datatype exn = Exn (exn_cls: exn_class) (exn_cause: "exn option") (exn_context: "exn option")

definition raise_exn :: "exn_class \<Rightarrow> exn" where
  "raise_exn c = Exn c None None"

definition raise_from :: "exn_class \<Rightarrow> exn \<Rightarrow> exn" where
  "raise_from c e = Exn c (Some e) (Some e)"

definition is_httpx_HTTPError :: "exn_class \<Rightarrow> bool" where
  "is_httpx_HTTPError c = (case c of
     TimeoutException \<Rightarrow> True | ConnectError \<Rightarrow> True | HTTPStatusError _ \<Rightarrow> True
   | TooManyRedirects \<Rightarrow> True | OtherHTTPError \<Rightarrow> True | _ \<Rightarrow> False)"

definition is_ValueError :: "exn_class \<Rightarrow> bool" where
  "is_ValueError c = (c = ValueError \<or> c = BlockedURLError \<or> c = UnicodeError)"

definition is_Exception :: "exn_class \<Rightarrow> bool" where
  "is_Exception c = (c \<noteq> CancelledError)"

abbreviation caught :: "exn \<Rightarrow> bool" where
  "caught e \<equiv> is_Exception (exn_cls e)"

text \<open>\<open>e.__cause__ or e.__context__\<close>: an exception object is always truthy.\<close>

definition exn_next :: "exn \<Rightarrow> exn option" where
  "exn_next e = (case exn_cause e of Some c \<Rightarrow> Some c | None \<Rightarrow> exn_context e)"

lemma exn_cls_raise [simp]: "exn_cls (raise_exn c) = c" "exn_cls (raise_from c e) = c"
  by (simp_all add: raise_exn_def raise_from_def)

lemma size_exn_next: "exn_next e = Some e' \<Longrightarrow> size e' < size e"
  by (cases e) (auto simp: exn_next_def split: option.splits)

end
