(* ===== verification/PyFloat.thy ===== *)
theory PyFloat
  imports Complex_Main PyExn "HOL-Library.Log_Nat"
begin

text \<open>
  Python's \<open>float\<close>, \<open>timedelta\<close> and \<open>datetime\<close> arithmetic as far as the scheduling policy
  uses it. A float is the rational number it denotes; \<open>fl\<close> rounds an exact result to the
  nearest double (53 significant bits, ties to even). Exponent range is not bounded:
  infinities, NaNs and subnormals do not arise from the second counts used here. An instant
  is a number of microseconds since the Unix epoch, the resolution of both Python's
  \<open>datetime\<close> and PostgreSQL's \<open>timestamptz\<close>. Leaving the representable range raises
  \<open>OverflowError\<close>, as \<open>datetime\<close> and \<open>timedelta\<close> do.
\<close>

type_synonym instant = int
type_synonym float_val = rat

section \<open>Rounding to a double\<close>

definition two_pow :: "int \<Rightarrow> rat" where
  "two_pow e = power_int 2 e"

definition round_half_even :: "rat \<Rightarrow> int" where
  "round_half_even x = (let n = \<lfloor>x\<rfloor>; f = x - of_int n in
     if f < 1 / 2 then n else if f > 1 / 2 then n + 1 else if even n then n else n + 1)"

definition flog2 :: "rat \<Rightarrow> int" where
  "flog2 x = (let (n, d) = quotient_of x; k = bitlen n - bitlen d
     in if two_pow k \<le> x then k else k - 1)"

definition fl_pos :: "rat \<Rightarrow> rat" where
  "fl_pos x = (let u = two_pow (flog2 x - 52) in of_int (round_half_even (x / u)) * u)"

definition fl :: "rat \<Rightarrow> rat" where
  "fl x = (if x = 0 then 0 else if x < 0 then - fl_pos (- x) else fl_pos x)"

definition py_trunc :: "rat \<Rightarrow> int" where
  "py_trunc x = (if x < 0 then - \<lfloor>- x\<rfloor> else \<lfloor>x\<rfloor>)"

section \<open>Time spans and instants\<close>

definition US :: int where
  "US = 1000000"

definition us_per_day :: int where
  "us_per_day = 86400 * 1000000"

definition check_timedelta :: "int \<Rightarrow> exn + int" where
  "check_timedelta us = (if - 999999999 \<le> us div us_per_day \<and> us div us_per_day \<le> 999999999
     then Inr us else Inl (raise_exn OverflowError))"

text \<open>
  \<open>timedelta(seconds=x)\<close>: the integral part exactly, the fraction scaled to microseconds in
  floating point, the sum rounded half to even.
\<close>

definition us_of_seconds :: "rat \<Rightarrow> int" where
  "us_of_seconds x = (let i = py_trunc x; m = fl (1000000 * (x - of_int i))
     in round_half_even (of_int (i * 1000000) + m))"

definition timedelta_seconds :: "rat \<Rightarrow> exn + int" where
  "timedelta_seconds x = check_timedelta (us_of_seconds x)"

definition timedelta_days :: "int \<Rightarrow> exn + int" where
  "timedelta_days n = check_timedelta (n * us_per_day)"

definition dt_min :: instant where
  "dt_min = - 62135596800000000"

definition dt_max :: instant where
  "dt_max = 253402300799999999"

definition valid_instant :: "instant \<Rightarrow> bool" where
  "valid_instant t = (dt_min \<le> t \<and> t \<le> dt_max)"

definition dt_add :: "instant \<Rightarrow> int \<Rightarrow> exn + instant" where
  "dt_add t us = (if valid_instant (t + us) then Inr (t + us) else Inl (raise_exn OverflowError))"

text \<open>\<open>(a - b).total_seconds()\<close> for a difference in microseconds.\<close>

definition total_seconds :: "int \<Rightarrow> float_val" where
  "total_seconds us = fl (of_int us / 1000000)"

section \<open>Facts\<close>

lemma two_pow_pos [simp]: "0 < two_pow e"
  by (simp add: two_pow_def)

lemma two_pow_neq_0 [simp]: "two_pow e \<noteq> 0"
  using two_pow_pos [of e] by (metis less_irrefl)

lemma two_pow_add: "two_pow (a + b) = two_pow a * two_pow b"
  by (simp add: two_pow_def power_int_add)

lemma two_pow_nat: "0 \<le> e \<Longrightarrow> two_pow e = 2 ^ nat e"
  by (simp add: two_pow_def power_int_def)

lemma two_pow_mono: "a \<le> b \<Longrightarrow> two_pow a \<le> two_pow b"
  by (simp add: two_pow_def power_int_increasing)

lemma two_pow_less_imp: "two_pow a < two_pow b \<Longrightarrow> a < b"
  using two_pow_mono [of b a] by (meson not_le)

lemma two_pow_52: "two_pow k = of_int (2 ^ 52) * two_pow (k - 52)"
  using two_pow_add [of 52 "k - 52"] by (simp add: two_pow_nat)

lemma two_pow_le_imp: "two_pow a \<le> two_pow b \<Longrightarrow> a \<le> b"
  by (rule ccontr) (simp add: two_pow_def not_le power_int_strict_increasing flip: linorder_not_less)

lemma round_half_even_mono:
  assumes "x \<le> y"
  shows "round_half_even x \<le> round_half_even y"
proof -
  from assms have m: "\<lfloor>x\<rfloor> \<le> \<lfloor>y\<rfloor>" by (rule floor_mono)
  show ?thesis
  proof (cases "\<lfloor>x\<rfloor> = \<lfloor>y\<rfloor>")
    case True
    with assms show ?thesis by (auto simp: round_half_even_def Let_def)
  next
    case False
    with m have "\<lfloor>x\<rfloor> + 1 \<le> \<lfloor>y\<rfloor>" by simp
    then show ?thesis by (auto simp: round_half_even_def Let_def)
  qed
qed

lemma round_half_even_of_int [simp]: "round_half_even (of_int n) = n"
  by (simp add: round_half_even_def)

lemma round_half_even_dist: "\<bar>of_int (round_half_even x) - x\<bar> \<le> 1 / 2"
proof -
  obtain n f where x: "x = of_int n + f" "0 \<le> f" "f < 1"
    by (metis add.commute diff_add_cancel frac_def frac_ge_0 frac_lt_1)
  then have "\<lfloor>x\<rfloor> = n" by (simp add: floor_eq_iff)
  with x show ?thesis by (auto simp: round_half_even_def Let_def abs_if)
qed

lemma round_half_even_le: "x \<le> of_int n \<Longrightarrow> round_half_even x \<le> n"
  using round_half_even_mono [of x "of_int n"] by simp

lemma round_half_even_ge: "of_int n \<le> x \<Longrightarrow> n \<le> round_half_even x"
  using round_half_even_mono [of "of_int n" x] by simp

lemma flog2_bounds:
  assumes "0 < x"
  shows "two_pow (flog2 x) \<le> x" "x < two_pow (flog2 x + 1)"
proof -
  obtain n d where q: "quotient_of x = (n, d)" by fastforce
  have d: "0 < d" and x: "x = of_int n / of_int d"
    using q quotient_of_denom_pos quotient_of_div by blast+
  with assms have n: "0 < n" by (simp add: zero_less_divide_iff)
  define a b where "a = bitlen n" and "b = bitlen d"
  have ab: "1 \<le> a" "1 \<le> b"
    using n d bitlen_nonneg [of n] bitlen_nonneg [of d] bitlen_eq_zero_iff [of n] bitlen_eq_zero_iff [of d]
    unfolding a_def b_def by linarith+
  have cast: "2 ^ nat (k - 1) \<le> m \<Longrightarrow> m < 2 ^ nat k \<Longrightarrow> 1 \<le> k \<Longrightarrow>
      two_pow (k - 1) \<le> of_int m \<and> (of_int m :: rat) < two_pow k" for k m :: int
    by (simp add: two_pow_nat)
  have nb: "two_pow (a - 1) \<le> of_int n" "of_int n < two_pow a"
    using cast [of a n] bitlen_bounds [OF n] ab unfolding a_def by auto
  have db: "two_pow (b - 1) \<le> of_int d" "of_int d < two_pow b"
    using cast [of b d] bitlen_bounds [OF d] ab unfolding b_def by auto
  have hi: "x < two_pow (a - b + 1)"
  proof -
    have "of_int n < two_pow a" by (rule nb)
    also have "two_pow a = two_pow (a - b + 1) * two_pow (b - 1)" by (simp flip: two_pow_add)
    also have "\<dots> \<le> two_pow (a - b + 1) * of_int d" using db by (simp add: mult_left_mono less_imp_le)
    finally show ?thesis using d x by (simp add: pos_divide_less_eq)
  qed
  have lo: "two_pow (a - b - 1) \<le> x"
  proof -
    have "two_pow (a - b - 1) * of_int d \<le> two_pow (a - b - 1) * two_pow b"
      using db by (simp add: mult_left_mono less_imp_le)
    also have "\<dots> = two_pow (a - 1)" by (simp flip: two_pow_add)
    also have "\<dots> \<le> of_int n" by (rule nb)
    finally show ?thesis using d x by (simp add: pos_le_divide_eq)
  qed
  have e: "flog2 x = (if two_pow (a - b) \<le> x then a - b else a - b - 1)"
    by (simp add: flog2_def q Let_def a_def b_def)
  show "two_pow (flog2 x) \<le> x" using lo by (simp add: e)
  show "x < two_pow (flog2 x + 1)" using hi by (simp add: e)
qed

lemma flog2_mono: "0 < x \<Longrightarrow> x \<le> y \<Longrightarrow> flog2 x \<le> flog2 y"
proof -
  assume "0 < x" "x \<le> y"
  with flog2_bounds [of x] flog2_bounds [of y]
  have "two_pow (flog2 x) < two_pow (flog2 y + 1)" by simp
  then show ?thesis by (auto dest: two_pow_less_imp)
qed

text \<open>The rounded value stays in the binade of its argument, and rounding keeps order.\<close>

lemma fl_pos_bounds:
  assumes "0 < x"
  shows "two_pow (flog2 x) \<le> fl_pos x" "fl_pos x \<le> two_pow (flog2 x + 1)"
proof -
  let ?u = "two_pow (flog2 x - 52)"
  have s: "two_pow (flog2 x) = of_int (2 ^ 52) * ?u" "two_pow (flog2 x + 1) = of_int (2 ^ 53) * ?u"
    using two_pow_add [of 52 "flog2 x - 52"] two_pow_add [of 53 "flog2 x - 52"]
    by (simp_all add: two_pow_nat add.commute)
  from flog2_bounds [OF assms] s have "of_int (2 ^ 52) \<le> x / ?u" "x / ?u \<le> of_int (2 ^ 53)"
    by (simp_all add: pos_le_divide_eq pos_divide_le_eq)
  then have "2 ^ 52 \<le> round_half_even (x / ?u)" "round_half_even (x / ?u) \<le> 2 ^ 53"
    by (blast intro: round_half_even_ge round_half_even_le)+
  then have "of_int (2 ^ 52) \<le> (of_int (round_half_even (x / ?u)) :: rat)"
    "of_int (round_half_even (x / ?u)) \<le> (of_int (2 ^ 53) :: rat)"
    by (simp_all only: of_int_le_iff)
  then show "two_pow (flog2 x) \<le> fl_pos x" "fl_pos x \<le> two_pow (flog2 x + 1)"
    unfolding s fl_pos_def Let_def by (auto intro: mult_right_mono less_imp_le)
qed

lemma fl_pos_mono:
  assumes "0 < x" "x \<le> y"
  shows "fl_pos x \<le> fl_pos y"
proof (cases "flog2 x = flog2 y")
  case True
  let ?u = "two_pow (flog2 y - 52)"
  from assms have "x / ?u \<le> y / ?u" by (simp add: divide_right_mono less_imp_le)
  then have "round_half_even (x / ?u) \<le> round_half_even (y / ?u)" by (rule round_half_even_mono)
  with True show ?thesis by (simp add: fl_pos_def Let_def mult_right_mono less_imp_le)
next
  case False
  with flog2_mono [OF assms] have "flog2 x + 1 \<le> flog2 y" by simp
  then have "two_pow (flog2 x + 1) \<le> two_pow (flog2 y)" by (rule two_pow_mono)
  with fl_pos_bounds [of x] fl_pos_bounds [of y] assms show ?thesis by fastforce
qed

lemma fl_0 [simp]: "fl 0 = 0"
  by (simp add: fl_def)

lemma fl_minus: "fl (- x) = - fl x"
  by (simp add: fl_def)

lemma fl_nonneg: "0 \<le> x \<Longrightarrow> 0 \<le> fl x"
  using fl_pos_bounds(1) [of x] two_pow_pos [of "flog2 x"]
  by (cases "x = 0") (simp_all add: fl_def, meson less_imp_le order_trans two_pow_pos)

lemma fl_mono: "x \<le> y \<Longrightarrow> fl x \<le> fl y"
proof (cases "0 < x \<or> y < 0")
  case True
  assume "x \<le> y"
  with True fl_pos_mono [of x y] fl_pos_mono [of "- y" "- x"] show ?thesis
    by (auto simp: fl_def)
next
  case False
  then have "0 \<le> fl y" "0 \<le> fl (- x)" by (auto intro: fl_nonneg)
  then show ?thesis by (simp add: fl_minus)
qed

text \<open>Doubling a double is exact, and a rounded number is a double.\<close>

lemma fl_double: "fl (2 * x) = 2 * fl x"
proof -
  have pos: "fl_pos (2 * x) = 2 * fl_pos x" if x: "0 < x" for x :: rat
  proof -
    have "two_pow (flog2 x + 1) \<le> 2 * x" "2 * x < two_pow (flog2 x + 1 + 1)"
      using flog2_bounds [OF x] two_pow_add [of "flog2 x" 1] two_pow_add [of "flog2 x + 1" 1]
      by (simp_all add: two_pow_nat)
    moreover have "two_pow (flog2 (2 * x)) \<le> 2 * x" "2 * x < two_pow (flog2 (2 * x) + 1)"
      using flog2_bounds [of "2 * x"] x by simp_all
    ultimately have "two_pow (flog2 x + 1) < two_pow (flog2 (2 * x) + 1)"
      "two_pow (flog2 (2 * x)) < two_pow (flog2 x + 1 + 1)" by linarith+
    then have e: "flog2 (2 * x) = flog2 x + 1" by (auto dest!: two_pow_less_imp)
    have "two_pow (flog2 (2 * x) - 52) = 2 * two_pow (flog2 x - 52)"
      unfolding e using two_pow_add [of "flog2 x - 52" 1] by (simp add: two_pow_nat algebra_simps)
    then show ?thesis by (simp add: fl_pos_def Let_def)
  qed
  show ?thesis using pos [of x] pos [of "- x"] by (auto simp: fl_def)
qed

lemma fl_idem: "fl (fl x) = fl x"
proof -
  have pos: "fl_pos (fl_pos x) = fl_pos x" if x: "0 < x" for x :: rat
  proof (cases "fl_pos x = two_pow (flog2 x + 1)")
    case True
    have p: "0 < two_pow (flog2 x + 1)" by simp
    let ?k = "flog2 x + 1"
    have "two_pow (flog2 (two_pow ?k)) \<le> two_pow ?k" "two_pow ?k < two_pow (flog2 (two_pow ?k) + 1)"
      using flog2_bounds [OF p] by blast+
    then have "?k \<le> flog2 (two_pow ?k)" by (auto dest: two_pow_less_imp)
    moreover have "flog2 (two_pow ?k) \<le> ?k"
      using \<open>two_pow (flog2 (two_pow ?k)) \<le> two_pow ?k\<close>
      by (rule two_pow_le_imp)
    ultimately have e: "flog2 (two_pow ?k) = ?k" by simp
    have "two_pow ?k / two_pow (?k - 52) = of_int (2 ^ 52)"
      by (simp only: two_pow_52 [of ?k] nonzero_mult_div_cancel_right two_pow_neq_0 not_False_eq_True)
    then have "fl_pos (two_pow ?k) = of_int (2 ^ 52) * two_pow (?k - 52)"
      unfolding fl_pos_def Let_def e by (simp only: round_half_even_of_int)
    then show ?thesis unfolding True by (simp only: two_pow_52 [of ?k, symmetric])
  next
    case False
    let ?y = "fl_pos x"
    have y: "two_pow (flog2 x) \<le> ?y" "?y < two_pow (flog2 x + 1)"
      using fl_pos_bounds [OF x] False by simp_all
    then have y0: "0 < ?y" using two_pow_pos [of "flog2 x"] by linarith
    have "two_pow (flog2 ?y) \<le> ?y" "?y < two_pow (flog2 ?y + 1)" using flog2_bounds [OF y0] by blast+
    with y have "two_pow (flog2 ?y) < two_pow (flog2 x + 1)" "two_pow (flog2 x) < two_pow (flog2 ?y + 1)"
      by linarith+
    then have e: "flog2 ?y = flog2 x" by (auto dest!: two_pow_less_imp)
    let ?u = "two_pow (flog2 x - 52)"
    have "?y / ?u = of_int (round_half_even (x / ?u))" by (simp add: fl_pos_def Let_def)
    then have "round_half_even (?y / ?u) = round_half_even (x / ?u)" by simp
    then have "of_int (round_half_even (?y / ?u)) * ?u = ?y" by (simp add: fl_pos_def Let_def)
    then show ?thesis unfolding fl_pos_def [of ?y] Let_def e .
  qed
  have gt: "0 < x \<Longrightarrow> 0 < fl_pos x" for x :: rat
    using fl_pos_bounds(1) [of x] two_pow_pos [of "flog2 x"] by linarith
  show ?thesis using pos [of x] pos [of "- x"] gt [of x] gt [of "- x"] by (auto simp: fl_def)
qed

text \<open>Integers below \<open>2 ^ 53\<close> are doubles.\<close>

lemma fl_pos_of_int:
  assumes "0 < n" "n < 2 ^ 53"
  shows "fl_pos (of_int n) = of_int n"
proof -
  let ?x = "of_int n :: rat"
  have x: "0 < ?x" using assms by simp
  have "two_pow (flog2 ?x) < two_pow 53"
    using flog2_bounds(1) [OF x] assms(2) by (simp add: two_pow_nat)
  then have e: "0 \<le> 52 - flog2 ?x" by (auto dest: two_pow_less_imp)
  have "two_pow (52 - flog2 ?x) * two_pow (flog2 ?x - 52) = 1"
    by (simp add: two_pow_def flip: two_pow_add [unfolded two_pow_def])
  then have d: "?x / two_pow (flog2 ?x - 52) = ?x * two_pow (52 - flog2 ?x)"
    by (simp add: divide_eq_eq mult.assoc)
  also have "\<dots> = of_int (n * 2 ^ nat (52 - flog2 ?x))" using e by (simp add: two_pow_nat)
  finally have "round_half_even (?x / two_pow (flog2 ?x - 52)) = n * 2 ^ nat (52 - flog2 ?x)"
    by (simp only: round_half_even_of_int)
  then have "fl_pos ?x = ?x * two_pow (52 - flog2 ?x) * two_pow (flog2 ?x - 52)"
    using e by (simp add: fl_pos_def Let_def two_pow_nat)
  also have "\<dots> = ?x"
    using two_pow_add [of "52 - flog2 ?x" "flog2 ?x - 52"] by (simp add: two_pow_def)
  finally show ?thesis .
qed

lemma fl_of_int: "\<bar>n\<bar> < 2 ^ 53 \<Longrightarrow> fl (of_int n) = of_int n"
  using fl_pos_of_int [of n] fl_pos_of_int [of "- n"] by (auto simp: fl_def)

lemma fl_le_of_int: "x \<le> of_int n \<Longrightarrow> \<bar>n\<bar> < 2 ^ 53 \<Longrightarrow> fl x \<le> of_int n"
  using fl_mono [of x "of_int n"] by (simp add: fl_of_int)

lemma fl_ge_of_int: "of_int n \<le> x \<Longrightarrow> \<bar>n\<bar> < 2 ^ 53 \<Longrightarrow> of_int n \<le> fl x"
  using fl_mono [of "of_int n" x] by (simp add: fl_of_int)

lemma py_trunc_of_int [simp]: "py_trunc (of_int n) = n"
  by (simp add: py_trunc_def)

lemma py_trunc_frac: "0 \<le> x \<Longrightarrow> 0 \<le> x - of_int (py_trunc x) \<and> x - of_int (py_trunc x) < 1"
  by (simp add: py_trunc_def) linarith

lemma us_of_seconds_of_int [simp]: "us_of_seconds (of_int n) = n * 1000000"
  using round_half_even_of_int [of "n * 1000000"] by (simp add: us_of_seconds_def)

text \<open>
  Rounding a duration to microseconds never carries it past a whole number of seconds.
\<close>

lemma us_of_seconds_le:
  assumes "0 \<le> x" "x \<le> of_int n"
  shows "us_of_seconds x \<le> n * 1000000"
proof (cases "x = of_int n")
  case False
  let ?i = "py_trunc x"
  from assms False have "x < of_int n" by simp
  then have "\<lfloor>x\<rfloor> < n" by (simp add: floor_less_iff)
  with assms(1) have "?i + 1 \<le> n" by (simp add: py_trunc_def)
  have "1000000 * (x - of_int ?i) \<le> of_int 1000000"
    using py_trunc_frac [OF assms(1)] by simp
  then have "fl (1000000 * (x - of_int ?i)) \<le> of_int 1000000"
    by (rule fl_le_of_int) simp
  then have "of_int (?i * 1000000) + fl (1000000 * (x - of_int ?i)) \<le> of_int ((?i + 1) * 1000000)"
    by simp
  then have "us_of_seconds x \<le> (?i + 1) * 1000000"
    unfolding us_of_seconds_def Let_def by (rule round_half_even_le)
  with \<open>?i + 1 \<le> n\<close> show ?thesis by simp
qed simp

lemma us_of_seconds_ge:
  assumes "0 \<le> n" "of_int n \<le> x"
  shows "n * 1000000 \<le> us_of_seconds x"
proof -
  let ?i = "py_trunc x"
  from assms have x: "0 \<le> x" by (meson of_int_0_le_iff order_trans)
  with assms have "n \<le> ?i" by (simp add: py_trunc_def le_floor_iff)
  have "0 \<le> fl (1000000 * (x - of_int ?i))"
    using py_trunc_frac [OF x] by (intro fl_nonneg) simp
  then have "of_int (?i * 1000000) \<le> of_int (?i * 1000000) + fl (1000000 * (x - of_int ?i))" by simp
  then have "?i * 1000000 \<le> us_of_seconds x"
    unfolding us_of_seconds_def Let_def by (rule round_half_even_ge)
  with \<open>n \<le> ?i\<close> show ?thesis by (smt (verit) mult_right_mono)
qed

lemma check_timedelta_eq: "check_timedelta us = Inr d \<Longrightarrow> d = us"
  by (simp add: check_timedelta_def split: if_splits)

lemma dt_add_eq: "dt_add t us = Inr t' \<longleftrightarrow> t' = t + us \<and> valid_instant t'"
  by (auto simp: dt_add_def)

lemma check_timedelta_err: "check_timedelta us = Inl e \<Longrightarrow> exn_cls e = OverflowError"
  by (auto simp: check_timedelta_def split: if_splits)

lemma dt_add_err: "dt_add t us = Inl e \<Longrightarrow> exn_cls e = OverflowError"
  by (auto simp: dt_add_def split: if_splits)

lemma py_trunc_nonneg: "0 \<le> x \<Longrightarrow> 0 \<le> py_trunc x"
  by (simp add: py_trunc_def)

end
