(* ===== verification/PyText.thy ===== *)
theory PyText
  imports Prelude
begin

text \<open>
  The parts of Python's \<open>str\<close> and \<open>int\<close> that the program uses, on strings of code points
  below 256 (an HTTP header is one: httpx decodes it as ASCII or Latin-1). White space,
  \<open>strip\<close>, \<open>lower\<close>, \<open>split\<close>, \<open>partition\<close>, \<open>startswith\<close>, \<open>rstrip\<close> on a character, decimal
  printing (\<open>str(n)\<close>) and the \<open>int(s)\<close> constructor with its sign, underscores, surrounding
  white space and 4300-digit limit. A \<open>ValueError\<close> of \<open>int(s)\<close> is \<open>None\<close>.
\<close>

section \<open>Characters\<close>

definition ord :: "char \<Rightarrow> nat" where
  "ord c = of_char c"

definition is_space :: "char \<Rightarrow> bool" where
  "is_space c = (let n = ord c in
     (9 \<le> n \<and> n \<le> 13) \<or> (28 \<le> n \<and> n \<le> 32) \<or> n = 133 \<or> n = 160)"

text \<open>
  White space that \<open>int(s)\<close> skips: the ASCII white space of C; a Unicode space from 127 on is
  first mapped to a blank, the separators 28 to 31 are not.
\<close>

definition is_ascii :: "string \<Rightarrow> bool" where
  "is_ascii s = list_all (\<lambda>c. ord c < 128) s"

definition int_space :: "char \<Rightarrow> bool" where
  "int_space c = (let n = ord c in (9 \<le> n \<and> n \<le> 13) \<or> n = 32 \<or> n = 133 \<or> n = 160)"

definition lower_char :: "char \<Rightarrow> char" where
  "lower_char c = (let n = ord c in
     if (65 \<le> n \<and> n \<le> 90) \<or> (192 \<le> n \<and> n \<le> 222 \<and> n \<noteq> 215) then char_of (n + 32) else c)"

definition is_digit :: "char \<Rightarrow> bool" where
  "is_digit c = (48 \<le> ord c \<and> ord c \<le> 57)"

definition digit_val :: "char \<Rightarrow> int" where
  "digit_val c = int (ord c) - 48"

definition digit_char :: "int \<Rightarrow> char" where
  "digit_char d = char_of (nat (48 + d))"

section \<open>Strings\<close>

definition lstrip_by :: "(char \<Rightarrow> bool) \<Rightarrow> string \<Rightarrow> string" where
  "lstrip_by p s = dropWhile p s"

definition rstrip_by :: "(char \<Rightarrow> bool) \<Rightarrow> string \<Rightarrow> string" where
  "rstrip_by p s = rev (dropWhile p (rev s))"

definition strip_by :: "(char \<Rightarrow> bool) \<Rightarrow> string \<Rightarrow> string" where
  "strip_by p s = rstrip_by p (lstrip_by p s)"

definition strip :: "string \<Rightarrow> string" where
  "strip s = strip_by is_space s"

definition lower :: "string \<Rightarrow> string" where
  "lower s = map lower_char s"

definition startswith :: "string \<Rightarrow> string \<Rightarrow> bool" where
  "startswith s p = (take (length p) s = p)"

definition endswith :: "string \<Rightarrow> string \<Rightarrow> bool" where
  "endswith s p = startswith (rev s) (rev p)"

text \<open>\<open>s.partition(c)\<close> without the separator: the flag tells whether it occurs.\<close>

definition partition_at :: "char \<Rightarrow> string \<Rightarrow> string \<times> bool \<times> string" where
  "partition_at c s =
     (let h = takeWhile (\<lambda>x. x \<noteq> c) s; t = dropWhile (\<lambda>x. x \<noteq> c) s
      in case t of [] \<Rightarrow> (h, False, []) | _ # r \<Rightarrow> (h, True, r))"

text \<open>\<open>s.split(c)\<close>: always at least one piece.\<close>

fun split_on :: "char \<Rightarrow> string \<Rightarrow> string list" where
  "split_on c [] = [[]]"
| "split_on c (x # xs) =
     (if x = c then [] # split_on c xs
      else case split_on c xs of [] \<Rightarrow> [[x]] | y # ys \<Rightarrow> (x # y) # ys)"

section \<open>Decimal numbers\<close>

function decimal :: "int \<Rightarrow> string" where
  "decimal n = (if n < 10 then [digit_char n] else decimal (n div 10) @ [digit_char (n mod 10)])"
  by pat_completeness auto
termination
  by (relation "measure nat") auto

declare decimal.simps [simp del]

definition str_of_int :: "int \<Rightarrow> string" where
  "str_of_int n = (if n < 0 then CHR ''-'' # decimal (- n) else decimal n)"

text \<open>
  The digit part of an integer literal: digits with single underscores between them. The
  flag says that the previous character was a digit; the number of digits is counted.
\<close>

fun scan_digits :: "bool \<Rightarrow> int \<Rightarrow> int \<Rightarrow> string \<Rightarrow> (int \<times> int) option" where
  "scan_digits after_digit n acc [] = (if after_digit then Some (n, acc) else None)"
| "scan_digits after_digit n acc (c # cs) =
     (if is_digit c then scan_digits True (n + 1) (acc * 10 + digit_val c) cs
      else if c = CHR ''_'' \<and> after_digit then scan_digits False n acc cs
      else None)"

definition MAX_STR_DIGITS :: int where
  "MAX_STR_DIGITS = 4300"

definition scan_nat :: "string \<Rightarrow> int option" where
  "scan_nat s = (case scan_digits False 0 0 s of
     None \<Rightarrow> None
   | Some (n, v) \<Rightarrow> if n > MAX_STR_DIGITS then None else Some v)"

definition py_int :: "string \<Rightarrow> int option" where
  "py_int s = (let t = strip_by int_space s in
     case t of
       [] \<Rightarrow> None
     | c # cs \<Rightarrow> if c = CHR ''-'' then map_option uminus (scan_nat cs)
                 else if c = CHR ''+'' then scan_nat cs
                 else scan_nat (c # cs))"

section \<open>Facts\<close>

lemma ord_char_of: "n < 256 \<Longrightarrow> ord (char_of n) = n"
  by (simp add: ord_def)

lemma ord_digit_char: "0 \<le> d \<Longrightarrow> d < 10 \<Longrightarrow> ord (digit_char d) = nat (48 + d)"
  by (simp add: digit_char_def ord_char_of)

lemma is_digit_digit_char [simp]: "0 \<le> d \<Longrightarrow> d < 10 \<Longrightarrow> is_digit (digit_char d)"
  by (simp add: is_digit_def ord_digit_char nat_le_iff le_nat_iff)

lemma digit_val_digit_char [simp]: "0 \<le> d \<Longrightarrow> d < 10 \<Longrightarrow> digit_val (digit_char d) = d"
  by (simp add: digit_val_def ord_digit_char)

lemma scan_digits_append_digit:
  assumes "is_digit c"
  shows "scan_digits b n a s = Some (m, v) \<Longrightarrow>
    scan_digits b n a (s @ [c]) = Some (m + 1, v * 10 + digit_val c)"
  using assms by (induction s arbitrary: b n a) (auto split: if_splits)

lemma decimal_digits: "0 \<le> n \<Longrightarrow> list_all is_digit (decimal n)"
proof (induction n rule: decimal.induct)
  case (1 n)
  then show ?case by (subst decimal.simps) (simp add: is_digit_digit_char)
qed

lemma decimal_not_Nil: "decimal n \<noteq> []"
  by (subst decimal.simps) simp

lemma scan_digits_decimal:
  "0 \<le> n \<Longrightarrow> scan_digits False 0 0 (decimal n) = Some (int (length (decimal n)), n)"
proof (induction n rule: decimal.induct)
  case (1 n)
  show ?case
  proof (cases "n < 10")
    case True
    with "1.prems" show ?thesis by (simp add: decimal.simps [of n])
  next
    case False
    have d: "is_digit (digit_char (n mod 10))" by simp
    from False "1" show ?thesis
      by (simp add: decimal.simps [of n] scan_digits_append_digit [OF d])
  qed
qed

lemma length_decimal_le: "n < 10 ^ k \<Longrightarrow> 0 < k \<Longrightarrow> length (decimal n) \<le> k"
proof (induction k arbitrary: n)
  case (Suc k)
  show ?case
  proof (cases "n < 10")
    case True
    then show ?thesis by (simp add: decimal.simps [of n])
  next
    case False
    with Suc.prems have "0 < k" by (cases k) auto
    moreover from Suc.prems have "n div 10 < 10 ^ k" by simp
    ultimately have "length (decimal (n div 10)) \<le> k" by (rule Suc.IH [rotated])
    with False show ?thesis by (simp add: decimal.simps [of n])
  qed
qed simp

lemma digit_not_space: "is_digit c \<Longrightarrow> \<not> int_space c"
  by (auto simp: is_digit_def int_space_def Let_def)

lemma digit_not_sign: "is_digit c \<Longrightarrow> c \<noteq> CHR ''-'' \<and> c \<noteq> CHR ''+'' \<and> c \<noteq> CHR ''_''"
  by (auto simp: is_digit_def ord_def)

lemma strip_by_id:
  assumes "s \<noteq> []" "\<not> p (hd s)" "\<not> p (last s)"
  shows "strip_by p s = s"
proof -
  from assms(1,2) have l: "dropWhile p s = s" by (cases s) auto
  from assms(1,3) have "dropWhile p (rev s) = rev s"
    by (cases "rev s") (auto simp: hd_rev [symmetric])
  with l show ?thesis by (simp add: strip_by_def lstrip_by_def rstrip_by_def)
qed

lemma list_all_hd_last:
  assumes "list_all p s" "s \<noteq> []"
  shows "p (hd s) \<and> p (last s)"
  using assms by (simp add: list_all_iff)

text \<open>Printing a number and reading it back with \<open>int\<close> gives the number.\<close>

lemma py_int_str_of_int:
  assumes "\<bar>n\<bar> < 10 ^ nat MAX_STR_DIGITS"
  shows "py_int (str_of_int n) = Some n"
proof -
  let ?m = "\<bar>n\<bar>"
  let ?ds = "decimal ?m"
  have hl: "is_digit (hd ?ds) \<and> is_digit (last ?ds)"
    by (rule list_all_hd_last [OF decimal_digits decimal_not_Nil]) simp
  have "length ?ds \<le> nat MAX_STR_DIGITS"
    by (rule length_decimal_le [OF assms]) (simp add: MAX_STR_DIGITS_def)
  then have "int (length ?ds) \<le> MAX_STR_DIGITS" by (simp add: MAX_STR_DIGITS_def)
  then have sn: "scan_nat ?ds = Some ?m" by (simp add: scan_nat_def scan_digits_decimal)
  have minus: "\<not> int_space CHR ''-''"
    by (simp add: int_space_def ord_def Let_def)
  have st: "strip_by int_space (str_of_int n) = str_of_int n"
    using hl minus digit_not_space decimal_not_Nil [of n] decimal_not_Nil [of "- n"]
    by (intro strip_by_id) (auto simp: str_of_int_def abs_if split: if_splits)
  obtain c cs where ds: "?ds = c # cs"
    using decimal_not_Nil [of ?m] by (cases ?ds) auto
  with hl have "is_digit c" by simp
  with digit_not_sign have c: "c \<noteq> CHR ''-''" "c \<noteq> CHR ''+''" by blast+
  show ?thesis
  proof (cases "n < 0")
    case True
    then have "str_of_int n = CHR ''-'' # ?ds" by (simp add: str_of_int_def)
    with st sn True show ?thesis unfolding py_int_def by (simp add: Let_def)
  next
    case False
    then have "str_of_int n = ?ds" by (simp add: str_of_int_def)
    with st sn False ds c show ?thesis unfolding py_int_def by (simp add: Let_def)
  qed
qed

lemma digit_val_nonneg: "is_digit c \<Longrightarrow> 0 \<le> digit_val c"
  by (simp add: is_digit_def digit_val_def)

lemma scan_digits_nonneg: "0 \<le> a \<Longrightarrow> scan_digits b n a s = Some (m, v) \<Longrightarrow> 0 \<le> v"
proof (induction b n a s rule: scan_digits.induct)
  case (2 b n a c cs)
  then show ?case
    by (cases "is_digit c") (simp_all add: digit_val_nonneg split: if_splits)
qed (simp split: if_splits)

lemma scan_nat_nonneg: "scan_nat s = Some v \<Longrightarrow> 0 \<le> v"
  by (auto simp: scan_nat_def split: option.splits if_splits intro: scan_digits_nonneg [of 0])

lemma split_on_not_Nil [simp]: "split_on c s \<noteq> []"
  by (induction s) (auto split: list.splits)

text \<open>Joining the pieces of a split with the separator gives the string back.\<close>

fun join_on :: "char \<Rightarrow> string list \<Rightarrow> string" where
  "join_on c [] = []"
| "join_on c [s] = s"
| "join_on c (s # t # ts) = s @ c # join_on c (t # ts)"

lemma join_split_on: "join_on c (split_on c s) = s"
proof (induction s)
  case (Cons x xs)
  obtain y ys where e: "split_on c xs = y # ys"
    using split_on_not_Nil by (cases "split_on c xs") blast+
  with Cons show ?case by (cases ys) auto
qed simp

lemma split_on_append: "c \<notin> set s \<Longrightarrow> split_on c (s @ c # t) = s # split_on c t"
  by (induction s) auto

lemma split_on_single: "c \<notin> set s \<Longrightarrow> split_on c s = [s]"
  by (induction s) auto

lemma split_join_on: "ps \<noteq> [] \<Longrightarrow> (\<And>p. p \<in> set ps \<Longrightarrow> c \<notin> set p) \<Longrightarrow> split_on c (join_on c ps) = ps"
  by (induction c ps rule: join_on.induct) (auto simp: split_on_append split_on_single)

lemma split_on_no_sep: "p \<in> set (split_on c s) \<Longrightarrow> c \<notin> set p"
proof (induction s arbitrary: p)
  case (Cons x xs)
  obtain y ys where e: "split_on c xs = y # ys"
    using split_on_not_Nil by (cases "split_on c xs") blast+
  with Cons show ?case by (auto split: if_splits)
qed simp

lemma partition_at_eq:
  "partition_at c s = (h, True, t) \<Longrightarrow> s = h @ c # t \<and> c \<notin> set h"
proof -
  assume a: "partition_at c s = (h, True, t)"
  then obtain x where d: "dropWhile (\<lambda>x. x \<noteq> c) s = x # t" and h: "h = takeWhile (\<lambda>x. x \<noteq> c) s"
    by (auto simp: partition_at_def Let_def split: list.splits)
  from d have "x = c" by (metis (full_types) hd_dropWhile list.distinct(1) list.sel(1))
  with d h show ?thesis
    by (metis (mono_tags, lifting) set_takeWhileD takeWhile_dropWhile_id)
qed

end
