(* ===== verification/Models.thy ===== *)
theory Models
  imports PyFloat PyText
begin

text \<open>
  \<open>models.py\<close>: the two ORM classes as records, the two string enumerations as datatypes,
  and the PostgreSQL tables they live in. A table is the list of its rows in physical order
  (PostgreSQL promises no order without \<open>ORDER BY\<close>, so nothing is assumed of it), with the
  sequence that feeds the autoincrement key. \<open>db_ok\<close> collects the declared constraints:
  primary keys, \<open>UNIQUE (url)\<close>, \<open>uq_entries_feed_guid\<close>, the foreign key, and that the
  sequences are ahead of the keys handed out. The \<open>Feed.entries\<close> relationship is the set of
  entry rows with that \<open>feed_id\<close>; \<open>cascade_delete\<close> is \<open>ON DELETE CASCADE\<close>.
\<close>

section \<open>Enumerations and rows\<close>

datatype feed_status = ACTIVE | BROKEN | DEAD

fun feed_status_str :: "feed_status \<Rightarrow> string" where
  "feed_status_str ACTIVE = ''active''"
| "feed_status_str BROKEN = ''broken''"
| "feed_status_str DEAD = ''dead''"

datatype error_code =
    DNS | TCP_REFUSED | TLS_ERROR | TIMEOUT | CONNECTION
  | HTTP_4XX | HTTP_410 | HTTP_5XX | HTTP_ERROR | RATE_LIMITED
  | NOT_A_FEED | REDIRECT_LOOP | TOO_LARGE
  | BLOCKED
  | OTHER

fun error_code_str :: "error_code \<Rightarrow> string" where
  "error_code_str DNS = ''dns''"
| "error_code_str TCP_REFUSED = ''tcp_refused''"
| "error_code_str TLS_ERROR = ''tls_error''"
| "error_code_str TIMEOUT = ''timeout''"
| "error_code_str CONNECTION = ''connection''"
| "error_code_str HTTP_4XX = ''http_4xx''"
| "error_code_str HTTP_410 = ''http_410''"
| "error_code_str HTTP_5XX = ''http_5xx''"
| "error_code_str HTTP_ERROR = ''http_error''"
| "error_code_str RATE_LIMITED = ''rate_limited''"
| "error_code_str NOT_A_FEED = ''not_a_feed''"
| "error_code_str REDIRECT_LOOP = ''redirect_loop''"
| "error_code_str TOO_LARGE = ''too_large''"
| "error_code_str BLOCKED = ''blocked''"
| "error_code_str OTHER = ''other''"

record feed =
  f_id :: int
  f_url :: string
  f_effective_url :: string
  f_title :: "string option"
  f_status :: feed_status
  f_last_successful_fetch_at :: "instant option"
  f_last_attempt_at :: "instant option"
  f_last_error_code :: "error_code option"
  f_created_at :: instant
  f_next_fetch_at :: instant
  f_consecutive_failures :: int
  f_etag :: "string option"
  f_last_modified :: "string option"

record entry =
  e_id :: int
  e_feed_id :: int
  e_guid :: string
  e_url :: string
  e_title :: "string option"
  e_content :: "string option"
  e_author :: "string option"
  e_published_at :: "instant option"
  e_fetched_at :: instant
  e_content_updated_at :: instant

section \<open>Tables\<close>

record db =
  feeds_tbl :: "feed list"
  entries_tbl :: "entry list"
  feeds_seq :: int
  entries_seq :: int

definition entry_key :: "entry \<Rightarrow> int \<times> string" where
  "entry_key e = (e_feed_id e, e_guid e)"

definition feeds_ok :: "db \<Rightarrow> bool" where
  "feeds_ok d = (distinct (map f_id (feeds_tbl d)) \<and> distinct (map f_url (feeds_tbl d)) \<and>
     list_all (\<lambda>i. i < feeds_seq d) (map f_id (feeds_tbl d)))"

definition entries_ok :: "db \<Rightarrow> bool" where
  "entries_ok d = (distinct (map e_id (entries_tbl d)) \<and> distinct (map entry_key (entries_tbl d)) \<and>
     list_all (\<lambda>i. i < entries_seq d) (map e_id (entries_tbl d)))"

definition fk_ok :: "db \<Rightarrow> bool" where
  "fk_ok d = list_all (\<lambda>e. e_feed_id e \<in> f_id ` set (feeds_tbl d)) (entries_tbl d)"

definition db_ok :: "db \<Rightarrow> bool" where
  "db_ok d = (feeds_ok d \<and> entries_ok d \<and> fk_ok d)"

definition feed_by_id :: "db \<Rightarrow> int \<Rightarrow> feed option" where
  "feed_by_id d i = find (\<lambda>f. f_id f = i) (feeds_tbl d)"

definition entries_of :: "db \<Rightarrow> int \<Rightarrow> entry list" where
  "entries_of d i = filter (\<lambda>e. e_feed_id e = i) (entries_tbl d)"

text \<open>The \<open>UPDATE\<close> an ORM flush issues for one modified object, addressed by primary key.\<close>

definition flush_feed :: "db \<Rightarrow> feed \<Rightarrow> db" where
  "flush_feed d f = d\<lparr>feeds_tbl := update_where (\<lambda>g. f_id g = f_id f) (\<lambda>_. f) (feeds_tbl d)\<rparr>"

definition cascade_delete :: "db \<Rightarrow> int \<Rightarrow> db" where
  "cascade_delete d i = d\<lparr>feeds_tbl := filter (\<lambda>f. f_id f \<noteq> i) (feeds_tbl d),
     entries_tbl := filter (\<lambda>e. e_feed_id e \<noteq> i) (entries_tbl d)\<rparr>"

text \<open>Sequences are not transactional: a rollback restores the rows only.\<close>

definition rollback_to :: "db \<Rightarrow> db \<Rightarrow> db" where
  "rollback_to before after = before\<lparr>feeds_seq := feeds_seq after, entries_seq := entries_seq after\<rparr>"

section \<open>Rewriting rows of a keyed table\<close>

text \<open>
  Every \<open>UPDATE\<close> of the program rewrites rows without touching a unique key. The locale
  states that contract; its lemmas give uniqueness and lookup after the update.
\<close>

locale row_rewrite =
  fixes key :: "'r \<Rightarrow> 'k"
    and rewrite :: "'r \<Rightarrow> 'r"
  assumes key_rewrite: "key (rewrite r) = key r"
begin

lemma keys_update_where: "map key (update_where p rewrite rows) = map key rows"
  by (rule map_update_where) (rule key_rewrite)

lemma distinct_update_where:
  "distinct (map key rows) \<Longrightarrow> distinct (map key (update_where p rewrite rows))"
  by (simp add: keys_update_where)

lemma find_update_where:
  assumes "distinct (map key rows)"
  shows "find (\<lambda>r. key r = k) (update_where p rewrite rows) =
    map_option (\<lambda>r. if p r then rewrite r else r) (find (\<lambda>r. key r = k) rows)"
  using assms by (induction rows) (auto simp: update_where_def key_rewrite)

end

section \<open>Facts\<close>

lemma map_id_flush [simp]: "map f_id (feeds_tbl (flush_feed d f)) = map f_id (feeds_tbl d)"
  unfolding flush_feed_def by (simp, rule map_update_where) simp

lemma ids_flush [simp]: "f_id ` set (feeds_tbl (flush_feed d f)) = f_id ` set (feeds_tbl d)"
  using map_id_flush [of d f] by (metis set_map)

lemma flush_feed_simps [simp]:
  "entries_tbl (flush_feed d f) = entries_tbl d"
  "entries_seq (flush_feed d f) = entries_seq d"
  "feeds_seq (flush_feed d f) = feeds_seq d"
  by (simp_all add: flush_feed_def)

lemma map_url_flush:
  assumes "distinct (map f_id (feeds_tbl d))" "g \<in> set (feeds_tbl d)" "f_id f = f_id g" "f_url f = f_url g"
  shows "map f_url (feeds_tbl (flush_feed d f)) = map f_url (feeds_tbl d)"
  unfolding flush_feed_def
  by (simp, rule map_update_where) (use assms in \<open>auto dest: distinct_map_eq\<close>)

text \<open>Writing back an object whose identity columns did not change keeps every constraint.\<close>

lemma db_ok_flush_feed:
  assumes "db_ok d" "feed_by_id d i = Some g" "f_id f = f_id g" "f_url f = f_url g"
  shows "db_ok (flush_feed d f)"
proof -
  from assms(2) have g: "g \<in> set (feeds_tbl d)" by (auto simp: feed_by_id_def dest: find_SomeD)
  from assms(1) have ok: "feeds_ok d" by (simp add: db_ok_def)
  then have "map f_url (feeds_tbl (flush_feed d f)) = map f_url (feeds_tbl d)"
    using g assms(3,4) by (intro map_url_flush) (auto simp: feeds_ok_def)
  with ok have "feeds_ok (flush_feed d f)" by (simp only: feeds_ok_def map_id_flush flush_feed_simps)
  moreover have "entries_ok (flush_feed d f) = entries_ok d" "fk_ok (flush_feed d f) = fk_ok d"
    by (simp_all add: entries_ok_def fk_ok_def)
  ultimately show ?thesis using assms(1) by (simp add: db_ok_def)
qed

lemma feed_by_id_flush:
  assumes "feed_by_id d (f_id f) = Some g"
  shows "feed_by_id (flush_feed d f) j = (if j = f_id f then Some f else feed_by_id d j)"
proof -
  have other: "j \<noteq> f_id f \<Longrightarrow> find (\<lambda>x. f_id x = j) (update_where (\<lambda>g. f_id g = f_id f) (\<lambda>_. f) fs) =
      find (\<lambda>x. f_id x = j) fs" for fs
    by (induction fs) (auto simp: update_where_def)
  have same: "find (\<lambda>x. f_id x = f_id f) fs = Some g \<Longrightarrow>
      find (\<lambda>x. f_id x = f_id f) (update_where (\<lambda>g. f_id g = f_id f) (\<lambda>_. f) fs) = Some f" for fs
    by (induction fs) (auto simp: update_where_def split: if_splits)
  from assms show ?thesis by (simp add: feed_by_id_def flush_feed_def same other)
qed

lemma feed_by_id_Some: "feed_by_id d i = Some f \<Longrightarrow> f_id f = i \<and> f \<in> set (feeds_tbl d)"
  by (auto simp: feed_by_id_def dest: find_SomeD)

lemma feed_by_id_mem:
  "feeds_ok d \<Longrightarrow> f \<in> set (feeds_tbl d) \<Longrightarrow> feed_by_id d (f_id f) = Some f"
  unfolding feed_by_id_def feeds_ok_def by (rule find_Some_distinct) auto

lemma db_ok_cascade_delete: "db_ok d \<Longrightarrow> db_ok (cascade_delete d i)"
  by (auto simp: db_ok_def feeds_ok_def entries_ok_def fk_ok_def cascade_delete_def
      distinct_map_filter list_all_iff)

lemma db_ok_rollback_to:
  assumes "db_ok d" "feeds_seq d \<le> feeds_seq d'" "entries_seq d \<le> entries_seq d'"
  shows "db_ok (rollback_to d d')"
  using assms by (fastforce simp: db_ok_def feeds_ok_def entries_ok_def fk_ok_def rollback_to_def list_all_iff)

lemma feed_status_str_inj: "feed_status_str a = feed_status_str b \<Longrightarrow> a = b"
  by (cases a; cases b) auto

section \<open>Rows for concrete runs\<close>

definition sample_feed :: feed where
  "sample_feed = \<lparr>f_id = 1, f_url = ''http://a.example/f'', f_effective_url = ''http://a.example/f'',
     f_title = None, f_status = ACTIVE, f_last_successful_fetch_at = None, f_last_attempt_at = None,
     f_last_error_code = None, f_created_at = 0, f_next_fetch_at = 0, f_consecutive_failures = 0,
     f_etag = None, f_last_modified = None\<rparr>"

definition sample_entry :: entry where
  "sample_entry = \<lparr>e_id = 1, e_feed_id = 1, e_guid = ''g1'', e_url = ''http://a.example/1'',
     e_title = Some ''old'', e_content = None, e_author = None, e_published_at = None,
     e_fetched_at = 5, e_content_updated_at = 5\<rparr>"

definition sample_db :: db where
  "sample_db = \<lparr>feeds_tbl = [sample_feed], entries_tbl = [sample_entry], feeds_seq = 2, entries_seq = 2\<rparr>"

lemma sample_db_ok: "db_ok sample_db" "entries_ok sample_db"
  by (simp_all add: db_ok_def feeds_ok_def entries_ok_def fk_ok_def sample_db_def sample_feed_def sample_entry_def)

end
