(* ===== verification/Metrics.thy ===== *)
theory Metrics
  imports Models
begin

text \<open>
  \<open>metrics.py\<close>, the fetch pipeline's part. A run of the program leaves a trace of the
  counters it increments and the log lines it writes about feeds; a Prometheus counter is the
  number of matching events of the trace. \<open>observe_fetch\<close> is the one place that records a
  finished fetch. The last group of events belongs to the scheduler: the in-flight gauge, fatal
  errors of one feed, and the counters and gauges of a tick; then the retention sweep's and the
  API middleware's.
\<close>

datatype log_level = LogWarning | LogError

datatype event =
    StateTransition feed_status feed_status string
  | LogTransition log_level int string feed_status feed_status string
  | FetchTotal string
  | FetchDuration string float_val
  | FetchErrorTotal error_code
  | LogFetchFailed int string error_code exn_class
  | InflightFetches int
  | LogProcessFatal int
  | TickTotal string
  | TickDuration float_val
  | LastTick
  | ClaimedFeeds int
  | LogTickRaised
  | RetentionDeleted int
  | LogSwept int
  | LogSweepRaised
  | ApiRequestsTotal string string string
  | ApiDuration string string float_val

text \<open>What the background tasks share: the database, the fallback set and the trace.\<close>

record world =
  w_db :: db
  w_domains :: "string set"
  w_events :: "event list"

abbreviation emit :: "event list \<Rightarrow> world \<Rightarrow> world" where
  "emit es w \<equiv> w\<lparr>w_events := w_events w @ es\<rparr>"

definition observe_fetch :: "string \<Rightarrow> float_val \<Rightarrow> error_code option \<Rightarrow> event list \<Rightarrow> event list" where
  "observe_fetch result elapsed error_code ev =
     ev @ [FetchTotal result, FetchDuration result elapsed] @
     (case error_code of None \<Rightarrow> [] | Some c \<Rightarrow> [FetchErrorTotal c])"

fun transitions_of :: "event list \<Rightarrow> (feed_status \<times> feed_status) list" where
  "transitions_of [] = []"
| "transitions_of (StateTransition a b r # es) = (a, b) # transitions_of es"
| "transitions_of (_ # es) = transitions_of es"

fun results_of :: "event list \<Rightarrow> string list" where
  "results_of [] = []"
| "results_of (FetchTotal r # es) = r # results_of es"
| "results_of (_ # es) = results_of es"

lemma transitions_of_append [simp]:
  "transitions_of (xs @ ys) = transitions_of xs @ transitions_of ys"
  by (induction xs rule: transitions_of.induct) auto

lemma results_of_append [simp]: "results_of (xs @ ys) = results_of xs @ results_of ys"
  by (induction xs rule: results_of.induct) auto

lemma observe_fetch_transitions [simp]:
  "transitions_of (observe_fetch r el c ev) = transitions_of ev"
  by (simp add: observe_fetch_def split: option.splits)

lemma observe_fetch_results [simp]: "results_of (observe_fetch r el c ev) = results_of ev @ [r]"
  by (simp add: observe_fetch_def split: option.splits)

end
