(* ===== verification/Feed_State.thy ===== *)
theory Feed_State
  imports Metrics
begin

text \<open>
  \<open>feed_state.py\<close>: the lifecycle transitions of a feed. \<open>transition_feed\<close> records a
  transition (counter and log line), \<open>mark_fetch_success\<close> and \<open>mark_fetch_failure\<close> update the
  lifecycle columns after an attempt. \<open>timedelta(days=...)\<close> in \<open>mark_fetch_failure\<close> can raise,
  so its result carries the state reached so far. The documented state machine is the
  inductive relation \<open>lifecycle\<close>; the locale \<open>lifecycle_operation\<close> states what every operation
  on the lifecycle columns promises, and each operation is an interpretation of it.
\<close>

section \<open>Operations\<close>

definition transition_feed :: "feed \<Rightarrow> feed_status \<Rightarrow> string \<Rightarrow> event list \<Rightarrow> event list" where
  "transition_feed feed new_status reason ev =
     ev @ [StateTransition (f_status feed) new_status reason,
       LogTransition (if new_status \<in> {BROKEN, DEAD} then LogError else LogWarning)
         (f_id feed) (f_effective_url feed) (f_status feed) new_status reason]"

definition mark_fetch_success ::
  "feed \<Rightarrow> instant \<Rightarrow> string option \<Rightarrow> event list \<Rightarrow> feed \<times> event list" where
  "mark_fetch_success feed now title ev =
     (let f1 = (case title of Some t \<Rightarrow> if t \<noteq> [] then feed\<lparr>f_title := Some t\<rparr> else feed | None \<Rightarrow> feed);
          f2 = f1\<lparr>f_last_successful_fetch_at := Some now, f_last_error_code := None,
                  f_consecutive_failures := 0\<rparr>
      in if f_status f2 \<noteq> ACTIVE
         then (f2\<lparr>f_status := ACTIVE\<rparr>, transition_feed f2 ACTIVE ''fetch_succeeded'' ev)
         else (f2, ev))"

definition mark_fetch_failure ::
  "feed \<Rightarrow> instant \<Rightarrow> error_code \<Rightarrow> int \<Rightarrow> int \<Rightarrow> event list \<Rightarrow> (feed \<times> event list, exn, unit) outcome" where
  "mark_fetch_failure feed now code broken_threshold dead_duration_days ev =
     (let f1 = feed\<lparr>f_last_error_code := Some code,
                    f_consecutive_failures := f_consecutive_failures feed + 1\<rparr>
      in if code = HTTP_410 then
           (if f_status f1 \<noteq> DEAD
            then ((f1\<lparr>f_status := DEAD\<rparr>, transition_feed f1 DEAD ''http_410'' ev), Inr ())
            else ((f1, ev), Inr ()))
         else
           (let (f2, ev2) =
              (if f_status f1 = ACTIVE \<and> f_consecutive_failures f1 \<ge> broken_threshold
               then (f1\<lparr>f_status := BROKEN\<rparr>,
                     transition_feed f1 BROKEN (''consecutive_failures>='' @ str_of_int broken_threshold) ev)
               else (f1, ev))
            in if f_status f2 = BROKEN then
                 (let reference = (case f_last_successful_fetch_at f2 of Some t \<Rightarrow> t | None \<Rightarrow> f_created_at f2)
                  in case timedelta_days dead_duration_days of
                       Inl e \<Rightarrow> ((f2, ev2), Inl e)
                     | Inr dead_span \<Rightarrow>
                         if now - reference \<ge> dead_span
                         then ((f2\<lparr>f_status := DEAD\<rparr>,
                                transition_feed f2 DEAD
                                  (''no_success_for_>='' @ str_of_int dead_duration_days @ ''d'') ev2), Inr ())
                         else ((f2, ev2), Inr ()))
               else ((f2, ev2), Inr ())))"

section \<open>The documented state machine\<close>

inductive lifecycle :: "feed_status \<Rightarrow> feed_status \<Rightarrow> bool" where
  breaks: "lifecycle ACTIVE BROKEN"
| gone_active: "lifecycle ACTIVE DEAD"
| dies: "lifecycle BROKEN DEAD"
| recovers: "lifecycle BROKEN ACTIVE"
| revives: "lifecycle DEAD ACTIVE"

inductive_cases lifecycle_from_deadE: "lifecycle DEAD s"
inductive_simps lifecycle_iff: "lifecycle a b"

code_pred lifecycle .

text \<open>A list of recorded transitions leads from one status to another along edges.\<close>

fun lifecycle_path :: "feed_status \<Rightarrow> (feed_status \<times> feed_status) list \<Rightarrow> feed_status \<Rightarrow> bool" where
  "lifecycle_path s [] t = (s = t)"
| "lifecycle_path s ((a, b) # ts) t = (s = a \<and> lifecycle a b \<and> lifecycle_path b ts t)"

definition trail :: "feed \<times> event list \<Rightarrow> feed \<times> event list \<Rightarrow> bool" where
  "trail s t \<longleftrightarrow> (\<exists>new. snd t = snd s @ new \<and>
     lifecycle_path (f_status (fst s)) (transitions_of new) (f_status (fst t)))"

definition same_identity :: "feed \<Rightarrow> feed \<Rightarrow> bool" where
  "same_identity f g = (f_id g = f_id f \<and> f_url g = f_url f \<and> f_created_at g = f_created_at f)"

section \<open>Facts\<close>

lemma lifecycle_path_append:
  "lifecycle_path a xs b \<Longrightarrow> lifecycle_path b ys c \<Longrightarrow> lifecycle_path a (xs @ ys) c"
  by (induction a xs b rule: lifecycle_path.induct) auto

lemma trail_refl [intro, simp]: "trail s s"
  by (simp add: trail_def)

lemma trail_trans: "trail s t \<Longrightarrow> trail t u \<Longrightarrow> trail s u"
  unfolding trail_def by (auto intro: lifecycle_path_append)

lemma trail_status: "f_status g = f_status f \<Longrightarrow> trail (f, ev) (g, ev)"
  by (simp add: trail_def)

lemma trail_transition:
  assumes "lifecycle (f_status f) s" "f_status g = s"
  shows "trail (f, ev) (g, transition_feed f s r ev)"
  using assms by (simp add: trail_def transition_feed_def)

lemma trail_observe:
  "trail s (f, ev) \<Longrightarrow> trail s (f, observe_fetch r el c ev)"
  by (auto simp: trail_def observe_fetch_def split: option.splits)

lemma lifecycle_simps [simp]:
  "lifecycle s ACTIVE \<longleftrightarrow> s \<noteq> ACTIVE"
  "lifecycle ACTIVE BROKEN"
  "lifecycle s DEAD \<longleftrightarrow> s \<noteq> DEAD"
  by (cases s; auto simp: lifecycle_iff)+

lemma lifecycle_irrefl: "\<not> lifecycle s s"
  by (auto simp: lifecycle_iff)

lemma lifecycle_path_nontrivial: "lifecycle_path s ts t \<Longrightarrow> s \<noteq> t \<Longrightarrow> ts \<noteq> []"
  by auto

lemma same_identity_refl [simp]: "same_identity f f"
  by (simp add: same_identity_def)

lemma same_identity_trans: "same_identity f g \<Longrightarrow> same_identity g h \<Longrightarrow> same_identity f h"
  by (simp add: same_identity_def)

section \<open>What every lifecycle operation promises\<close>

locale lifecycle_operation =
  fixes op :: "feed \<Rightarrow> event list \<Rightarrow> feed \<times> event list"
  assumes op_trail: "trail (f, ev) (op f ev)"
    and op_identity: "same_identity f (fst (op f ev))"
begin

lemma status_change_recorded:
  assumes "f_status (fst (op f [])) \<noteq> f_status f"
  shows "transitions_of (snd (op f [])) \<noteq> []"
proof -
  from op_trail [of f "[]"] have
    "lifecycle_path (f_status f) (transitions_of (snd (op f []))) (f_status (fst (op f [])))"
    by (auto simp: trail_def)
  with assms show ?thesis by (metis lifecycle_path.simps(1))
qed

lemma events_grow: "\<exists>new. snd (op f ev) = ev @ new"
  using op_trail [of f ev] by (auto simp: trail_def)

lemma op_trail_from: "trail s (f, ev) \<Longrightarrow> trail s (op f ev)"
  using op_trail trail_trans by blast

lemma op_keeps_row:
  "db_ok d \<Longrightarrow> feed_by_id d i = Some f \<Longrightarrow> db_ok (flush_feed d (fst (op f ev)))"
  using op_identity [of f ev] by (intro db_ok_flush_feed) (auto simp: same_identity_def)

end

interpretation success_op: lifecycle_operation "\<lambda>f ev. mark_fetch_success f now title ev" for now title
proof
  show "trail (f, ev) (mark_fetch_success f now title ev)" for f ev
  proof (cases "f_status f = ACTIVE")
    case True
    then show ?thesis
      by (auto simp: mark_fetch_success_def Let_def intro!: trail_status split: option.splits)
  next
    case False
    then show ?thesis
      by (auto simp: mark_fetch_success_def Let_def trail_def transition_feed_def split: option.splits)
  qed
  show "same_identity f (fst (mark_fetch_success f now title ev))" for f ev
    by (auto simp: mark_fetch_success_def same_identity_def Let_def split: option.splits)
qed

interpretation failure_op: lifecycle_operation
  "\<lambda>f ev. fst (mark_fetch_failure f now code bt dd ev)" for now code bt dd
proof
  show "trail (f, ev) (fst (mark_fetch_failure f now code bt dd ev))" for f ev
    by (auto simp: mark_fetch_failure_def Let_def trail_def transition_feed_def split: sum.splits if_splits)
  show "same_identity f (fst (fst (mark_fetch_failure f now code bt dd ev)))" for f ev
    by (auto simp: mark_fetch_failure_def same_identity_def Let_def split: sum.splits if_splits)
qed

section \<open>A history of failures\<close>

definition fail_once :: "int \<Rightarrow> int \<Rightarrow> feed \<Rightarrow> instant \<times> error_code \<Rightarrow> feed" where
  "fail_once bt dd f h = fst (fst (mark_fetch_failure f (fst h) (snd h) bt dd []))"

definition reference_time :: "feed \<Rightarrow> instant" where
  "reference_time f = (case f_last_successful_fetch_at f of Some t \<Rightarrow> t | None \<Rightarrow> f_created_at f)"

lemma fail_once_frame [simp]:
  "reference_time (fail_once bt dd f h) = reference_time f"
  "f_consecutive_failures (fail_once bt dd f h) = f_consecutive_failures f + 1"
  by (cases "f_last_successful_fetch_at f";
      auto simp: fail_once_def mark_fetch_failure_def reference_time_def Let_def split: sum.splits)+





end
