(* ===== verification/Fetch_Errors.thy ===== *)
theory Fetch_Errors
  imports Models
begin

text \<open>
  \<open>fetcher/errors.py\<close>: \<open>classify_error\<close> maps a caught exception to the error code stored with
  the feed, and \<open>_classify_connect_cause\<close> walks at most eight links of the cause/context chain
  of a connection failure. The \<open>seen\<close> set of object identities is kept; chains of exception
  values are finite, so an object met twice is a cycle the values cannot form.
\<close>

fun classify_connect_loop :: "nat \<Rightarrow> exn option \<Rightarrow> exn list \<Rightarrow> error_code" where
  "classify_connect_loop 0 current seen = CONNECTION"
| "classify_connect_loop (Suc n) None seen = CONNECTION"
| "classify_connect_loop (Suc n) (Some e) seen =
     (if exn_cls e = SSLError then TLS_ERROR
      else if exn_cls e = GaiError then DNS
      else if exn_cls e = ConnectionRefusedError then TCP_REFUSED
      else if e \<in> set seen then CONNECTION
      else classify_connect_loop n (exn_next e) (e # seen))"

definition classify_connect_cause :: "exn \<Rightarrow> error_code" where
  "classify_connect_cause e = classify_connect_loop 8 (Some e) []"

definition classify_error :: "exn \<Rightarrow> error_code" where
  "classify_error e = (case exn_cls e of
     BlockedURLError \<Rightarrow> BLOCKED
   | NotAFeedError \<Rightarrow> NOT_A_FEED
   | ResponseTooLargeError \<Rightarrow> TOO_LARGE
   | FallbackError \<Rightarrow>
       (case exn_next e of
          Some c \<Rightarrow> if exn_cls c = ResponseTooLargeError then TOO_LARGE else OTHER
        | None \<Rightarrow> OTHER)
   | TimeoutException \<Rightarrow> TIMEOUT
   | TimeoutError \<Rightarrow> TIMEOUT
   | ConnectError \<Rightarrow> classify_connect_cause e
   | HTTPStatusError status \<Rightarrow>
       if status = 410 then HTTP_410
       else if 400 \<le> status \<and> status < 500 then HTTP_4XX
       else HTTP_5XX
   | TooManyRedirects \<Rightarrow> REDIRECT_LOOP
   | c \<Rightarrow> if is_httpx_HTTPError c then HTTP_ERROR else OTHER)"

section \<open>Reference classification of connection failures\<close>

fun chain_upto :: "nat \<Rightarrow> exn \<Rightarrow> exn list" where
  "chain_upto 0 e = []"
| "chain_upto (Suc n) e = e # (case exn_next e of None \<Rightarrow> [] | Some e' \<Rightarrow> chain_upto n e')"

fun connect_code :: "exn_class \<Rightarrow> error_code option" where
  "connect_code SSLError = Some TLS_ERROR"
| "connect_code GaiError = Some DNS"
| "connect_code ConnectionRefusedError = Some TCP_REFUSED"
| "connect_code _ = None"

definition first_code :: "exn list \<Rightarrow> error_code" where
  "first_code es = (case List.map_filter (\<lambda>e. connect_code (exn_cls e)) es of
     [] \<Rightarrow> CONNECTION | c # _ \<Rightarrow> c)"

lemma first_code_Cons:
  "first_code (e # es) = (case connect_code (exn_cls e) of Some c \<Rightarrow> c | None \<Rightarrow> first_code es)"
  by (simp add: first_code_def List.map_filter_simps split: option.splits)

lemma first_code_Nil [simp]: "first_code [] = CONNECTION"
  by (simp add: first_code_def List.map_filter_simps)

lemma classify_connect_loop_chain:
  assumes "\<forall>s \<in> set seen. size e < size s"
  shows "classify_connect_loop n (Some e) seen = first_code (chain_upto n e)"
  using assms
proof (induction n arbitrary: e seen)
  case (Suc n)
  have notin: "e \<notin> set seen" using Suc.prems by auto
  show ?case
  proof (cases "exn_next e")
    case None
    then show ?thesis using notin
      by (cases n; cases "exn_cls e") (simp_all add: first_code_Cons)
  next
    case (Some e')
    then have "\<forall>s \<in> set (e # seen). size e' < size s"
      using size_exn_next [OF Some] Suc.prems by auto
    then have "classify_connect_loop n (Some e') (e # seen) = first_code (chain_upto n e')"
      by (rule Suc.IH)
    then show ?thesis using Some notin
      by (cases "exn_cls e") (simp_all add: first_code_Cons)
  qed
qed simp

text \<open>
  The identity check never cuts a walk short: the code is decided by the first of the eight
  nearest links that is a TLS, DNS or connection-refused error.
\<close>

lemma classify_connect_cause_eq: "classify_connect_cause e = first_code (chain_upto 8 e)"
  unfolding classify_connect_cause_def by (rule classify_connect_loop_chain) simp

lemma first_code_range: "first_code es \<in> {TLS_ERROR, DNS, TCP_REFUSED, CONNECTION}"
proof (induction es)
  case (Cons e es)
  then show ?case by (cases "exn_cls e") (auto simp: first_code_Cons)
qed simp

lemma classify_error_not_410:
  "classify_error e = HTTP_410 \<longleftrightarrow> exn_cls e = HTTPStatusError 410"
  using first_code_range [of "chain_upto 8 e"]
  by (auto simp: classify_error_def classify_connect_cause_eq is_httpx_HTTPError_def
      split: exn_class.splits option.splits)

lemma classify_error_not_rate_limited: "classify_error e \<noteq> RATE_LIMITED"
  using first_code_range [of "chain_upto 8 e"]
  by (auto simp: classify_error_def classify_connect_cause_eq is_httpx_HTTPError_def
      split: exn_class.splits option.splits)

text \<open>
  How a connection failure is named: the code is decided by the first TLS, DNS or
  connection-refused error among the exception itself and its seven nearest causes, and is
  \<open>connection\<close> if there is none; the walk always ends and its cycle check never cuts it short.
\<close>

theorem connection_failure_named_by_nearest_cause:
  assumes "exn_cls e = ConnectError"
  shows "classify_error e = first_code (chain_upto 8 e)"
  using assms by (simp add: classify_error_def classify_connect_cause_eq)

theorem connection_failure_named_by_nearest_cause_witness:
  "classify_error (raise_from ConnectError (raise_from OtherException (raise_exn GaiError))) = DNS"
  using connection_failure_named_by_nearest_cause [of "raise_from ConnectError (raise_from OtherException (raise_exn GaiError))"]
  by (simp add: first_code_Cons raise_from_def raise_exn_def exn_next_def eval_nat_numeral)

end
