(* ===== verification/Policy.thy ===== *)
theory Policy
  imports Models
begin

text \<open>
  \<open>fetcher/policy.py\<close>: when to fetch next, and what response headers mean.
  \<open>compute_next_fetch_at\<close> takes the value \<open>u\<close> of \<open>random.random()\<close> as an argument
  (\<open>random.uniform(a, b)\<close> is \<open>a + (b - a) * random()\<close>). \<open>email.utils.parsedate_to_datetime\<close>
  is the argument \<open>parsedate\<close>: it may return an aware datetime, a naive one, or raise
  anything. Header values are looked up by lower-case name, as \<open>httpx.Headers.get\<close> does.
\<close>

type_synonym headers = "string \<Rightarrow> string option"

datatype py_datetime = Aware instant | Naive instant

type_synonym date_parser = "string \<Rightarrow> exn + py_datetime"

section \<open>Scheduling\<close>

record policy_config =
  base_interval_seconds :: int
  broken_threshold :: int
  broken_max_backoff_seconds :: int
  backoff_jitter_ratio :: float_val
  entry_frequency_min_interval_seconds :: int
  entry_frequency_max_interval_seconds :: int
  entry_frequency_factor :: int

definition py_uniform :: "float_val \<Rightarrow> float_val \<Rightarrow> float_val \<Rightarrow> float_val" where
  "py_uniform a b u = fl (a + fl (fl (b - a) * u))"

definition compute_next_fetch_at ::
  "feed \<Rightarrow> instant \<Rightarrow> policy_config \<Rightarrow> int option \<Rightarrow> int \<Rightarrow> float_val \<Rightarrow> exn + instant" where
  "compute_next_fetch_at feed now cfg server_hint_seconds weekly_entry_count u =
     (if f_status feed \<noteq> BROKEN then
        try_bind
          (if weekly_entry_count > 0 then
             (if weekly_entry_count * entry_frequency_factor cfg = 0 then Inl (raise_exn ZeroDivisionError)
              else
                (let raw = fl (of_int (7 * 24 * 3600) / of_int (weekly_entry_count * entry_frequency_factor cfg))
                 in Inr (max (of_int (entry_frequency_min_interval_seconds cfg))
                      (min raw (of_int (entry_frequency_max_interval_seconds cfg))))))
           else Inr (fl (of_int (base_interval_seconds cfg))))
          (\<lambda>computed.
             let effective = max computed (of_int (case server_hint_seconds of None \<Rightarrow> 0 | Some h \<Rightarrow> h))
             in try_bind (timedelta_seconds effective) (\<lambda>d. dt_add now d))
      else
        (let excess = max 0 (f_consecutive_failures feed - broken_threshold cfg);
             factor = 2 ^ nat excess;
             raw_interval = base_interval_seconds cfg * factor;
             capped = min raw_interval (broken_max_backoff_seconds cfg);
             jitter_span = fl (backoff_jitter_ratio cfg * fl (of_int capped));
             jitter = py_uniform (- jitter_span) jitter_span u
         in try_bind (timedelta_seconds (fl (fl (of_int capped) + jitter))) (\<lambda>d. dt_add now d)))"

section \<open>Response headers\<close>

definition NOT_A_FEED_CONTENT_TYPES :: "string list" where
  "NOT_A_FEED_CONTENT_TYPES =
     [''text/html'', ''application/xhtml+xml'', ''application/json'', ''application/ld+json'']"

definition is_not_a_feed_content_type :: "string option \<Rightarrow> bool" where
  "is_not_a_feed_content_type ct = (case ct of
     None \<Rightarrow> False
   | Some s \<Rightarrow> if s = [] then False
       else lower (strip (fst (partition_at CHR '';'' s))) \<in> set NOT_A_FEED_CONTENT_TYPES)"

text \<open>A naive date is taken as UTC; the delay is truncated to whole seconds, never negative.\<close>

fun utc_instant :: "py_datetime \<Rightarrow> instant" where
  "utc_instant (Aware t) = t"
| "utc_instant (Naive t) = t"

definition delay_until :: "py_datetime \<Rightarrow> instant \<Rightarrow> int" where
  "delay_until dt now = max 0 (py_trunc (total_seconds (utc_instant dt - now)))"

definition parse_http_date :: "date_parser \<Rightarrow> string \<Rightarrow> instant \<Rightarrow> exn + int option" where
  "parse_http_date parsedate s now = (case parsedate s of
     Inl e \<Rightarrow> if exn_cls e = TypeError \<or> is_ValueError (exn_cls e) then Inr None else Inl e
   | Inr dt \<Rightarrow> Inr (Some (delay_until dt now)))"

definition parse_retry_after :: "date_parser \<Rightarrow> string option \<Rightarrow> instant \<Rightarrow> exn + int option" where
  "parse_retry_after parsedate header now = (case header of
     None \<Rightarrow> Inr None
   | Some h \<Rightarrow>
       (let stripped = strip h in
        case py_int stripped of
          Some n \<Rightarrow> Inr (Some (max 0 n))
        | None \<Rightarrow> parse_http_date parsedate stripped now))"

text \<open>The first \<open>max-age=\<close> directive with a readable number wins.\<close>

fun max_age_of :: "string list \<Rightarrow> int option" where
  "max_age_of [] = None"
| "max_age_of (part # parts) =
     (let stripped = strip part in
      if startswith (lower stripped) ''max-age=''
      then (case py_int (drop 8 stripped) of Some n \<Rightarrow> Some (max 0 n) | None \<Rightarrow> max_age_of parts)
      else max_age_of parts)"

definition parse_cache_hint :: "date_parser \<Rightarrow> headers \<Rightarrow> instant \<Rightarrow> exn + int option" where
  "parse_cache_hint parsedate hs now =
     (let cc = (case hs ''cache-control'' of None \<Rightarrow> [] | Some v \<Rightarrow> v) in
      case max_age_of (split_on CHR '','' cc) of
        Some n \<Rightarrow> Inr (Some n)
      | None \<Rightarrow>
          (case hs ''expires'' of
             None \<Rightarrow> Inr None
           | Some expires \<Rightarrow> if expires = [] then Inr None else parse_http_date parsedate expires now))"

section \<open>Facts\<close>

lemma delay_until_nonneg: "0 \<le> delay_until dt now"
  by (simp add: delay_until_def)

lemma max_age_of_nonneg: "max_age_of ps = Some n \<Longrightarrow> 0 \<le> n"
  by (induction ps) (auto simp: Let_def split: if_splits option.splits)

lemma parse_http_date_nonneg: "parse_http_date pd s now = Inr (Some n) \<Longrightarrow> 0 \<le> n"
  by (auto simp: parse_http_date_def delay_until_nonneg split: sum.splits if_splits)

lemma parse_cache_hint_nonneg: "parse_cache_hint pd hs now = Inr (Some n) \<Longrightarrow> 0 \<le> n"
  by (auto simp: parse_cache_hint_def Let_def parse_http_date_nonneg max_age_of_nonneg
      split: option.splits if_splits)

lemma parse_retry_after_nonneg: "parse_retry_after pd h now = Inr (Some n) \<Longrightarrow> 0 \<le> n"
  by (auto simp: parse_retry_after_def Let_def parse_http_date_nonneg split: option.splits)

lemma try_timedelta:
  "try_bind (timedelta_seconds x) (\<lambda>d. dt_add now d) = Inr t \<Longrightarrow>
     t = now + us_of_seconds x \<and> valid_instant t"
  by (auto simp: try_bind_eq_Inr timedelta_seconds_def dt_add_eq dest: check_timedelta_eq)

lemma try_timedelta_err:
  "try_bind (timedelta_seconds x) (\<lambda>d. dt_add now d) = Inl e \<Longrightarrow> exn_cls e = OverflowError"
  by (auto simp: try_bind_eq_Inl timedelta_seconds_def dest: check_timedelta_err dt_add_err)

text \<open>\<open>uniform(-s, s)\<close> stays in its interval, rounding included.\<close>

lemma py_uniform_bounds:
  assumes s: "fl s = s" and u: "0 \<le> u" "u \<le> 1" and "0 \<le> s"
  shows "- s \<le> py_uniform (- s) s u" "py_uniform (- s) s u \<le> s"
proof -
  have w: "fl (s - - s) = 2 * s" using fl_double [of s] s by (simp only: minus_minus diff_minus_eq_add flip: mult_2)
  have "0 \<le> fl (2 * s * u)" using assms by (intro fl_nonneg) simp
  then have "- s \<le> - s + fl (2 * s * u)" by simp
  from fl_mono [OF this] show "- s \<le> py_uniform (- s) s u"
    unfolding py_uniform_def w by (simp only: s fl_minus)
  have "2 * s * u \<le> 2 * s" using assms by (simp add: mult_left_le)
  from fl_mono [OF this] have "fl (2 * s * u) \<le> 2 * s" using s fl_double [of s] by simp
  then have "- s + fl (2 * s * u) \<le> s" by simp
  from fl_mono [OF this] show "py_uniform (- s) s u \<le> s"
    unfolding py_uniform_def w by (simp only: s)
qed

text \<open>
  The common last step of both schedules: a duration between two whole numbers of seconds,
  added to an instant far enough from the end of the calendar, gives an instant between the
  two whole offsets.
\<close>

lemma add_seconds_ok:
  assumes "valid_instant now" "valid_instant (now + hi * US)"
    and "0 \<le> lo" "of_int lo \<le> x" "x \<le> of_int hi"
  shows "\<exists>t. try_bind (timedelta_seconds x) (\<lambda>d. dt_add now d) = Inr t \<and>
    now + lo * US \<le> t \<and> t \<le> now + hi * US"
proof -
  let ?d = "us_of_seconds x"
  have x: "0 \<le> x" using assms(3,4) by (meson of_int_0_le_iff order_trans)
  have lo: "lo * 1000000 \<le> ?d" by (rule us_of_seconds_ge [OF assms(3,4)])
  have hi: "?d \<le> hi * 1000000" by (rule us_of_seconds_le [OF x assms(5)])
  have d0: "0 \<le> ?d" using lo assms(3) by simp
  have valid: "valid_instant (now + ?d)"
    using assms(1,2) d0 hi by (simp add: valid_instant_def US_def)
  have "?d \<le> dt_max - dt_min" using assms(1,2) hi by (simp add: valid_instant_def US_def)
  then have "?d div us_per_day \<le> (dt_max - dt_min) div us_per_day"
    by (intro zdiv_mono1) (simp_all add: us_per_day_def)
  also have "\<dots> \<le> 999999999" by (simp add: dt_max_def dt_min_def us_per_day_def)
  finally have "?d div us_per_day \<le> 999999999" .
  moreover have "0 \<le> ?d div us_per_day"
    using d0 by (simp add: us_per_day_def pos_imp_zdiv_nonneg_iff)
  ultimately have "timedelta_seconds x = Inr ?d"
    by (simp add: timedelta_seconds_def check_timedelta_def)
  with valid lo hi show ?thesis by (simp add: dt_add_def US_def)
qed

lemma fl_between:
  assumes "of_int lo \<le> x" "x \<le> of_int hi" "\<bar>lo\<bar> < 2 ^ 53" "\<bar>hi\<bar> < 2 ^ 53"
  shows "of_int lo \<le> fl x" "fl x \<le> of_int hi"
  using assms by (auto intro: fl_ge_of_int fl_le_of_int)

section \<open>Properties\<close>

definition sample_policy :: policy_config where
  "sample_policy = \<lparr>base_interval_seconds = 60, broken_threshold = 3, broken_max_backoff_seconds = 3600,
     backoff_jitter_ratio = 1 / 4, entry_frequency_min_interval_seconds = 300,
     entry_frequency_max_interval_seconds = 86400, entry_frequency_factor = 1\<rparr>"

definition hint_seconds :: "int option \<Rightarrow> int" where
  "hint_seconds h = (case h of None \<Rightarrow> 0 | Some n \<Rightarrow> n)"

text \<open>
  For a feed that is not broken and has entries from the last week, the next fetch is
  scheduled (no exception) between the configured minimum and maximum interval after \<open>now\<close>,
  except that a server hint longer than that interval is honoured: the result lies between
  \<open>max(min, hint)\<close> and \<open>max(max, hint)\<close> seconds after \<open>now\<close>.
\<close>

theorem next_fetch_frequency_bounds:
  assumes "f_status f \<noteq> BROKEN" "0 < w" "entry_frequency_factor cfg \<noteq> 0"
    and "0 \<le> entry_frequency_min_interval_seconds cfg"
    and "entry_frequency_min_interval_seconds cfg \<le> entry_frequency_max_interval_seconds cfg"
    and "valid_instant now"
    and "valid_instant (now + max (entry_frequency_max_interval_seconds cfg) (hint_seconds hint) * US)"
  shows "\<exists>t. compute_next_fetch_at f now cfg hint w u = Inr t \<and>
    now + max (entry_frequency_min_interval_seconds cfg) (hint_seconds hint) * US \<le> t \<and>
    t \<le> now + max (entry_frequency_max_interval_seconds cfg) (hint_seconds hint) * US"
proof -
  let ?lo = "entry_frequency_min_interval_seconds cfg" and ?hi = "entry_frequency_max_interval_seconds cfg"
  let ?h = "hint_seconds hint"
  define raw where "raw = fl (of_int (7 * 24 * 3600) / of_int (w * entry_frequency_factor cfg))"
  define eff where "eff = max (max (of_int ?lo) (min raw (of_int ?hi))) (of_int ?h)"
  have "of_int (max ?lo ?h) \<le> eff"
    unfolding eff_def of_int_max by (intro max.mono max.cobounded1 order_refl)
  moreover have "eff \<le> of_int (max ?hi ?h)"
    unfolding eff_def of_int_max using assms(5) by (intro max.mono order_refl) simp
  moreover have "0 \<le> max ?lo ?h" using assms(4) by simp
  ultimately have "\<exists>t. try_bind (timedelta_seconds eff) (\<lambda>d. dt_add now d) = Inr t \<and>
      now + max ?lo ?h * US \<le> t \<and> t \<le> now + max ?hi ?h * US"
    using assms(6,7) by (intro add_seconds_ok)
  moreover have "compute_next_fetch_at f now cfg hint w u =
      try_bind (timedelta_seconds eff) (\<lambda>d. dt_add now d)"
    using assms(1,2,3)
    by (simp add: compute_next_fetch_at_def eff_def raw_def hint_seconds_def Let_def)
  ultimately show ?thesis by simp
qed

theorem next_fetch_frequency_bounds_witness:
  "\<exists>t. compute_next_fetch_at sample_feed 0 sample_policy (Some 600) 7 0 = Inr t \<and> 600000000 \<le> t \<and> t \<le> 86400000000"
  using next_fetch_frequency_bounds [of sample_feed 7 sample_policy 0 "Some 600" 0]
  by (simp add: sample_feed_def sample_policy_def hint_seconds_def valid_instant_def dt_min_def dt_max_def US_def)

text \<open>
  A feed that is not broken and has no entries from the last week is fetched again exactly
  \<open>max(base_interval, hint)\<close> seconds after \<open>now\<close>.
\<close>

theorem next_fetch_quiet_feed:
  assumes "f_status f \<noteq> BROKEN" "w \<le> 0"
    and "0 \<le> base_interval_seconds cfg" "base_interval_seconds cfg < 2 ^ 53"
    and "valid_instant now"
    and "valid_instant (now + max (base_interval_seconds cfg) (hint_seconds hint) * US)"
  shows "compute_next_fetch_at f now cfg hint w u =
    Inr (now + max (base_interval_seconds cfg) (hint_seconds hint) * US)"
proof -
  let ?m = "max (base_interval_seconds cfg) (hint_seconds hint)"
  have "0 \<le> ?m" using assms(3) by simp
  then obtain t where "try_bind (timedelta_seconds (of_int ?m)) (\<lambda>d. dt_add now d) = Inr t"
    "now + ?m * US \<le> t" "t \<le> now + ?m * US"
    using add_seconds_ok [OF assms(5,6), of ?m "of_int ?m"] by auto
  moreover have "fl (of_int (base_interval_seconds cfg)) = of_int (base_interval_seconds cfg)"
    using assms(3,4) by (intro fl_of_int) simp
  ultimately show ?thesis
    using assms(1,2)
    by (simp add: compute_next_fetch_at_def hint_seconds_def Let_def of_int_max [symmetric])
qed

theorem next_fetch_quiet_feed_witness:
  "compute_next_fetch_at sample_feed 0 sample_policy (Some 90) 0 0 = Inr 90000000"
  using next_fetch_quiet_feed [of sample_feed 0 sample_policy 0 "Some 90" 0]
  by (simp add: sample_feed_def sample_policy_def hint_seconds_def valid_instant_def dt_min_def dt_max_def US_def)

definition capped_backoff :: "policy_config \<Rightarrow> int \<Rightarrow> int" where
  "capped_backoff cfg failures =
     min (base_interval_seconds cfg * 2 ^ nat (max 0 (failures - broken_threshold cfg)))
       (broken_max_backoff_seconds cfg)"

text \<open>
  C21: A broken feed is retried after its capped exponential backoff, jittered by at most the
  configured ratio: whatever the random draw and with floating-point rounding included, the
  next fetch lies between every whole number of seconds below \<open>(1 - ratio) * capped\<close> and every
  whole number above \<open>(1 + ratio) * capped\<close>. The server hint plays no role.
\<close>

theorem next_fetch_broken_backoff:
  assumes "f_status f = BROKEN"
    and capped: "capped = capped_backoff cfg (f_consecutive_failures f)" "0 \<le> capped"
    and ratio: "0 \<le> backoff_jitter_ratio cfg" and u: "0 \<le> u" "u \<le> 1"
    and lo: "0 \<le> lo" "of_int lo \<le> (1 - backoff_jitter_ratio cfg) * of_int capped"
    and hi: "(1 + backoff_jitter_ratio cfg) * of_int capped \<le> of_int hi" "hi < 2 ^ 53"
    and valid: "valid_instant now" "valid_instant (now + hi * US)"
  shows "\<exists>t. compute_next_fetch_at f now cfg hint w u = Inr t \<and>
    now + lo * US \<le> t \<and> t \<le> now + hi * US"
proof -
  let ?r = "backoff_jitter_ratio cfg" and ?c = "of_int capped :: rat"
  have rc: "0 \<le> ?r * ?c" using ratio capped(2) by simp
  have bounds: "capped \<le> hi" "lo \<le> capped"
  proof -
    have "?c \<le> of_int hi" "of_int lo \<le> ?c" using hi(1) lo(2) rc unfolding distrib_right left_diff_distrib by linarith+
    then show "capped \<le> hi" "lo \<le> capped" by simp_all
  qed
  then have small: "\<bar>capped\<bar> < 2 ^ 53" "\<bar>lo\<bar> < 2 ^ 53" "\<bar>hi\<bar> < 2 ^ 53"
    "\<bar>capped - lo\<bar> < 2 ^ 53" "\<bar>hi - capped\<bar> < 2 ^ 53"
    using hi(2) lo(1) capped(2) by simp_all
  define s where "s = fl (?r * fl ?c)"
  have c: "fl ?c = ?c" by (rule fl_of_int [OF small(1)])
  have s: "0 \<le> s" "fl s = s" using rc by (simp_all add: s_def c fl_nonneg fl_idem)
  have "s \<le> of_int (capped - lo)" unfolding s_def c
    by (rule fl_le_of_int [OF _ small(4)]) (use lo(2) in \<open>simp add: algebra_simps\<close>)
  moreover have "s \<le> of_int (hi - capped)" unfolding s_def c
    by (rule fl_le_of_int [OF _ small(5)]) (use hi(1) in \<open>simp add: algebra_simps\<close>)
  moreover note py_uniform_bounds [OF s(2) u s(1)]
  ultimately have "of_int lo \<le> ?c + py_uniform (- s) s u" "?c + py_uniform (- s) s u \<le> of_int hi"
    by simp_all
  then have "of_int lo \<le> fl (?c + py_uniform (- s) s u)" "fl (?c + py_uniform (- s) s u) \<le> of_int hi"
    using small by (simp_all add: fl_between)
  moreover have "compute_next_fetch_at f now cfg hint w u =
      try_bind (timedelta_seconds (fl (fl ?c + py_uniform (- s) s u))) (\<lambda>d. dt_add now d)"
    unfolding compute_next_fetch_at_def Let_def s_def capped(1) capped_backoff_def by (simp add: assms(1))
  ultimately show ?thesis unfolding c using add_seconds_ok [OF valid lo(1)] by simp
qed

theorem next_fetch_broken_backoff_witness:
  "\<exists>t. compute_next_fetch_at (sample_feed\<lparr>f_status := BROKEN, f_consecutive_failures := 5\<rparr>) 0 sample_policy None 0 (1 / 3) =
     Inr t \<and> 180000000 \<le> t \<and> t \<le> 300000000"
proof -
  let ?f = "sample_feed\<lparr>f_status := BROKEN, f_consecutive_failures := 5\<rparr>"
  have "capped_backoff sample_policy (f_consecutive_failures ?f) = 240"
    by (simp add: capped_backoff_def sample_policy_def)
  then show ?thesis
    using next_fetch_broken_backoff [of ?f 240 sample_policy "1 / 3" 180 300 0 None 0]
    by (simp add: sample_policy_def valid_instant_def dt_min_def dt_max_def US_def)
qed

text \<open>
  The backoff starts at the base interval and doubles with every further failure until the cap.
\<close>

lemma backoff_doubles_until_cap:
  assumes "0 \<le> base_interval_seconds cfg" "0 \<le> broken_max_backoff_seconds cfg" "broken_threshold cfg \<le> n"
  shows "capped_backoff cfg (broken_threshold cfg) =
      min (base_interval_seconds cfg) (broken_max_backoff_seconds cfg)"
    and "capped_backoff cfg (n + 1) = min (2 * capped_backoff cfg n) (broken_max_backoff_seconds cfg)"
proof -
  let ?k = "nat (max 0 (n - broken_threshold cfg))"
  have k: "nat (max 0 (n + 1 - broken_threshold cfg)) = Suc ?k" using assms(3) by simp
  have "0 \<le> base_interval_seconds cfg * 2 ^ ?k" using assms(1) by simp
  then have "min (2 * x) m = min (2 * min x m) m" if "x = base_interval_seconds cfg * 2 ^ ?k" "0 \<le> m" for x m
    using that by (auto simp: min_def)
  then show "capped_backoff cfg (n + 1) = min (2 * capped_backoff cfg n) (broken_max_backoff_seconds cfg)"
    using assms(2) unfolding capped_backoff_def k by (simp add: mult.left_commute)
qed (simp add: capped_backoff_def)

section \<open>Reading what a server writes\<close>

lemma str_of_int_nonneg_digits: "0 \<le> n \<Longrightarrow> list_all is_digit (str_of_int n) \<and> str_of_int n \<noteq> []"
  by (simp add: str_of_int_def decimal_digits decimal_not_Nil)

lemma digit_plain: "is_digit c \<Longrightarrow> \<not> is_space c \<and> c \<noteq> CHR '',''"
  by (auto simp: is_digit_def is_space_def ord_def)

lemma strip_digits: "list_all is_digit s \<Longrightarrow> s \<noteq> [] \<Longrightarrow> strip s = s"
  unfolding strip_def using list_all_hd_last [of is_digit s] by (intro strip_by_id) (auto dest: digit_plain)

text \<open>
  A \<open>Retry-After\<close> header in its number form is read back exactly: the decimal notation of a
  non-negative number of seconds, short enough for Python's integer parser, gives that number,
  whatever the date parser would make of it.
\<close>

theorem retry_after_seconds_roundtrip:
  assumes "0 \<le> n" "n < 10 ^ nat MAX_STR_DIGITS"
  shows "parse_retry_after parsedate (Some (str_of_int n)) now = Inr (Some n)"
  using assms strip_digits [of "str_of_int n"] str_of_int_nonneg_digits [of n] py_int_str_of_int [of n]
  by (simp add: parse_retry_after_def)

theorem retry_after_seconds_roundtrip_witness:
  "parse_retry_after (\<lambda>_. Inl (raise_exn ValueError)) (Some (str_of_int 120)) 0 = Inr (Some 120)"
proof (rule retry_after_seconds_roundtrip)
  have "(120::int) < 10 ^ 3" by simp
  also have "\<dots> \<le> 10 ^ nat MAX_STR_DIGITS" by (rule power_increasing) (simp_all add: MAX_STR_DIGITS_def)
  finally show "(120::int) < 10 ^ nat MAX_STR_DIGITS" .
qed simp

text \<open>
  A \<open>max-age\<close> directive is honoured wherever it stands: in a \<open>Cache-Control\<close> header of
  directives of which no earlier one starts with \<open>max-age=\<close>, the number it states is the hint,
  whatever follows it and whatever the \<open>Expires\<close> header says.
\<close>

theorem max_age_wins:
  assumes "hs ''cache-control'' = Some (join_on CHR '','' (before @ [''max-age='' @ str_of_int n] @ after))"
    and "\<And>p. p \<in> set before \<Longrightarrow> CHR '','' \<notin> set p \<and> \<not> startswith (lower (strip p)) ''max-age=''"
    and "\<And>p. p \<in> set after \<Longrightarrow> CHR '','' \<notin> set p"
    and "0 \<le> n" "n < 10 ^ nat MAX_STR_DIGITS"
  shows "parse_cache_hint parsedate hs now = Inr (Some n)"
proof -
  let ?d = "''max-age='' @ str_of_int n" and ?ps = "before @ [''max-age='' @ str_of_int n] @ after"
  have digits: "list_all is_digit (str_of_int n)" "str_of_int n \<noteq> []" using str_of_int_nonneg_digits [OF assms(4)] by auto
  then have "CHR '','' \<notin> set ?d" using digit_plain by (auto simp: list_all_iff)
  then have "split_on CHR '','' (join_on CHR '','' ?ps) = ?ps"
    using assms(2,3) by (intro split_join_on) auto
  moreover have "strip ?d = ?d" unfolding strip_def
    using digits list_all_hd_last [OF digits] digit_plain by (intro strip_by_id) (auto simp: is_space_def ord_def)
  then have "max_age_of (?d # after) = Some n"
    using py_int_str_of_int [of n] assms(4,5) by (simp add: startswith_def lower_def lower_char_def ord_def)
  moreover have "max_age_of (before @ rest) = max_age_of rest" for rest
    using assms(2) by (induction before) (auto simp: Let_def)
  ultimately show ?thesis by (simp add: parse_cache_hint_def assms(1))
qed

theorem max_age_wins_witness:
  "parse_cache_hint (\<lambda>_. Inl (raise_exn ValueError))
     (\<lambda>k. if k = ''cache-control'' then Some ''public,max-age=600,immutable'' else None) 0 = Inr (Some 600)"
proof (rule max_age_wins [where before = "[''public'']" and after = "[''immutable'']"])
  have "str_of_int 600 = ''600''" by code_simp
  then show "(if ''cache-control'' = ''cache-control'' then Some ''public,max-age=600,immutable'' else None) =
      Some (join_on CHR '','' ([''public''] @ [''max-age='' @ str_of_int 600] @ [''immutable'']))" by simp
  have "\<not> startswith (lower (strip ''public'')) ''max-age=''" by code_simp
  then show "CHR '','' \<notin> set p \<and> \<not> startswith (lower (strip p)) ''max-age=''" if "p \<in> set [''public'']" for p
    using that by simp
  have "(600::int) < 10 ^ 3" by simp
  also have "\<dots> \<le> 10 ^ nat MAX_STR_DIGITS" by (rule power_increasing) (simp_all add: MAX_STR_DIGITS_def)
  finally show "(600::int) < 10 ^ nat MAX_STR_DIGITS" .
qed simp_all

end
