(* ===== verification/PyNet.thy ===== *)
theory PyNet
  imports PyText PyExn "HOL-Library.Word"
begin

text \<open>
  The parts of Python 3.12's \<open>urllib.parse\<close> and \<open>ipaddress\<close> that the URL guard uses:
  \<open>urlsplit\<close>, \<open>urlunsplit\<close>, the \<open>hostname\<close> property, \<open>ip_address\<close>, and the classification of
  addresses (\<open>is_private\<close>, \<open>is_loopback\<close>, \<open>is_link_local\<close>, \<open>is_reserved\<close>, \<open>is_multicast\<close>,
  \<open>is_unspecified\<close>) with the network tables of the standard library, as the current patch releases
  of 3.12 have them: every property of an IPv4-mapped IPv6 address is that of the IPv4 address. On strings of code points
  below 256 the NFKC check of \<open>urlsplit\<close> never raises, so it has no counterpart here. A
  \<open>ValueError\<close> of \<open>ip_address\<close> is \<open>None\<close>.
\<close>

section \<open>Addresses\<close>

datatype ip_addr = V4 "32 word" | V6 "128 word"

definition parse_octet :: "string \<Rightarrow> int option" where
  "parse_octet s =
     (if s = [] then None
      else if \<not> list_all is_digit s then None
      else if length s > 3 then None
      else if s \<noteq> ''0'' \<and> hd s = CHR ''0'' then None
      else let n = foldl (\<lambda>a c. a * 10 + digit_val c) 0 s in if n > 255 then None else Some n)"

fun all_some :: "'a option list \<Rightarrow> 'a list option" where
  "all_some [] = Some []"
| "all_some (None # xs) = None"
| "all_some (Some x # xs) = map_option ((#) x) (all_some xs)"

definition ipv4_of_string :: "string \<Rightarrow> int option" where
  "ipv4_of_string s =
     (if s = [] then None
      else let octets = split_on CHR ''.'' s in
        if length octets \<noteq> 4 then None
        else map_option (foldl (\<lambda>a o'. a * 256 + o') 0) (all_some (map parse_octet octets)))"

definition is_hex_digit :: "char \<Rightarrow> bool" where
  "is_hex_digit c = (is_digit c \<or> (97 \<le> ord c \<and> ord c \<le> 102) \<or> (65 \<le> ord c \<and> ord c \<le> 70))"

definition hex_val :: "char \<Rightarrow> int" where
  "hex_val c = (if is_digit c then digit_val c
     else if 97 \<le> ord c then int (ord c) - 87 else int (ord c) - 55)"

definition parse_hextet :: "string \<Rightarrow> int option" where
  "parse_hextet s =
     (if \<not> list_all is_hex_digit s \<or> length s > 4 \<or> s = [] then None
      else Some (foldl (\<lambda>a c. a * 16 + hex_val c) 0 s))"

definition hex_char :: "int \<Rightarrow> char" where
  "hex_char d = char_of (if d < 10 then nat (48 + d) else nat (87 + d))"

function hex_of_int :: "int \<Rightarrow> string" where
  "hex_of_int n = (if n < 16 then [hex_char n] else hex_of_int (n div 16) @ [hex_char (n mod 16)])"
  by pat_completeness auto
termination
  by (relation "measure nat") auto

declare hex_of_int.simps [simp del]

definition ipv6_parts :: "string list \<Rightarrow> (string list \<times> nat \<times> string list) option" where
  "ipv6_parts parts =
     (case filter (\<lambda>i. parts ! i = []) [1..<length parts - 1] of
        [] \<Rightarrow>
          (if length parts \<noteq> 8 \<or> hd parts = [] \<or> last parts = [] then None
           else Some (parts, 0, []))
      | [skip] \<Rightarrow>
          (let hi = (if hd parts = [] then skip - 1 else skip);
               lo = (if last parts = [] then length parts - skip - 2 else length parts - skip - 1)
           in if hd parts = [] \<and> hi \<noteq> 0 then None
              else if last parts = [] \<and> lo \<noteq> 0 then None
              else if hi + lo > 7 then None
              else Some (take hi parts, 8 - (hi + lo), drop (length parts - lo) parts))
      | _ \<Rightarrow> None)"

definition ipv6_of_string :: "string \<Rightarrow> int option" where
  "ipv6_of_string s =
     (if CHR ''/'' \<in> set s then None
      else let (addr, sep, scope) = partition_at CHR ''%'' s in
        if sep \<and> (scope = [] \<or> CHR ''%'' \<in> set scope) then None
        else if addr = [] then None
        else let parts = split_on CHR '':'' addr in
          if length parts < 3 then None
          else
            (case (if CHR ''.'' \<in> set (last parts)
                   then map_option (\<lambda>v. butlast parts @ [hex_of_int (v div 65536), hex_of_int (v mod 65536)])
                          (ipv4_of_string (last parts))
                   else Some parts) of
               None \<Rightarrow> None
             | Some ps \<Rightarrow>
                 if length ps > 9 then None
                 else (case ipv6_parts ps of
                         None \<Rightarrow> None
                       | Some (hi, skipped, lo) \<Rightarrow>
                           (case (all_some (map parse_hextet hi), all_some (map parse_hextet lo)) of
                              (Some h, Some l) \<Rightarrow>
                                Some (foldl (\<lambda>a x. a * 65536 + x) 0 (h @ replicate skipped 0 @ l))
                            | _ \<Rightarrow> None))))"

definition ip_address :: "string \<Rightarrow> ip_addr option" where
  "ip_address s = (case ipv4_of_string s of
     Some n \<Rightarrow> Some (V4 (word_of_int n))
   | None \<Rightarrow> map_option (\<lambda>n. V6 (word_of_int n)) (ipv6_of_string s))"

section \<open>Networks\<close>

definition in_net :: "'a::len word \<Rightarrow> 'a word \<times> nat \<Rightarrow> bool" where
  "in_net a net = (drop_bit (LENGTH('a) - snd net) a = drop_bit (LENGTH('a) - snd net) (fst net))"

definition v4 :: "int \<Rightarrow> int \<Rightarrow> int \<Rightarrow> int \<Rightarrow> 32 word" where
  "v4 a b c d = word_of_int (((a * 256 + b) * 256 + c) * 256 + d)"

definition v6 :: "int \<Rightarrow> int \<Rightarrow> int \<Rightarrow> 128 word" where
  "v6 a b c = word_of_int (((a * 65536 + b) * 65536 + c) * 2 ^ 80)"

definition v4_linklocal :: "32 word \<times> nat" where "v4_linklocal = (v4 169 254 0 0, 16)"
definition v4_loopback :: "32 word \<times> nat" where "v4_loopback = (v4 127 0 0 0, 8)"
definition v4_multicast :: "32 word \<times> nat" where "v4_multicast = (v4 224 0 0 0, 4)"
definition v4_reserved :: "32 word \<times> nat" where "v4_reserved = (v4 240 0 0 0, 4)"

definition v4_private :: "(32 word \<times> nat) list" where
  "v4_private =
     [(v4 0 0 0 0, 8), (v4 10 0 0 0, 8), (v4 127 0 0 0, 8), (v4 169 254 0 0, 16),
      (v4 172 16 0 0, 12), (v4 192 0 0 0, 24), (v4 192 0 0 170, 31), (v4 192 0 2 0, 24),
      (v4 192 168 0 0, 16), (v4 198 18 0 0, 15), (v4 198 51 100 0, 24), (v4 203 0 113 0, 24),
      (v4 240 0 0 0, 4), (v4 255 255 255 255, 32)]"

definition v4_private_exceptions :: "(32 word \<times> nat) list" where
  "v4_private_exceptions = [(v4 192 0 0 9, 32), (v4 192 0 0 10, 32)]"

definition v6_linklocal :: "128 word \<times> nat" where "v6_linklocal = (v6 0xfe80 0 0, 10)"
definition v6_multicast :: "128 word \<times> nat" where "v6_multicast = (v6 0xff00 0 0, 8)"

definition v6_private :: "(128 word \<times> nat) list" where
  "v6_private =
     [(1, 128), (0, 128), (0xffff00000000, 96), (v6 0x64 0xff9b 1, 48), (v6 0x100 0 0, 64),
      (v6 0x2001 0 0, 23), (v6 0x2001 0xdb8 0, 32), (v6 0x2002 0 0, 16), (v6 0xfc00 0 0, 7),
      (v6 0xfe80 0 0, 10)]"

definition v6_private_exceptions :: "(128 word \<times> nat) list" where
  "v6_private_exceptions =
     [(v6 0x2001 1 0 + 1, 128), (v6 0x2001 1 0 + 2, 128), (v6 0x2001 3 0, 32),
      (v6 0x2001 4 0x112, 48), (v6 0x2001 0x20 0, 28), (v6 0x2001 0x30 0, 28)]"

definition v6_reserved :: "(128 word \<times> nat) list" where
  "v6_reserved =
     [(v6 0 0 0, 8), (v6 0x100 0 0, 8), (v6 0x200 0 0, 7), (v6 0x400 0 0, 6), (v6 0x800 0 0, 5),
      (v6 0x1000 0 0, 4), (v6 0x4000 0 0, 3), (v6 0x6000 0 0, 3), (v6 0x8000 0 0, 3),
      (v6 0xa000 0 0, 3), (v6 0xc000 0 0, 3), (v6 0xe000 0 0, 4), (v6 0xf000 0 0, 5),
      (v6 0xf800 0 0, 6), (v6 0xfe00 0 0, 9)]"

definition v4_is_private :: "32 word \<Rightarrow> bool" where
  "v4_is_private a = (list_ex (in_net a) v4_private \<and> \<not> list_ex (in_net a) v4_private_exceptions)"

definition ipv4_mapped :: "128 word \<Rightarrow> 32 word option" where
  "ipv4_mapped a = (if drop_bit 32 a = 0xFFFF then Some (ucast a) else None)"

fun is_private :: "ip_addr \<Rightarrow> bool" where
  "is_private (V4 a) = v4_is_private a"
| "is_private (V6 a) = (case ipv4_mapped a of
     Some m \<Rightarrow> v4_is_private m
   | None \<Rightarrow> list_ex (in_net a) v6_private \<and> \<not> list_ex (in_net a) v6_private_exceptions)"

fun is_loopback :: "ip_addr \<Rightarrow> bool" where
  "is_loopback (V4 a) = in_net a v4_loopback"
| "is_loopback (V6 a) = (case ipv4_mapped a of Some m \<Rightarrow> in_net m v4_loopback | None \<Rightarrow> a = 1)"

fun is_link_local :: "ip_addr \<Rightarrow> bool" where
  "is_link_local (V4 a) = in_net a v4_linklocal"
| "is_link_local (V6 a) = (case ipv4_mapped a of Some m \<Rightarrow> in_net m v4_linklocal | None \<Rightarrow> in_net a v6_linklocal)"

fun is_reserved :: "ip_addr \<Rightarrow> bool" where
  "is_reserved (V4 a) = in_net a v4_reserved"
| "is_reserved (V6 a) = (case ipv4_mapped a of Some m \<Rightarrow> in_net m v4_reserved | None \<Rightarrow> list_ex (in_net a) v6_reserved)"

fun is_multicast :: "ip_addr \<Rightarrow> bool" where
  "is_multicast (V4 a) = in_net a v4_multicast"
| "is_multicast (V6 a) = (case ipv4_mapped a of Some m \<Rightarrow> in_net m v4_multicast | None \<Rightarrow> in_net a v6_multicast)"

fun is_unspecified :: "ip_addr \<Rightarrow> bool" where
  "is_unspecified (V4 a) = (a = 0)"
| "is_unspecified (V6 a) = (case ipv4_mapped a of Some m \<Rightarrow> m = 0 | None \<Rightarrow> a = 0)"

section \<open>URLs\<close>

record split_result =
  u_scheme :: string
  u_netloc :: string
  u_path :: string
  u_query :: string
  u_fragment :: string

definition is_ascii_alpha :: "char \<Rightarrow> bool" where
  "is_ascii_alpha c = ((65 \<le> ord c \<and> ord c \<le> 90) \<or> (97 \<le> ord c \<and> ord c \<le> 122))"

definition is_scheme_char :: "char \<Rightarrow> bool" where
  "is_scheme_char c = (is_ascii_alpha c \<or> is_digit c \<or> c \<in> {CHR ''+'', CHR ''-'', CHR ''.''})"

text \<open>\<open>re.match(r"\Av[a-fA-F0-9]+\..+\Z", h)\<close> for a string that starts with \<open>v\<close>.\<close>

definition is_ipvfuture :: "string \<Rightarrow> bool" where
  "is_ipvfuture h = (let t = tl h; ds = takeWhile is_hex_digit t; r = dropWhile is_hex_digit t
     in ds \<noteq> [] \<and> length r > 1 \<and> hd r = CHR ''.'' \<and> CHR 0x0A \<notin> set (tl r))"

definition check_bracketed_host :: "string \<Rightarrow> bool" where
  "check_bracketed_host h =
     (if startswith h ''v'' then is_ipvfuture h
      else case ip_address h of Some (V6 _) \<Rightarrow> True | _ \<Rightarrow> False)"

definition split_netloc :: "string \<Rightarrow> string \<times> string" where
  "split_netloc url =
     (let p = (\<lambda>c. c \<notin> {CHR ''/'', CHR ''?'', CHR ''#''})
      in (takeWhile p (drop 2 url), dropWhile p (drop 2 url)))"

definition netloc_ok :: "string \<Rightarrow> bool" where
  "netloc_ok netloc =
     (let op' = CHR ''['' \<in> set netloc; cl = CHR '']'' \<in> set netloc
      in if op' \<noteq> cl then False
         else if op' then check_bracketed_host (fst (partition_at CHR '']'' (snd (snd (partition_at CHR ''['' netloc)))))
         else True)"

definition urlsplit :: "string \<Rightarrow> exn + split_result" where
  "urlsplit url0 =
     (let url1 = filter (\<lambda>c. c \<notin> {CHR 0x09, CHR 0x0D, CHR 0x0A}) (lstrip_by (\<lambda>c. ord c \<le> 32) url0);
          (pre, has_colon, post) = partition_at CHR '':'' url1;
          (scheme, url2) =
            (if has_colon \<and> pre \<noteq> [] \<and> is_ascii_alpha (hd pre) \<and> list_all is_scheme_char pre
             then (lower pre, post) else ([], url1));
          (netloc, url3) = (if take 2 url2 = ''//'' then split_netloc url2 else ([], url2))
      in if \<not> netloc_ok netloc then Inl (raise_exn ValueError)
         else
           (let (url4, _, fragment) = partition_at CHR ''#'' url3;
                (path, _, query) = partition_at CHR ''?'' url4
            in Inr \<lparr>u_scheme = scheme, u_netloc = netloc, u_path = path, u_query = query,
                    u_fragment = fragment\<rparr>))"

text \<open>The text after the last \<open>@\<close> (the whole string without one).\<close>

definition after_last :: "char \<Rightarrow> string \<Rightarrow> string" where
  "after_last c s = rev (takeWhile (\<lambda>x. x \<noteq> c) (rev s))"

definition hostname :: "split_result \<Rightarrow> string option" where
  "hostname u =
     (let hostinfo = after_last CHR ''@'' (u_netloc u);
          (_, have_open_br, bracketed) = partition_at CHR ''['' hostinfo;
          h = (if have_open_br then fst (partition_at CHR '']'' bracketed)
               else fst (partition_at CHR '':'' hostinfo))
      in if h = [] then None
         else (let (name, percent, zone) = partition_at CHR ''%'' h
               in Some (lower name @ (if percent then CHR ''%'' # zone else []))))"

text \<open>\<open>urlunsplit\<close>; \<open>uses_netloc\<close> is the module's table of schemes.\<close>

definition uses_netloc :: "string list" where
  "uses_netloc =
     ['''', ''ftp'', ''http'', ''gopher'', ''nntp'', ''telnet'', ''imap'', ''wais'', ''file'', ''mms'',
      ''https'', ''shttp'', ''snews'', ''prospero'', ''rtsp'', ''rtspu'', ''rsync'', ''svn'', ''svn+ssh'',
      ''sftp'', ''nfs'', ''git'', ''git+ssh'', ''ws'', ''wss'']"

definition urlunsplit :: "split_result \<Rightarrow> string" where
  "urlunsplit u =
     (let url1 = (if u_netloc u \<noteq> [] \<or> (u_scheme u \<noteq> [] \<and> u_scheme u \<in> set uses_netloc) \<or> take 2 (u_path u) = ''//''
                  then ''//'' @ u_netloc u @
                    (if u_path u \<noteq> [] \<and> take 1 (u_path u) \<noteq> ''/'' then CHR ''/'' # u_path u else u_path u)
                  else u_path u);
          url2 = (if u_scheme u \<noteq> [] then u_scheme u @ CHR '':'' # url1 else url1);
          url3 = (if u_query u \<noteq> [] then url2 @ CHR ''?'' # u_query u else url2)
      in if u_fragment u \<noteq> [] then url3 @ CHR ''#'' # u_fragment u else url3)"

end
