(* ===== verification/Address_Ranges.thy ===== *)
theory Address_Ranges
  imports PyNet
begin

text \<open>
  What \<open>ssrf.py\<close> promises of an address, independent of how it asks the standard library: the
  classes of special-purpose addresses as ranges of numbers, and that the library's properties
  (\<open>is_private\<close> and so on, with their tables of prefixes and exceptions) decide exactly these
  ranges.
\<close>

section \<open>The documented rule\<close>

text \<open>
  The module promises to refuse private, loopback, link-local, reserved, multicast and unspecified
  addresses. Which addresses those are is written down here by their first and last number, after
  the IANA registries of special-purpose addresses, apart from the tables and the prefix
  arithmetic of the library. An IPv4-mapped IPv6 address is of the class of the IPv4 address.
\<close>

datatype address_class = Private | Loopback | LinkLocal | Reserved | Multicast | Unspecified

definition quad :: "int \<Rightarrow> int \<Rightarrow> int \<Rightarrow> int \<Rightarrow> int" where
  "quad a b c d = ((a * 256 + b) * 256 + c) * 256 + d"

fun v4_ranges :: "address_class \<Rightarrow> (int \<times> int) list" where
  "v4_ranges Private =
     [(quad 0 0 0 0, quad 0 255 255 255), (quad 10 0 0 0, quad 10 255 255 255), (quad 127 0 0 0, quad 127 255 255 255),
      (quad 169 254 0 0, quad 169 254 255 255), (quad 172 16 0 0, quad 172 31 255 255),
      (quad 192 0 0 0, quad 192 0 0 8), (quad 192 0 0 11, quad 192 0 0 255), (quad 192 0 2 0, quad 192 0 2 255),
      (quad 192 168 0 0, quad 192 168 255 255), (quad 198 18 0 0, quad 198 19 255 255),
      (quad 198 51 100 0, quad 198 51 100 255), (quad 203 0 113 0, quad 203 0 113 255), (quad 240 0 0 0, quad 255 255 255 255)]"
| "v4_ranges Loopback = [(quad 127 0 0 0, quad 127 255 255 255)]"
| "v4_ranges LinkLocal = [(quad 169 254 0 0, quad 169 254 255 255)]"
| "v4_ranges Reserved = [(quad 240 0 0 0, quad 255 255 255 255)]"
| "v4_ranges Multicast = [(quad 224 0 0 0, quad 239 255 255 255)]"
| "v4_ranges Unspecified = [(quad 0 0 0 0, quad 0 0 0 0)]"

fun v6_ranges :: "address_class \<Rightarrow> (int \<times> int) list" where
  "v6_ranges Private =
     [(0, 1),
      (0x0064FF9B000100000000000000000000, 0x0064FF9B0001FFFFFFFFFFFFFFFFFFFF),
      (0x01000000000000000000000000000000, 0x0100000000000000FFFFFFFFFFFFFFFF),
      (0x20010000000000000000000000000000, 0x20010001000000000000000000000000),
      (0x20010001000000000000000000000003, 0x20010002FFFFFFFFFFFFFFFFFFFFFFFF),
      (0x20010004000000000000000000000000, 0x200100040111FFFFFFFFFFFFFFFFFFFF),
      (0x20010004011300000000000000000000, 0x2001001FFFFFFFFFFFFFFFFFFFFFFFFF),
      (0x20010040000000000000000000000000, 0x200101FFFFFFFFFFFFFFFFFFFFFFFFFF),
      (0x20010DB8000000000000000000000000, 0x20010DB8FFFFFFFFFFFFFFFFFFFFFFFF),
      (0x20020000000000000000000000000000, 0x2002FFFFFFFFFFFFFFFFFFFFFFFFFFFF),
      (0xFC000000000000000000000000000000, 0xFDFFFFFFFFFFFFFFFFFFFFFFFFFFFFFF),
      (0xFE800000000000000000000000000000, 0xFEBFFFFFFFFFFFFFFFFFFFFFFFFFFFFF)]"
| "v6_ranges Loopback = [(1, 1)]"
| "v6_ranges LinkLocal = [(0xFE800000000000000000000000000000, 0xFEBFFFFFFFFFFFFFFFFFFFFFFFFFFFFF)]"
| "v6_ranges Reserved =
     [(0, 0x1FFFFFFFFFFFFFFFFFFFFFFFFFFFFFFF),
      (0x40000000000000000000000000000000, 0xFBFFFFFFFFFFFFFFFFFFFFFFFFFFFFFF),
      (0xFE000000000000000000000000000000, 0xFE7FFFFFFFFFFFFFFFFFFFFFFFFFFFFF)]"
| "v6_ranges Multicast = [(0xFF000000000000000000000000000000, 0xFFFFFFFFFFFFFFFFFFFFFFFFFFFFFFFF)]"
| "v6_ranges Unspecified = [(0, 0)]"

definition within :: "(int \<times> int) list \<Rightarrow> int \<Rightarrow> bool" where
  "within ranges n = list_ex (\<lambda>(first, last). first \<le> n \<and> n \<le> last) ranges"

fun of_class :: "address_class \<Rightarrow> ip_addr \<Rightarrow> bool" where
  "of_class c (V4 a) = within (v4_ranges c) (uint a)"
| "of_class c (V6 a) =
     (if within [(0xFFFF00000000, 0xFFFFFFFFFFFF)] (uint a) then within (v4_ranges c) (uint a - 0xFFFF00000000)
      else within (v6_ranges c) (uint a))"

definition public_address :: "ip_addr \<Rightarrow> bool" where
  "public_address ip \<longleftrightarrow>
     list_all (\<lambda>c. \<not> of_class c ip) [Private, Loopback, LinkLocal, Reserved, Multicast, Unspecified]"

section \<open>Prefixes and ranges\<close>

lemma within_simps [simp]:
  "within [] n \<longleftrightarrow> False"
  "within ((l, h) # rs) n \<longleftrightarrow> (l \<le> n \<and> n \<le> h) \<or> within rs n"
  by (simp_all add: within_def)

text \<open>The prefix arithmetic of the library, as ranges.\<close>

definition net_range :: "'a::len word \<times> nat \<Rightarrow> int \<times> int" where
  "net_range net = (uint (fst net), uint (fst net) + 2 ^ (LENGTH('a) - snd net) - 1)"

definition aligned :: "'a::len word \<times> nat \<Rightarrow> bool" where
  "aligned net \<longleftrightarrow> uint (fst net) mod 2 ^ (LENGTH('a) - snd net) = 0"

lemma int_div_iff: "0 < m \<Longrightarrow> x div m = y \<longleftrightarrow> y * m \<le> x \<and> x < y * m + m" for x y m :: int
proof
  assume m: "0 < m" and "x div m = y"
  then show "y * m \<le> x \<and> x < y * m + m"
    using div_mult_mod_eq [of x m] pos_mod_bound [OF m, of x] pos_mod_sign [OF m, of x] by simp
next
  assume m: "0 < m" and "y * m \<le> x \<and> x < y * m + m"
  then show "x div m = y" by (intro int_div_pos_eq [of _ _ _ "x - y * m"]) (simp_all add: mult.commute)
qed

lemma in_net_within:
  fixes a :: "'a::len word"
  assumes "aligned net"
  shows "in_net a net \<longleftrightarrow> within [net_range net] (uint a)"
proof -
  obtain n k where net: "net = (n, k)" by (cases net)
  let ?m = "2 ^ (LENGTH('a) - k) :: int"
  have "in_net a net \<longleftrightarrow> uint a div ?m = uint n div ?m"
    by (simp only: net in_net_def word_uint_eq_iff unsigned_drop_bit_eq fst_conv snd_conv) (simp add: drop_bit_eq_div bintr_uint)
  then show ?thesis
    using div_mult_mod_eq [of "uint n" ?m] assms int_div_iff [of ?m "uint a" "uint n div ?m"]
    by (simp add: net aligned_def net_range_def)
qed

lemma nets_within: "list_all aligned nets \<Longrightarrow> list_ex (in_net a) nets \<longleftrightarrow> within (map net_range nets) (uint a)"
  by (induction nets) (simp_all add: in_net_within within_def)

text \<open>
  Two unions of ranges are compared by evaluation: between two neighbouring starts no membership
  changes.
\<close>

definition starts :: "(int \<times> int) list \<Rightarrow> int list" where
  "starts rs = 0 # map fst rs @ map (\<lambda>r. snd r + 1) rs"

lemma within_start:
  assumes "set (starts rs) \<subseteq> S" "finite S" "0 \<le> n" "r = Max {s \<in> S. s \<le> n}"
  shows "within rs n \<longleftrightarrow> within rs r"
proof -
  let ?M = "{s \<in> S. s \<le> n}"
  have M: "finite ?M" "0 \<in> ?M" using assms by (auto simp: starts_def)
  then have r: "r \<le> n" using Max_in [of ?M] assms(4) by blast
  have below: "s \<le> n \<longleftrightarrow> s \<le> r" if "s \<in> set (starts rs)" for s
    using that assms(1,4) M(1) r by (auto intro: Max_ge)
  have "l \<le> n \<and> n \<le> h \<longleftrightarrow> l \<le> r \<and> r \<le> h" if lh: "(l, h) \<in> set rs" for l h
  proof -
    have "l \<in> set (starts rs)" "h + 1 \<in> set (starts rs)" using lh by (force simp: starts_def)+
    from this [THEN below] show ?thesis by linarith
  qed
  then show ?thesis by (auto simp: within_def list_ex_iff)
qed

definition agree :: "(int \<times> int) list \<Rightarrow> (int \<times> int) list \<Rightarrow> (int \<times> int) list \<Rightarrow> bool" where
  "agree ps es qs = list_all (\<lambda>s. (within ps s \<and> \<not> within es s) = within qs s) (starts (ps @ es @ qs))"

lemma ranges_agree:
  assumes "agree ps es qs" "0 \<le> n"
  shows "within ps n \<and> \<not> within es n \<longleftrightarrow> within qs n"
proof -
  let ?S = "set (starts (ps @ es @ qs))"
  define r where "r = Max {s \<in> ?S. s \<le> n}"
  have "set (starts rs) \<subseteq> ?S" if "rs \<in> {ps, es, qs}" for rs using that by (auto simp: starts_def)
  then have w: "within rs n \<longleftrightarrow> within rs r" if "rs \<in> {ps, es, qs}" for rs
    using that within_start [OF _ _ assms(2) r_def] by simp
  have "r \<in> {s \<in> ?S. s \<le> n}" unfolding r_def by (rule Max_in) (use assms(2) in \<open>auto simp: starts_def\<close>)
  then show ?thesis using assms(1) w by (simp add: agree_def list_all_iff)
qed

text \<open>The tables of the library in numbers.\<close>

lemma v4_tables:
  "list_all aligned v4_private" "list_all aligned v4_private_exceptions"
  "list_all aligned [v4_loopback, v4_linklocal, v4_reserved, v4_multicast]"
  "agree (map net_range v4_private) (map net_range v4_private_exceptions) (v4_ranges Private)"
  "map net_range [v4_loopback, v4_linklocal, v4_reserved, v4_multicast] =
     concat (map v4_ranges [Loopback, LinkLocal, Reserved, Multicast])"
  by code_simp+

lemma v6_aligned:
  "list_all aligned v6_private" "list_all aligned v6_private_exceptions" "list_all aligned v6_reserved"
  "list_all aligned [v6_linklocal, v6_multicast]"
  by (simp_all add: aligned_def v6_def v6_private_def v6_private_exceptions_def v6_reserved_def v6_linklocal_def v6_multicast_def)

lemma v6_net_ranges:
  "map net_range v6_private =
     [(1, 1), (0, 0), (0xFFFF00000000, 0xFFFFFFFFFFFF),
      (0x0064FF9B000100000000000000000000, 0x0064FF9B0001FFFFFFFFFFFFFFFFFFFF),
      (0x01000000000000000000000000000000, 0x0100000000000000FFFFFFFFFFFFFFFF),
      (0x20010000000000000000000000000000, 0x200101FFFFFFFFFFFFFFFFFFFFFFFFFF),
      (0x20010DB8000000000000000000000000, 0x20010DB8FFFFFFFFFFFFFFFFFFFFFFFF),
      (0x20020000000000000000000000000000, 0x2002FFFFFFFFFFFFFFFFFFFFFFFFFFFF),
      (0xFC000000000000000000000000000000, 0xFDFFFFFFFFFFFFFFFFFFFFFFFFFFFFFF),
      (0xFE800000000000000000000000000000, 0xFEBFFFFFFFFFFFFFFFFFFFFFFFFFFFFF)]"
  "map net_range v6_private_exceptions =
     [(0x20010001000000000000000000000001, 0x20010001000000000000000000000001),
      (0x20010001000000000000000000000002, 0x20010001000000000000000000000002),
      (0x20010003000000000000000000000000, 0x20010003FFFFFFFFFFFFFFFFFFFFFFFF),
      (0x20010004011200000000000000000000, 0x200100040112FFFFFFFFFFFFFFFFFFFF),
      (0x20010020000000000000000000000000, 0x2001002FFFFFFFFFFFFFFFFFFFFFFFFF),
      (0x20010030000000000000000000000000, 0x2001003FFFFFFFFFFFFFFFFFFFFFFFFF)]"
  "map net_range [v6_linklocal, v6_multicast] = concat (map v6_ranges [LinkLocal, Multicast])"
  by (simp_all add: net_range_def v6_def v6_private_def v6_private_exceptions_def v6_linklocal_def v6_multicast_def)

lemma v6_tables:
  "agree (map net_range v6_private) ((0xFFFF00000000, 0xFFFFFFFFFFFF) # map net_range v6_private_exceptions) (v6_ranges Private)"
  "agree (map net_range v6_reserved) [] (v6_ranges Reserved)"
  unfolding v6_net_ranges by (code_simp, simp add: v6_reserved_def net_range_def v6_def agree_def starts_def)

lemma ipv4_mapped_range:
  "ipv4_mapped a =
     (if within [(0xFFFF00000000, 0xFFFFFFFFFFFF)] (uint a) then Some (word_of_int (uint a - 0xFFFF00000000)) else None)"
proof -
  have "drop_bit 32 a = 0xFFFF \<longleftrightarrow> in_net a (0xFFFF00000000, 96)" by (simp add: in_net_def)
  also have "\<dots> \<longleftrightarrow> within [net_range (0xFFFF00000000 :: 128 word, 96)] (uint a)"
    by (rule in_net_within) (simp add: aligned_def)
  also have "[net_range (0xFFFF00000000 :: 128 word, 96)] = [(0xFFFF00000000, 0xFFFFFFFFFFFF)]" by (simp add: net_range_def)
  finally have mapped: "drop_bit 32 a = 0xFFFF \<longleftrightarrow> within [(0xFFFF00000000, 0xFFFFFFFFFFFF)] (uint a)" .
  have "(ucast a :: 32 word) = word_of_int (uint a - 0xFFFF00000000)"
  proof -
    have "(0xFFFF00000000 :: 32 word) = 0" by code_simp
    then show ?thesis by simp
  qed
  then show ?thesis by (simp add: ipv4_mapped_def mapped)
qed

lemma v4_classes:
  "v4_is_private a \<longleftrightarrow> within (v4_ranges Private) (uint a)"
  "in_net a v4_loopback \<longleftrightarrow> within (v4_ranges Loopback) (uint a)"
  "in_net a v4_linklocal \<longleftrightarrow> within (v4_ranges LinkLocal) (uint a)"
  "in_net a v4_reserved \<longleftrightarrow> within (v4_ranges Reserved) (uint a)"
  "in_net a v4_multicast \<longleftrightarrow> within (v4_ranges Multicast) (uint a)"
  "a = 0 \<longleftrightarrow> within (v4_ranges Unspecified) (uint a)"
proof -
  show "v4_is_private a \<longleftrightarrow> within (v4_ranges Private) (uint a)"
    using ranges_agree [OF v4_tables(4)] by (simp only: v4_is_private_def nets_within v4_tables(1,2)) simp
  show "in_net a v4_loopback \<longleftrightarrow> within (v4_ranges Loopback) (uint a)"
    "in_net a v4_linklocal \<longleftrightarrow> within (v4_ranges LinkLocal) (uint a)"
    "in_net a v4_reserved \<longleftrightarrow> within (v4_ranges Reserved) (uint a)"
    "in_net a v4_multicast \<longleftrightarrow> within (v4_ranges Multicast) (uint a)"
    using v4_tables(3,5) by (simp_all add: in_net_within)
  show "a = 0 \<longleftrightarrow> within (v4_ranges Unspecified) (uint a)" by (auto simp: quad_def word_uint_eq_iff)
qed

lemma v6_classes:
  "\<not> within [(0xFFFF00000000, 0xFFFFFFFFFFFF)] (uint a) \<Longrightarrow>
     list_ex (in_net a) v6_private \<and> \<not> list_ex (in_net a) v6_private_exceptions \<longleftrightarrow> within (v6_ranges Private) (uint a)"
  "a = 1 \<longleftrightarrow> within (v6_ranges Loopback) (uint a)"
  "in_net a v6_linklocal \<longleftrightarrow> within (v6_ranges LinkLocal) (uint a)"
  "list_ex (in_net a) v6_reserved \<longleftrightarrow> within (v6_ranges Reserved) (uint a)"
  "in_net a v6_multicast \<longleftrightarrow> within (v6_ranges Multicast) (uint a)"
  "a = 0 \<longleftrightarrow> within (v6_ranges Unspecified) (uint a)"
proof -
  have pos: "0 \<le> uint a" by simp
  show "list_ex (in_net a) v6_private \<and> \<not> list_ex (in_net a) v6_private_exceptions \<longleftrightarrow> within (v6_ranges Private) (uint a)"
    if "\<not> within [(0xFFFF00000000, 0xFFFFFFFFFFFF)] (uint a)"
    using ranges_agree [OF v6_tables(1) pos] that unfolding nets_within [OF v6_aligned(1)] nets_within [OF v6_aligned(2)] within_simps by blast
  show "list_ex (in_net a) v6_reserved \<longleftrightarrow> within (v6_ranges Reserved) (uint a)"
    using ranges_agree [OF v6_tables(2) pos] unfolding nets_within [OF v6_aligned(3)] within_simps by blast
  show "in_net a v6_linklocal \<longleftrightarrow> within (v6_ranges LinkLocal) (uint a)"
    "in_net a v6_multicast \<longleftrightarrow> within (v6_ranges Multicast) (uint a)"
    using v6_aligned(4) v6_net_ranges(3) by (simp_all add: in_net_within)
  show "a = 1 \<longleftrightarrow> within (v6_ranges Loopback) (uint a)" "a = 0 \<longleftrightarrow> within (v6_ranges Unspecified) (uint a)"
    by (auto simp: word_uint_eq_iff)
qed

lemmas address_properties = is_private.simps is_loopback.simps is_link_local.simps is_reserved.simps is_multicast.simps
  is_unspecified.simps

end
