(* ===== verification/Ssrf.thy ===== *)
theory Ssrf
  imports Address_Ranges
begin

text \<open>
  \<open>ssrf.py\<close>: \<open>validate_public_url\<close> and the transport wrapper that re-validates every request.
  The resolver \<open>loop.getaddrinfo\<close> is the argument \<open>dns\<close>: for a host it returns the textual
  addresses or raises. The wrapped transport is the argument \<open>inner\<close>; the wrapper's outcome
  carries the list of URLs handed to it, so that what reaches the network is visible.
\<close>

type_synonym resolver = "string \<Rightarrow> exn + string list"

definition ALLOWED_SCHEMES :: "string list" where
  "ALLOWED_SCHEMES = [''http'', ''https'']"

definition is_blocked_ip :: "ip_addr \<Rightarrow> bool" where
  "is_blocked_ip ip =
     (is_private ip \<or> is_loopback ip \<or> is_link_local ip \<or> is_reserved ip \<or> is_multicast ip \<or>
      is_unspecified ip)"

definition resolve_host :: "resolver \<Rightarrow> string \<Rightarrow> exn + string list" where
  "resolve_host dns host = (case dns host of
     Inl e \<Rightarrow> if exn_cls e = GaiError then Inr [] else Inl e
   | Inr addrs \<Rightarrow> Inr addrs)"

fun check_addrs :: "string list \<Rightarrow> exn + unit" where
  "check_addrs [] = Inr ()"
| "check_addrs (addr # addrs) =
     (case ip_address (fst (partition_at CHR ''%'' addr)) of
        None \<Rightarrow> check_addrs addrs
      | Some resolved \<Rightarrow>
          if is_blocked_ip resolved then Inl (raise_exn BlockedURLError) else check_addrs addrs)"

definition validate_public_url :: "resolver \<Rightarrow> string \<Rightarrow> bool \<Rightarrow> exn + unit" where
  "validate_public_url dns url resolve =
     try_bind (urlsplit url) (\<lambda>parts.
       if lower (u_scheme parts) \<notin> set ALLOWED_SCHEMES then Inl (raise_exn BlockedURLError)
       else (case hostname parts of
         None \<Rightarrow> Inl (raise_exn BlockedURLError)
       | Some host \<Rightarrow>
           if host = [] then Inl (raise_exn BlockedURLError)
           else (case ip_address host of
             Some literal \<Rightarrow> if is_blocked_ip literal then Inl (raise_exn BlockedURLError) else Inr ()
           | None \<Rightarrow>
               if \<not> resolve then Inr ()
               else try_bind (resolve_host dns host) check_addrs)))"

definition handle_async_request ::
  "resolver \<Rightarrow> (string \<Rightarrow> exn + 'r) \<Rightarrow> string list \<Rightarrow> string \<Rightarrow> (string list, exn, 'r) outcome" where
  "handle_async_request dns inner contacted url =
     (case validate_public_url dns url True of
        Inl e \<Rightarrow> (contacted, Inl e)
      | Inr _ \<Rightarrow> (contacted @ [url], inner url))"

section \<open>Facts\<close>

lemma blocked_iff: "is_blocked_ip ip \<longleftrightarrow> \<not> public_address ip"
proof (cases ip)
  case (V4 a)
  then show ?thesis
    by (simp only: is_blocked_ip_def public_address_def address_properties v4_classes of_class.simps list.pred_inject) blast
next
  case (V6 a)
  show ?thesis
  proof (cases "within [(0xFFFF00000000, 0xFFFFFFFFFFFF)] (uint a)")
    case True
    then have "uint (word_of_int (uint a - 0xFFFF00000000) :: 32 word) = uint a - 0xFFFF00000000"
      unfolding uint_word_of_int by (intro mod_pos_pos_trivial) auto
    with True show ?thesis
      by (simp only: V6 is_blocked_ip_def public_address_def address_properties ipv4_mapped_range if_True option.case
          v4_classes of_class.simps list.pred_inject) blast
  next
    case False
    then show ?thesis
      by (simp only: V6 is_blocked_ip_def public_address_def address_properties ipv4_mapped_range if_False option.case
          v6_classes(1) [OF False] v6_classes(2-6) of_class.simps list.pred_inject) blast
  qed
qed

text \<open>The loop over the addresses of a name, and the name as a whole.\<close>

lemma check_addrs_ok:
  "check_addrs as = Inr () \<longleftrightarrow>
     list_all (\<lambda>a. case ip_address (fst (partition_at CHR ''%'' a)) of None \<Rightarrow> True | Some ip \<Rightarrow> public_address ip) as"
  by (induction as) (auto simp: blocked_iff split: option.splits)

lemma resolved_ok:
  "try_bind (resolve_host dns host) check_addrs = Inr () \<longleftrightarrow>
     (case dns host of
        Inl e \<Rightarrow> exn_cls e = GaiError
      | Inr addrs \<Rightarrow> list_all (\<lambda>a. case ip_address (fst (partition_at CHR ''%'' a)) of
          None \<Rightarrow> True | Some ip \<Rightarrow> public_address ip) addrs)"
  by (auto simp: resolve_host_def check_addrs_ok split: sum.splits)

section \<open>Properties\<close>

text \<open>
  C7: A URL passes the check exactly when it parses, its scheme is http or https, it has a host,
  and that host is either an IP literal or, with \<open>resolve\<close>, a name for which every address the
  resolver returns is public (a resolver failure, \<open>gaierror\<close>, passes, and so does anything in its
  answer that is no address). Public is what the module documents, spelled out as numbers: in
  none of the ranges \<open>v4_ranges\<close> and \<open>v6_ranges\<close> list for private, loopback, link-local, reserved,
  multicast and unspecified addresses. So the disjunction of library properties in
  \<open>_is_blocked_ip\<close> is right for every one of the 2^32 and 2^128 addresses; its link-local,
  loopback and unspecified disjuncts are redundant, because the library counts these as private.
\<close>

theorem validate_public_url_sound_complete:
  "validate_public_url dns url resolve = Inr () \<longleftrightarrow>
     (\<exists>parts host. urlsplit url = Inr parts \<and> hostname parts = Some host \<and> host \<noteq> [] \<and>
        lower (u_scheme parts) \<in> {''http'', ''https''} \<and>
        (case ip_address host of
           Some ip \<Rightarrow> public_address ip
         | None \<Rightarrow>
             if resolve
             then (case dns host of
                 Inl e \<Rightarrow> exn_cls e = GaiError
               | Inr addrs \<Rightarrow> list_all (\<lambda>a. case ip_address (fst (partition_at CHR ''%'' a)) of
                   None \<Rightarrow> True | Some ip \<Rightarrow> public_address ip) addrs)
             else True))"
proof (cases "urlsplit url")
  case (Inr parts)
  show ?thesis
  proof (cases "hostname parts")
    case (Some host)
    show ?thesis using Inr Some resolved_ok [of dns host]
      by (cases "ip_address host") (auto simp: validate_public_url_def ALLOWED_SCHEMES_def blocked_iff)
  qed (use Inr in \<open>simp add: validate_public_url_def\<close>)
qed (simp add: validate_public_url_def)

text \<open>
  C23: Whatever requests the HTTP client sends through the guarded transport (the first request
  and every redirect hop), each with the resolver's answers of that moment, the wrapped
  transport is only ever handed URLs that passed the full check at that moment.
\<close>

theorem guard_contacts_only_public:
  "u \<in> set (foldl (\<lambda>c (dns, url). fst (handle_async_request dns inner c url)) [] reqs)
   \<Longrightarrow> \<exists>dns. (dns, u) \<in> set reqs \<and> validate_public_url dns u True = Inr ()"
proof (induction reqs rule: rev_induct)
  case (snoc r reqs)
  obtain dns url where r: "r = (dns, url)" by (cases r)
  with snoc show ?case
    by (cases "validate_public_url dns url True") (auto simp: handle_async_request_def)
qed simp

theorem guard_contacts_only_public_witness:
  "\<exists>dns. validate_public_url dns ''http://93.184.216.34/f'' True = Inr ()"
proof -
  have v: "validate_public_url (\<lambda>_. Inr []) ''http://93.184.216.34/f'' True = Inr ()" by code_simp
  have "''http://93.184.216.34/f'' \<in> set (foldl (\<lambda>c (dns, url). fst (handle_async_request dns (\<lambda>_. Inr ()) c url)) []
      [(\<lambda>_. Inr [], ''http://93.184.216.34/f'')])"
    by (simp add: handle_async_request_def v)
  from guard_contacts_only_public [OF this] show ?thesis by blast
qed

text \<open>
  The blocked ranges leave out the shared address space \<open>100.64.0.0/10\<close> and the IPv6
  site-local block \<open>fec0::/10\<close>, neither of which is public: URLs with such literals pass.
\<close>

theorem shared_address_space_passes:
  "validate_public_url dns ''http://100.100.100.200/latest'' True = Inr () \<and>
   validate_public_url dns ''http://[fec0::1]/latest'' True = Inr ()"
proof -
  have a: "urlsplit ''http://100.100.100.200/latest'' =
      Inr \<lparr>u_scheme = ''http'', u_netloc = ''100.100.100.200'', u_path = ''/latest'', u_query = [], u_fragment = []\<rparr>"
    by code_simp
  have b: "urlsplit ''http://[fec0::1]/latest'' =
      Inr \<lparr>u_scheme = ''http'', u_netloc = ''[fec0::1]'', u_path = ''/latest'', u_query = [], u_fragment = []\<rparr>"
    by code_simp
  have c: "hostname \<lparr>u_scheme = ''http'', u_netloc = ''100.100.100.200'', u_path = ''/latest'', u_query = [], u_fragment = []\<rparr>
      = Some ''100.100.100.200''" by code_simp
  have d: "hostname \<lparr>u_scheme = ''http'', u_netloc = ''[fec0::1]'', u_path = ''/latest'', u_query = [], u_fragment = []\<rparr>
      = Some ''fec0::1''" by code_simp
  have e: "ip_address ''100.100.100.200'' = Some (V4 0x646464C8)" by code_simp
  have f: "ip_address ''fec0::1'' = Some (V6 0xFEC00000000000000000000000000001)" by code_simp
  have g: "\<not> is_blocked_ip (V4 0x646464C8)" "\<not> is_blocked_ip (V6 0xFEC00000000000000000000000000001)"
    by code_simp+
  have h: "lower ''http'' \<in> set ALLOWED_SCHEMES" by code_simp
  show ?thesis unfolding validate_public_url_def by (simp add: a b c d e f g h)
qed

end
