(* ===== verification/Fallback.thy ===== *)
theory Fallback
  imports Ssrf Policy
begin

text \<open>
  \<open>fetcher/fallback.py\<close>: the impersonated fetch used when a site answers 403. The curl_cffi
  library is the argument \<open>curl\<close>: \<open>None\<close> when it cannot be imported, otherwise a function from
  URL, request headers and timeout to a response or an exception. \<open>httpx.Headers(raw)\<close> is the
  argument \<open>mk_headers\<close>.
\<close>

record curl_response =
  c_status_code :: int
  c_headers :: "(string \<times> string) list option"
  c_content :: string
  c_url :: string

type_synonym curl_session =
  "(string \<Rightarrow> (string \<times> string) list \<Rightarrow> float_val \<Rightarrow> exn + curl_response) option"

record fallback_response =
  fb_status_code :: int
  fb_headers :: headers
  fb_content :: string
  fb_url :: string

definition fetch_via_impersonation ::
  "resolver \<Rightarrow> curl_session \<Rightarrow> ((string \<times> string) list \<Rightarrow> headers) \<Rightarrow> string \<Rightarrow>
   (string \<times> string) list \<Rightarrow> float_val \<Rightarrow> int \<Rightarrow> exn + fallback_response" where
  "fetch_via_impersonation dns curl mk_headers url hs timeout_seconds max_bytes =
     try_bind (validate_public_url dns url True) (\<lambda>_.
       case curl of
         None \<Rightarrow> Inl (raise_from FallbackError (raise_exn ImportError))
       | Some get \<Rightarrow>
           (case get url hs timeout_seconds of
              Inl e \<Rightarrow> if caught e then Inl (raise_from FallbackError e) else Inl e
            | Inr resp \<Rightarrow>
                if int (length (c_content resp)) > max_bytes
                then Inl (raise_exn ResponseTooLargeError)
                else Inr \<lparr>fb_status_code = c_status_code resp,
                          fb_headers = mk_headers (case c_headers resp of None \<Rightarrow> [] | Some items \<Rightarrow> items),
                          fb_content = c_content resp,
                          fb_url = c_url resp\<rparr>))"

lemma fetch_via_impersonation_ok:
  assumes "fetch_via_impersonation dns curl mk url hs t mb = Inr r"
  shows "validate_public_url dns url True = Inr ()" "int (length (fb_content r)) \<le> mb"
  using assms
  by (auto simp: fetch_via_impersonation_def try_bind_eq_Inr split: option.splits sum.splits if_splits)

lemma fetch_via_impersonation_err:
  assumes "fetch_via_impersonation dns curl mk url hs t mb = Inl e" "caught e"
    and "exn_cls e \<noteq> FallbackError" "exn_cls e \<noteq> ResponseTooLargeError"
  shows "validate_public_url dns url True = Inl e"
  using assms
  by (auto simp: fetch_via_impersonation_def try_bind_eq_Inl split: option.splits sum.splits if_splits)

end
