(* ===== verification/Upsert.thy ===== *)
theory Upsert
  imports Models
begin

text \<open>
  \<open>fetcher/upsert.py\<close>: \<open>INSERT ... ON CONFLICT (feed_id, guid) DO UPDATE ... WHERE\<close> for each
  parsed entry. The default of the key column takes a value from the sequence before the
  conflict is found, so every statement advances it. On a changed row the code sets
  \<open>content_updated_at\<close> to the server's \<open>now()\<close> (the argument \<open>db_now\<close>), not to the \<open>now\<close> passed in.
  \<open>upsert_spec\<close> is the documented policy as a map from \<open>(feed_id, guid)\<close> to the stored content.
\<close>

record parsed_entry =
  pe_guid :: string
  pe_url :: string
  pe_title :: "string option"
  pe_content :: "string option"
  pe_author :: "string option"
  pe_published_at :: "instant option"

definition new_entry :: "int \<Rightarrow> int \<Rightarrow> parsed_entry \<Rightarrow> instant \<Rightarrow> entry" where
  "new_entry i feed_id p now =
     \<lparr>e_id = i, e_feed_id = feed_id, e_guid = pe_guid p, e_url = pe_url p, e_title = pe_title p,
      e_content = pe_content p, e_author = pe_author p, e_published_at = pe_published_at p,
      e_fetched_at = now, e_content_updated_at = now\<rparr>"

definition differs :: "entry \<Rightarrow> parsed_entry \<Rightarrow> bool" where
  "differs e p = (e_url e \<noteq> pe_url p \<or> e_title e \<noteq> pe_title p \<or> e_content e \<noteq> pe_content p \<or>
     e_author e \<noteq> pe_author p \<or> e_published_at e \<noteq> pe_published_at p)"

definition overwrite :: "parsed_entry \<Rightarrow> instant \<Rightarrow> entry \<Rightarrow> entry" where
  "overwrite p db_now e = e\<lparr>e_url := pe_url p, e_title := pe_title p, e_content := pe_content p,
     e_author := pe_author p, e_published_at := pe_published_at p, e_content_updated_at := db_now\<rparr>"

definition conflicts :: "int \<Rightarrow> parsed_entry \<Rightarrow> entry \<Rightarrow> bool" where
  "conflicts feed_id p e = (entry_key e = (feed_id, pe_guid p))"

definition upsert_one :: "int \<Rightarrow> instant \<Rightarrow> instant \<Rightarrow> db \<Rightarrow> parsed_entry \<Rightarrow> db" where
  "upsert_one feed_id now db_now d p =
     (let rows = entries_tbl d; i = entries_seq d in
      d\<lparr>entries_tbl :=
          (if list_ex (conflicts feed_id p) rows
           then update_where (\<lambda>e. conflicts feed_id p e \<and> differs e p) (overwrite p db_now) rows
           else rows @ [new_entry i feed_id p now]),
        entries_seq := i + 1\<rparr>)"

text \<open>
  \<open>accepts p\<close> tells whether PostgreSQL executes the statement for \<open>p\<close>; a rejected one (a NUL
  character in a text column, an index row too long, a vanished feed) raises out of the loop.
\<close>

fun upsert_loop ::
  "(parsed_entry \<Rightarrow> bool) \<Rightarrow> int \<Rightarrow> instant \<Rightarrow> instant \<Rightarrow> db \<Rightarrow> parsed_entry list \<Rightarrow> (db, exn, unit) outcome" where
  "upsert_loop accepts feed_id now db_now d [] = (d, Inr ())"
| "upsert_loop accepts feed_id now db_now d (p # ps) =
     (if accepts p then upsert_loop accepts feed_id now db_now (upsert_one feed_id now db_now d p) ps
      else (d, Inl (raise_exn DBAPIError)))"

definition upsert_entries ::
  "(parsed_entry \<Rightarrow> bool) \<Rightarrow> int \<Rightarrow> parsed_entry list \<Rightarrow> instant \<Rightarrow> instant \<Rightarrow> db \<Rightarrow> (db, exn, unit) outcome" where
  "upsert_entries accepts feed_id ps now db_now d =
     (if ps = [] then (d, Inr ()) else upsert_loop accepts feed_id now db_now d ps)"

section \<open>The documented policy\<close>

record stored =
  s_url :: string
  s_title :: "string option"
  s_content :: "string option"
  s_author :: "string option"
  s_published_at :: "instant option"
  s_fetched_at :: instant
  s_content_updated_at :: instant

type_synonym store = "int \<times> string \<rightharpoonup> stored"

definition stored_of :: "entry \<Rightarrow> stored" where
  "stored_of e = \<lparr>s_url = e_url e, s_title = e_title e, s_content = e_content e, s_author = e_author e,
     s_published_at = e_published_at e, s_fetched_at = e_fetched_at e,
     s_content_updated_at = e_content_updated_at e\<rparr>"

definition store_of :: "db \<Rightarrow> store" where
  "store_of d k = map_option stored_of (find (\<lambda>e. entry_key e = k) (entries_tbl d))"

definition same_content :: "stored \<Rightarrow> parsed_entry \<Rightarrow> bool" where
  "same_content s p = (s_url s = pe_url p \<and> s_title s = pe_title p \<and> s_content s = pe_content p \<and>
     s_author s = pe_author p \<and> s_published_at s = pe_published_at p)"

definition upsert_spec :: "int \<Rightarrow> instant \<Rightarrow> instant \<Rightarrow> store \<Rightarrow> parsed_entry \<Rightarrow> store" where
  "upsert_spec feed_id now db_now m p =
     (let k = (feed_id, pe_guid p);
          content = \<lparr>s_url = pe_url p, s_title = pe_title p, s_content = pe_content p,
                     s_author = pe_author p, s_published_at = pe_published_at p,
                     s_fetched_at = now, s_content_updated_at = now\<rparr>
      in case m k of
           None \<Rightarrow> m(k \<mapsto> content)
         | Some s \<Rightarrow> if same_content s p then m
                     else m(k \<mapsto> content\<lparr>s_fetched_at := s_fetched_at s, s_content_updated_at := db_now\<rparr>))"

section \<open>Facts\<close>

interpretation overwrite_keyed: row_rewrite entry_key "overwrite p db_now" for p db_now
  by unfold_locales (simp add: overwrite_def entry_key_def)

interpretation overwrite_ids: row_rewrite e_id "overwrite p db_now" for p db_now
  by unfold_locales (simp add: overwrite_def)

interpretation overwrite_clock: row_rewrite "\<lambda>e. (e_id e, e_feed_id e, e_fetched_at e)" "overwrite p db_now"
  for p db_now
  by unfold_locales (simp add: overwrite_def)

lemma list_ex_conflicts: "list_ex (conflicts i p) rows \<longleftrightarrow> (i, pe_guid p) \<in> entry_key ` set rows"
  unfolding list_ex_iff conflicts_def image_iff by (simp add: eq_commute)

lemma entry_key_new_entry [simp]: "entry_key (new_entry i fid p now) = (fid, pe_guid p)"
  by (simp add: entry_key_def new_entry_def)

lemma new_entry_simps [simp]:
  "e_id (new_entry i fid p now) = i" "e_feed_id (new_entry i fid p now) = fid"
  "e_fetched_at (new_entry i fid p now) = now"
  by (simp_all add: new_entry_def)

lemma upsert_one_frame [simp, frame_simps]:
  "feeds_tbl (upsert_one fid now dn d p) = feeds_tbl d"
  "feeds_seq (upsert_one fid now dn d p) = feeds_seq d"
  "entries_seq (upsert_one fid now dn d p) = entries_seq d + 1"
  by (simp_all add: upsert_one_def Let_def)

lemma upsert_one_ok:
  assumes "entries_ok d"
  shows "entries_ok (upsert_one fid now dn d p)"
proof (cases "list_ex (conflicts fid p) (entries_tbl d)")
  case True
  with assms show ?thesis
    by (auto simp: entries_ok_def upsert_one_def Let_def overwrite_keyed.keys_update_where
        overwrite_ids.keys_update_where list_all_iff)
next
  case False
  with assms show ?thesis
    by (auto simp: entries_ok_def upsert_one_def Let_def list_ex_conflicts list_all_iff)
qed

lemma upsert_one_feed_ids:
  "set (map e_feed_id (entries_tbl (upsert_one fid now dn d p))) \<subseteq>
     insert fid (set (map e_feed_id (entries_tbl d)))"
  by (auto simp: upsert_one_def Let_def table_simps overwrite_def new_entry_def)

lemma upsert_one_db_ok:
  assumes "db_ok d" "fid \<in> f_id ` set (feeds_tbl d)"
  shows "db_ok (upsert_one fid now dn d p)"
  using assms upsert_one_ok [of d] upsert_one_feed_ids [of fid now dn d p]
  by (auto simp: db_ok_def feeds_ok_def fk_ok_def list_all_iff)

lemma find_append_new:
  "find q (rows @ [x]) = (case find q rows of Some r \<Rightarrow> Some r | None \<Rightarrow> if q x then Some x else None)"
  by (induction rows) auto

lemma stored_overwrite:
  "stored_of (overwrite p dn e) = \<lparr>s_url = pe_url p, s_title = pe_title p, s_content = pe_content p,
     s_author = pe_author p, s_published_at = pe_published_at p, s_fetched_at = e_fetched_at e,
     s_content_updated_at = dn\<rparr>"
  by (simp add: stored_of_def overwrite_def)

lemma differs_stored: "differs e p \<longleftrightarrow> \<not> same_content (stored_of e) p"
  by (auto simp: differs_def same_content_def stored_of_def)

lemma stored_of_clock [simp]: "s_fetched_at (stored_of e) = e_fetched_at e"
  by (simp add: stored_of_def)

lemma store_of_None: "store_of d k = None \<longleftrightarrow> k \<notin> entry_key ` set (entries_tbl d)"
  by (simp add: store_of_def find_None_iff_map)

lemma store_of_insert:
  assumes "store_of d (fid, pe_guid p) = None"
  shows "store_of (upsert_one fid now dn d p) =
    (store_of d)((fid, pe_guid p) \<mapsto> stored_of (new_entry (entries_seq d) fid p now))"
proof
  fix k
  have "\<not> list_ex (conflicts fid p) (entries_tbl d)"
    using assms by (simp add: list_ex_conflicts store_of_None)
  then have rows: "entries_tbl (upsert_one fid now dn d p) = entries_tbl d @ [new_entry (entries_seq d) fid p now]"
    by (simp add: upsert_one_def Let_def)
  show "store_of (upsert_one fid now dn d p) k =
      ((store_of d)((fid, pe_guid p) \<mapsto> stored_of (new_entry (entries_seq d) fid p now))) k"
    using assms unfolding store_of_def rows find_append_new
    by (cases "k = (fid, pe_guid p)") (auto split: option.splits)
qed

lemma store_of_update:
  assumes "entries_ok d" "store_of d (fid, pe_guid p) \<noteq> None"
  shows "store_of (upsert_one fid now dn d p) k =
    map_option stored_of (map_option (\<lambda>r. if conflicts fid p r \<and> differs r p then overwrite p dn r else r)
      (find (\<lambda>e. entry_key e = k) (entries_tbl d)))"
proof -
  have "list_ex (conflicts fid p) (entries_tbl d)" using assms(2) by (simp add: list_ex_conflicts store_of_None)
  then have rows: "entries_tbl (upsert_one fid now dn d p) =
      update_where (\<lambda>e. conflicts fid p e \<and> differs e p) (overwrite p dn) (entries_tbl d)"
    by (simp add: upsert_one_def Let_def)
  from assms(1) show ?thesis unfolding store_of_def rows
    by (subst overwrite_keyed.find_update_where) (simp_all add: entries_ok_def)
qed

text \<open>One statement refines one step of the documented policy.\<close>

lemma store_of_upsert_one:
  assumes "entries_ok d"
  shows "store_of (upsert_one fid now dn d p) = upsert_spec fid now dn (store_of d) p"
proof (cases "store_of d (fid, pe_guid p)")
  case None
  then show ?thesis
    by (simp add: store_of_insert upsert_spec_def Let_def) (simp add: stored_of_def new_entry_def)
next
  case (Some s)
  show ?thesis
  proof
    fix k
    note upd = store_of_update [OF assms, of fid p now dn k]
    show "store_of (upsert_one fid now dn d p) k = upsert_spec fid now dn (store_of d) p k"
    proof (cases "find (\<lambda>e. entry_key e = k) (entries_tbl d)")
      case None
      with Some upd show ?thesis
        by (auto simp: upsert_spec_def Let_def store_of_def)
    next
      case f: (Some e)
      then have "entry_key e = k" by (auto dest: find_SomeD)
      with f Some upd show ?thesis
        by (cases "k = (fid, pe_guid p)")
          (auto simp: upsert_spec_def Let_def store_of_def conflicts_def differs_stored stored_overwrite)
    qed
  qed
qed

lemma foldl_upsert_ok:
  "entries_ok d \<Longrightarrow> entries_ok (foldl (upsert_one fid now dn) d ps)"
  by (induction ps arbitrary: d) (auto intro: upsert_one_ok)

lemma foldl_upsert_frame [simp]:
  "feeds_tbl (foldl (upsert_one fid now dn) d ps) = feeds_tbl d"
  "feeds_seq (foldl (upsert_one fid now dn) d ps) = feeds_seq d"
  "entries_seq (foldl (upsert_one fid now dn) d ps) = entries_seq d + int (length ps)"
  by (induction ps arbitrary: d) auto

lemma foldl_upsert_db_ok:
  "db_ok d \<Longrightarrow> fid \<in> f_id ` set (feeds_tbl d) \<Longrightarrow> db_ok (foldl (upsert_one fid now dn) d ps)"
proof (induction ps arbitrary: d)
  case (Cons p ps)
  from Cons.prems have "db_ok (upsert_one fid now dn d p)" by (rule upsert_one_db_ok)
  moreover have "fid \<in> f_id ` set (feeds_tbl (upsert_one fid now dn d p))"
    using Cons.prems(2) by (simp only: upsert_one_frame)
  ultimately show ?case unfolding foldl.simps by (rule Cons.IH)
qed simp

lemma foldl_upsert_store:
  "entries_ok d \<Longrightarrow> store_of (foldl (upsert_one fid now dn) d ps) =
     foldl (upsert_spec fid now dn) (store_of d) ps"
  by (induction ps arbitrary: d) (simp_all add: upsert_one_ok store_of_upsert_one)

text \<open>The loop runs up to the first rejected statement.\<close>

lemma upsert_entries_eq:
  "upsert_entries accepts fid ps now dn d =
     (foldl (upsert_one fid now dn) d (takeWhile accepts ps),
      if list_all accepts ps then Inr () else Inl (raise_exn DBAPIError))"
proof -
  have "upsert_loop accepts fid now dn d ps =
     (foldl (upsert_one fid now dn) d (takeWhile accepts ps),
      if list_all accepts ps then Inr () else Inl (raise_exn DBAPIError))"
    by (induction ps arbitrary: d) auto
  then show ?thesis by (cases ps) (auto simp: upsert_entries_def)
qed

lemma upsert_entries_frame [simp, frame_simps]:
  "feeds_tbl (fst (upsert_entries accepts fid ps now dn d)) = feeds_tbl d"
  "feeds_seq (fst (upsert_entries accepts fid ps now dn d)) = feeds_seq d"
  by (simp_all add: upsert_entries_eq)

lemma upsert_entries_seq_mono: "entries_seq d \<le> entries_seq (fst (upsert_entries accepts fid ps now dn d))"
  by (simp add: upsert_entries_eq)

lemma upsert_entries_db_ok:
  "db_ok d \<Longrightarrow> fid \<in> f_id ` set (feeds_tbl d) \<Longrightarrow> db_ok (fst (upsert_entries accepts fid ps now dn d))"
  by (simp add: upsert_entries_eq foldl_upsert_db_ok)

text \<open>Rows of other feeds are untouched, in place and order.\<close>

lemma upsert_one_other_feed:
  "j \<noteq> fid \<Longrightarrow> entries_of (upsert_one fid now dn d p) j = entries_of d j"
  unfolding entries_of_def upsert_one_def Let_def
  by (auto simp: new_entry_def conflicts_def entry_key_def overwrite_def intro!: filter_update_where)

lemma foldl_upsert_other_feed:
  "j \<noteq> fid \<Longrightarrow> entries_of (foldl (upsert_one fid now dn) d ps) j = entries_of d j"
  by (induction ps arbitrary: d) (simp_all add: upsert_one_other_feed)

lemma upsert_entries_other_feed:
  "j \<noteq> fid \<Longrightarrow> entries_of (fst (upsert_entries accepts fid ps now dn d)) j = entries_of d j"
  by (simp add: upsert_entries_eq foldl_upsert_other_feed)

section \<open>Repeating a batch\<close>

lemma upsert_spec_same:
  "\<exists>s. upsert_spec fid now dn m p (fid, pe_guid p) = Some s \<and> same_content s p"
  by (auto simp: upsert_spec_def Let_def same_content_def split: option.splits)

lemma upsert_spec_other: "k \<noteq> (fid, pe_guid p) \<Longrightarrow> upsert_spec fid now dn m p k = m k"
  by (simp add: upsert_spec_def Let_def split: option.splits)

lemma foldl_spec_other:
  "k \<notin> (\<lambda>p. (fid, pe_guid p)) ` set ps \<Longrightarrow> foldl (upsert_spec fid now dn) m ps k = m k"
  by (induction ps arbitrary: m) (auto simp: upsert_spec_other)

lemma foldl_spec_stored:
  assumes "distinct (map pe_guid ps)" "p \<in> set ps"
  shows "\<exists>s. foldl (upsert_spec fid now dn) m ps (fid, pe_guid p) = Some s \<and> same_content s p"
  using assms
proof (induction ps arbitrary: m)
  case (Cons q ps)
  show ?case
  proof (cases "p = q")
    case True
    with Cons.prems have "(fid, pe_guid p) \<notin> (\<lambda>p. (fid, pe_guid p)) ` set ps" by auto
    with True show ?thesis using upsert_spec_same [of fid now dn m p] by (simp add: foldl_spec_other)
  next
    case False
    with Cons.prems show ?thesis using Cons.IH [of "upsert_spec fid now dn m q"] by simp
  qed
qed simp

lemma upsert_one_unchanged:
  assumes "entries_ok d" "store_of d (fid, pe_guid p) = Some s" "same_content s p"
  shows "entries_tbl (upsert_one fid now dn d p) = entries_tbl d"
proof -
  from assms(2) obtain e where e: "e \<in> set (entries_tbl d)" "entry_key e = (fid, pe_guid p)" "s = stored_of e"
    by (auto simp: store_of_def dest: find_SomeD)
  have "\<not> (conflicts fid p r \<and> differs r p)" if "r \<in> set (entries_tbl d)" for r
    using that e assms(1,3) distinct_map_eq [of entry_key "entries_tbl d" r e]
    by (auto simp: conflicts_def differs_stored entries_ok_def)
  moreover have "list_ex (conflicts fid p) (entries_tbl d)" using e by (auto simp: list_ex_iff conflicts_def)
  ultimately show ?thesis by (simp add: upsert_one_def Let_def update_where_none)
qed

lemma foldl_upsert_unchanged:
  assumes "entries_ok d" "\<And>p. p \<in> set ps \<Longrightarrow> \<exists>s. store_of d (fid, pe_guid p) = Some s \<and> same_content s p"
  shows "entries_tbl (foldl (upsert_one fid now dn) d ps) = entries_tbl d"
  using assms
proof (induction ps arbitrary: d)
  case (Cons p ps)
  let ?d = "upsert_one fid now dn d p"
  have same: "entries_tbl ?d = entries_tbl d" using Cons.prems by (auto intro: upsert_one_unchanged)
  then have "store_of ?d = store_of d" by (simp add: store_of_def fun_eq_iff)
  then have "entries_tbl (foldl (upsert_one fid now dn) ?d ps) = entries_tbl ?d"
    using Cons.prems by (intro Cons.IH upsert_one_ok) auto
  with same show ?case by simp
qed simp

section \<open>Row identity\<close>

definition row_identity :: "entry \<Rightarrow> int \<times> (int \<times> string) \<times> instant" where
  "row_identity e = (e_id e, entry_key e, e_fetched_at e)"

interpretation overwrite_identity: row_rewrite row_identity "overwrite p db_now" for p db_now
  by unfold_locales (simp add: overwrite_def entry_key_def row_identity_def)

definition fresh_rows :: "int \<Rightarrow> instant \<Rightarrow> int \<Rightarrow> (int \<times> (int \<times> string) \<times> instant) list \<Rightarrow> bool" where
  "fresh_rows fid now first rs = list_all (\<lambda>(i, k, t). first \<le> i \<and> fst k = fid \<and> t = now) rs"

lemma upsert_one_identity:
  "\<exists>fresh. map row_identity (entries_tbl (upsert_one fid now dn d p)) =
     map row_identity (entries_tbl d) @ fresh \<and> fresh_rows fid now (entries_seq d) fresh"
  by (auto simp: upsert_one_def Let_def overwrite_identity.keys_update_where row_identity_def entry_key_def fresh_rows_def)

lemma foldl_upsert_identity:
  "\<exists>fresh. map row_identity (entries_tbl (foldl (upsert_one fid now dn) d ps)) =
     map row_identity (entries_tbl d) @ fresh \<and> fresh_rows fid now (entries_seq d) fresh"
proof (induction ps arbitrary: d)
  case (Cons p ps)
  have "fresh_rows fid now (entries_seq d + 1) rs \<Longrightarrow> fresh_rows fid now (entries_seq d) rs" for rs
    unfolding fresh_rows_def by (erule list.pred_mono_strong) auto
  with Cons.IH [of "upsert_one fid now dn d p"] upsert_one_identity [of fid now dn d p]
  show ?case by (fastforce simp: fresh_rows_def)
qed (simp add: fresh_rows_def)

section \<open>Properties\<close>

definition sample_parsed :: "string \<Rightarrow> string \<Rightarrow> parsed_entry" where
  "sample_parsed g t = \<lparr>pe_guid = g, pe_url = ''http://a.example/'' @ g, pe_title = Some t, pe_content = None,
     pe_author = None, pe_published_at = None\<rparr>"

text \<open>
  C8: The batch of conditional upserts implements the documented mutation policy: over the map
  from \<open>(feed_id, guid)\<close> to content and clocks, each entry in turn is inserted with both clocks
  at \<open>now\<close> when the key is new, changes nothing when its five content fields are equal to the
  stored ones, and otherwise overwrites them, keeps \<open>fetched_at\<close> and moves
  \<open>content_updated_at\<close> to the database clock.
\<close>

theorem upsert_refines_policy:
  assumes "entries_ok d" "list_all accepts ps"
  shows "snd (upsert_entries accepts fid ps now dn d) = Inr () \<and>
    store_of (fst (upsert_entries accepts fid ps now dn d)) = foldl (upsert_spec fid now dn) (store_of d) ps"
proof -
  have all: "takeWhile accepts ps = ps" using assms(2) by (simp add: list_all_iff)
  show ?thesis unfolding upsert_entries_eq all
    using assms by (simp add: foldl_upsert_store)
qed

theorem upsert_refines_policy_witness:
  "store_of (fst (upsert_entries (\<lambda>_. True) 1 [sample_parsed ''g1'' ''new'', sample_parsed ''g2'' ''x''] 9 11 sample_db)) =
     foldl (upsert_spec 1 9 11) (store_of sample_db) [sample_parsed ''g1'' ''new'', sample_parsed ''g2'' ''x'']"
  by (rule upsert_refines_policy [THEN conjunct2]) (simp_all add: sample_db_ok)

text \<open>
  An upsert never deletes a row, never changes the id, the key or \<open>fetched_at\<close> of an
  existing row, also when a statement of the batch is rejected half-way: the stored rows stay,
  in order, and are followed by new rows of this feed with ids never used before and
  \<open>fetched_at\<close> at \<open>now\<close>.
\<close>

theorem upsert_never_moves_fetched_at:
  "\<exists>fresh. map row_identity (entries_tbl (fst (upsert_entries accepts fid ps now dn d))) =
     map row_identity (entries_tbl d) @ fresh \<and>
     list_all (\<lambda>(i, k, t). entries_seq d \<le> i \<and> fst k = fid \<and> t = now) fresh"
  using foldl_upsert_identity [of fid now dn d "takeWhile accepts ps"]
  by (simp add: upsert_entries_eq fresh_rows_def)

text \<open>
  Fetching an unchanged document again writes nothing: a second run of the same batch, at
  any later clocks, leaves every row of \<open>entries\<close> as the first run left it, when no two entries
  of the batch share a guid.
\<close>

theorem upsert_idempotent:
  assumes "entries_ok d" "list_all accepts ps" "distinct (map pe_guid ps)"
  shows "entries_tbl (fst (upsert_entries accepts fid ps now' dn' (fst (upsert_entries accepts fid ps now dn d)))) =
    entries_tbl (fst (upsert_entries accepts fid ps now dn d))"
proof -
  have all: "takeWhile accepts ps = ps" using assms(2) by (simp add: list_all_iff)
  have "\<exists>s. store_of (foldl (upsert_one fid now dn) d ps) (fid, pe_guid p) = Some s \<and> same_content s p"
    if "p \<in> set ps" for p
    using foldl_spec_stored [OF assms(3) that] assms(1) by (simp add: foldl_upsert_store)
  then show ?thesis unfolding upsert_entries_eq all fst_conv
    using assms(1) by (intro foldl_upsert_unchanged foldl_upsert_ok)
qed

theorem upsert_idempotent_witness:
  "let ps = [sample_parsed ''g1'' ''new'', sample_parsed ''g2'' ''x''];
       d = fst (upsert_entries (\<lambda>_. True) 1 ps 9 11 sample_db)
   in entries_tbl (fst (upsert_entries (\<lambda>_. True) 1 ps 20 21 d)) = entries_tbl d"
  unfolding Let_def
  by (rule upsert_idempotent) (simp_all add: sample_db_ok sample_parsed_def)

end
