(* ===== verification/Feed_Parser.thy ===== *)
theory Feed_Parser
  imports Upsert
begin

text \<open>
  \<open>fetcher/parser.py\<close>: from what feedparser returns to the entries the upsert takes.
  \<open>feedparser.parse\<close> is the argument \<open>fp_parse\<close>. A feedparser entry is a dictionary of which
  the code reads eight keys; a \<open>struct_time\<close> is the list of its fields. The \<open>datetime\<close>
  constructor of the standard library is modelled with its three ways to fail: too few fields
  are an \<open>IndexError\<close>, a field outside a C \<open>int\<close> an \<open>OverflowError\<close> (which the code does not
  catch), a field outside the calendar a \<open>ValueError\<close>.
\<close>

section \<open>Calendar\<close>

definition is_leap :: "int \<Rightarrow> bool" where
  "is_leap y = (y mod 4 = 0 \<and> (y mod 100 \<noteq> 0 \<or> y mod 400 = 0))"

definition days_before_year :: "int \<Rightarrow> int" where
  "days_before_year y = (let z = y - 1 in z * 365 + z div 4 - z div 100 + z div 400)"

definition month_lengths :: "int \<Rightarrow> int list" where
  "month_lengths y = [31, if is_leap y then 29 else 28, 31, 30, 31, 30, 31, 31, 30, 31, 30, 31]"

definition days_in_month :: "int \<Rightarrow> int \<Rightarrow> int" where
  "days_in_month y m = month_lengths y ! nat (m - 1)"

definition days_before_month :: "int \<Rightarrow> int \<Rightarrow> int" where
  "days_before_month y m = sum_list (take (nat (m - 1)) (month_lengths y))"

definition ymd_ordinal :: "int \<Rightarrow> int \<Rightarrow> int \<Rightarrow> int" where
  "ymd_ordinal y m d = days_before_year y + days_before_month y m + d"

definition EPOCH_ORDINAL :: int where
  "EPOCH_ORDINAL = 719163"

definition fits_c_int :: "int \<Rightarrow> bool" where
  "fits_c_int n = (- (2 ^ 31) \<le> n \<and> n < 2 ^ 31)"

definition valid_civil :: "int \<Rightarrow> int \<Rightarrow> int \<Rightarrow> int \<Rightarrow> int \<Rightarrow> int \<Rightarrow> bool" where
  "valid_civil y mo d h mi s = (1 \<le> y \<and> y \<le> 9999 \<and> 1 \<le> mo \<and> mo \<le> 12 \<and> 1 \<le> d \<and> d \<le> days_in_month y mo \<and>
     0 \<le> h \<and> h \<le> 23 \<and> 0 \<le> mi \<and> mi \<le> 59 \<and> 0 \<le> s \<and> s \<le> 59)"

definition civil_instant :: "int \<Rightarrow> int \<Rightarrow> int \<Rightarrow> int \<Rightarrow> int \<Rightarrow> int \<Rightarrow> instant" where
  "civil_instant y mo d h mi s =
     (((ymd_ordinal y mo d - EPOCH_ORDINAL) * 24 + h) * 60 + mi) * 60 * US + s * US"

definition make_datetime :: "int \<Rightarrow> int \<Rightarrow> int \<Rightarrow> int \<Rightarrow> int \<Rightarrow> int \<Rightarrow> exn + instant" where
  "make_datetime y mo d h mi s =
     (if \<not> list_all fits_c_int [y, mo, d, h, mi, s] then Inl (raise_exn OverflowError)
      else if \<not> valid_civil y mo d h mi s then Inl (raise_exn ValueError)
      else Inr (civil_instant y mo d h mi s))"

section \<open>Extraction\<close>

datatype fp_content = FpDict "string option" | FpOther

record fp_entry =
  fp_id :: "string option"
  fp_link :: "string option"
  fp_title :: "string option"
  fp_author :: "string option"
  fp_content :: "fp_content list option"
  fp_summary :: "string option"
  fp_published_parsed :: "int list option"
  fp_updated_parsed :: "int list option"

record fp_meta =
  fp_feed_title :: "string option"
  fp_feed_ttl :: "string option"

record fp_result =
  fp_feed :: "fp_meta option"
  fp_entries :: "fp_entry list"

record parsed_feed =
  pf_title :: "string option"
  pf_ttl_seconds :: "int option"
  pf_entries :: "parsed_entry list"

text \<open>Python's \<open>a or b\<close> on values that may be missing or empty.\<close>

definition py_or :: "'a list option \<Rightarrow> 'a list option \<Rightarrow> 'a list option" where
  "py_or a b = (case a of Some (x # xs) \<Rightarrow> a | _ \<Rightarrow> b)"

definition struct_time_to_datetime :: "int list option \<Rightarrow> exn + instant option" where
  "struct_time_to_datetime st = (case st of
     None \<Rightarrow> Inr None
   | Some (y # mo # d # h # mi # s # _) \<Rightarrow>
       (case make_datetime y mo d h mi s of
          Inr t \<Rightarrow> Inr (Some t)
        | Inl e \<Rightarrow> if is_ValueError (exn_cls e) then Inr None else Inl e)
   | Some _ \<Rightarrow> Inr None)"

definition extract_content :: "fp_entry \<Rightarrow> string option" where
  "extract_content e =
     (let summary = py_or (fp_summary e) None
      in case fp_content e of
           Some (first # _) \<Rightarrow>
             (case first of
                FpDict (Some (c # cs)) \<Rightarrow> Some (c # cs)
              | _ \<Rightarrow> summary)
         | _ \<Rightarrow> summary)"

definition entry_guid :: "fp_entry \<Rightarrow> string" where
  "entry_guid e = (case py_or (fp_id e) (py_or (fp_link e) None) of Some g \<Rightarrow> g | None \<Rightarrow> [])"

definition entry_url :: "fp_entry \<Rightarrow> string" where
  "entry_url e = (case py_or (fp_link e) None of Some u \<Rightarrow> u | None \<Rightarrow> entry_guid e)"

definition extract_entry :: "fp_entry \<Rightarrow> exn + parsed_entry" where
  "extract_entry e =
     try_bind (struct_time_to_datetime (py_or (fp_published_parsed e) (fp_updated_parsed e)))
       (\<lambda>published_at. Inr \<lparr>pe_guid = entry_guid e, pe_url = entry_url e, pe_title = fp_title e,
          pe_content = extract_content e, pe_author = fp_author e, pe_published_at = published_at\<rparr>)"

fun extract_entries :: "fp_entry list \<Rightarrow> exn + parsed_entry list" where
  "extract_entries [] = Inr []"
| "extract_entries (e # es) =
     try_bind (extract_entry e) (\<lambda>p. try_bind (extract_entries es) (\<lambda>ps. Inr (p # ps)))"

definition parse_sync :: "(string \<Rightarrow> exn + fp_result) \<Rightarrow> string \<Rightarrow> exn + parsed_feed" where
  "parse_sync fp_parse body =
     try_bind (fp_parse body) (\<lambda>parsed.
       try_bind (extract_entries (fp_entries parsed)) (\<lambda>entries.
         Inr \<lparr>pf_title = (case fp_feed parsed of None \<Rightarrow> None | Some meta \<Rightarrow> fp_feed_title meta),
              pf_ttl_seconds =
                (case fp_feed parsed of
                   None \<Rightarrow> None
                 | Some meta \<Rightarrow>
                     (case fp_feed_ttl meta of
                        None \<Rightarrow> None
                      | Some ttl_raw \<Rightarrow> map_option (\<lambda>n. max 0 n * 60) (py_int ttl_raw))),
              pf_entries = entries\<rparr>))"

section \<open>Facts about the calendar\<close>

lemma div_pred: "0 < n \<Longrightarrow> y div n = (y - 1) div n + (if y mod n = 0 then 1 else 0)" for y n :: int
proof (cases "y mod n = 0")
  case True
  assume "0 < n"
  from True have y: "y = n * (y div n)" by (metis mult_div_mod_eq add_0_right)
  have "(n * (y div n) - 1) div n = y div n - 1"
    using \<open>0 < n\<close> by (intro int_div_pos_eq [where r = "n - 1"]) (simp_all add: algebra_simps)
  with True y show ?thesis by simp
next
  case False
  assume "0 < n"
  with False have "0 < y mod n" "y mod n < n" 
    using pos_mod_sign [of n y] pos_mod_bound [of n y] by linarith+
  then have "(y - 1) div n = y div n"
    by (intro int_div_pos_eq [where r = "y mod n - 1"]) (simp_all add: algebra_simps)
  with False show ?thesis by simp
qed

lemma leap_days:
  "(C \<longrightarrow> B) \<Longrightarrow> (B \<longrightarrow> A) \<Longrightarrow> (if A then 1 else 0) - (if B then 1 else 0) + (if C then 1 else 0) =
     (if A \<and> (\<not> B \<or> C) then 1 else (0::int))"
  by (cases A; cases B; cases C) simp_all

lemma days_before_year_Suc: "days_before_year (y + 1) = days_before_year y + (if is_leap y then 366 else 365)"
proof -
  have dvds: "y mod 100 = 0 \<longrightarrow> y mod 4 = 0" "y mod 400 = 0 \<longrightarrow> y mod 100 = 0"
    unfolding mod_eq_0_iff_dvd using dvd_trans [of 4 100 y] dvd_trans [of 100 400 y] by simp_all
  have d4: "y div 4 = (y - 1) div 4 + (if y mod 4 = 0 then 1 else 0)"
    and d100: "y div 100 = (y - 1) div 100 + (if y mod 100 = 0 then 1 else 0)"
    and d400: "y div 400 = (y - 1) div 400 + (if y mod 400 = 0 then 1 else 0)"
    by (rule div_pred, simp)+
  have alg: "y * 365 + (a + p) - (b + q) + (c + r) = (y - 1) * 365 + a - b + c + (365 + (p - q + r))"
    for a b c p q r :: int by simp
  have "days_before_year (y + 1) = y * 365 + y div 4 - y div 100 + y div 400"
    unfolding days_before_year_def Let_def by (simp only: add_diff_cancel)
  also have "\<dots> = days_before_year y + (365 + ((if y mod 4 = 0 then 1 else 0) -
      (if y mod 100 = 0 then 1 else 0) + (if y mod 400 = 0 then 1 else 0)))"
    unfolding d4 d100 d400 days_before_year_def Let_def by (rule alg)
  also have "\<dots> = days_before_year y + (365 + (if is_leap y then 1 else 0))"
    unfolding is_leap_def by (subst leap_days [OF dvds(2) dvds(1)]) (rule refl)
  finally show ?thesis by (cases "is_leap y") simp_all
qed

lemma days_before_year_mono: "y \<le> y' \<Longrightarrow> days_before_year y \<le> days_before_year y'"
proof (induction y' rule: int_ge_induct)
  case (step i)
  then show ?case using days_before_year_Suc [of i] by (simp split: if_splits)
qed simp

lemma sum_month_lengths: "sum_list (month_lengths y) = (if is_leap y then 366 else 365)"
  by (simp add: month_lengths_def)

lemma month_lengths_pos: "x \<in> set (month_lengths y) \<Longrightarrow> 0 \<le> x"
  by (auto simp: month_lengths_def split: if_splits)

lemma sum_list_take_mono:
  assumes "\<And>x. x \<in> set xs \<Longrightarrow> (0::int) \<le> x" "i \<le> j"
  shows "sum_list (take i xs) \<le> sum_list (take j xs)"
proof -
  have "take j xs = take i xs @ take (j - i) (drop i xs)" using assms(2) by (metis le_add_diff_inverse take_add)
  moreover have "0 \<le> sum_list (take (j - i) (drop i xs))"
    using assms(1) by (intro sum_list_nonneg) (meson in_set_dropD in_set_takeD)
  ultimately show ?thesis by simp
qed

lemma days_before_month_step:
  assumes "1 \<le> m" "m < m'" "m' \<le> 12"
  shows "days_before_month y m + days_in_month y m \<le> days_before_month y m'"
proof -
  have "nat (m - 1) < length (month_lengths y)" using assms by (simp add: month_lengths_def)
  then have "days_before_month y m + days_in_month y m = sum_list (take (Suc (nat (m - 1))) (month_lengths y))"
    by (simp add: days_before_month_def days_in_month_def take_Suc_conv_app_nth)
  also have "\<dots> \<le> days_before_month y m'" unfolding days_before_month_def
    using assms by (intro sum_list_take_mono month_lengths_pos) simp_all
  finally show ?thesis .
qed

lemma days_before_month_bounds:
  assumes "1 \<le> m" "m \<le> 12"
  shows "0 \<le> days_before_month y m" "days_before_month y m + days_in_month y m \<le> (if is_leap y then 366 else 365)"
proof -
  show "0 \<le> days_before_month y m" unfolding days_before_month_def
    by (rule sum_list_nonneg) (meson in_set_takeD month_lengths_pos)
  have "nat (m - 1) < length (month_lengths y)" using assms by (simp add: month_lengths_def)
  then have "days_before_month y m + days_in_month y m = sum_list (take (Suc (nat (m - 1))) (month_lengths y))"
    by (simp add: days_before_month_def days_in_month_def take_Suc_conv_app_nth)
  also have "\<dots> \<le> sum_list (take 12 (month_lengths y))"
    using assms by (intro sum_list_take_mono month_lengths_pos) simp_all
  also have "\<dots> = (if is_leap y then 366 else 365)" by (simp add: month_lengths_def)
  finally show "days_before_month y m + days_in_month y m \<le> (if is_leap y then 366 else 365)" .
qed

text \<open>The ordinal follows the lexicographic order of valid dates.\<close>

lemma ymd_ordinal_less:
  assumes "1 \<le> m" "m \<le> 12" "1 \<le> d" "d \<le> days_in_month y m" "1 \<le> m'" "m' \<le> 12" "1 \<le> d'"
    and "(y, m, d) < (y', m', d')"
  shows "ymd_ordinal y m d < ymd_ordinal y' m' d'"
proof -
  consider "y < y'" | "y = y'" "m < m'" | "y = y'" "m = m'" "d < d'" using assms(8)
    by (cases y y' rule: linorder_cases; cases m m' rule: linorder_cases) auto
  then show ?thesis
  proof cases
    case 1
    then have "days_before_year (y + 1) \<le> days_before_year y'" by (intro days_before_year_mono) simp
    then show ?thesis
      using days_before_year_Suc [of y] days_before_month_bounds [OF assms(1,2), of y]
        days_before_month_bounds(1) [OF assms(5,6), of y'] assms(4,7)
      by (simp add: ymd_ordinal_def)
  next
    case 2
    then show ?thesis using days_before_month_step [OF assms(1) 2(2) assms(6), of y] assms(4,7)
      by (simp add: ymd_ordinal_def)
  qed (simp add: ymd_ordinal_def)
qed

lemma ymd_ordinal_range:
  assumes "1 \<le> y" "y \<le> 9999" "1 \<le> m" "m \<le> 12" "1 \<le> d" "d \<le> days_in_month y m"
  shows "1 \<le> ymd_ordinal y m d" "ymd_ordinal y m d \<le> 3652059"
proof -
  have "days_before_year 1 \<le> days_before_year y" using assms(1) by (rule days_before_year_mono)
  then show "1 \<le> ymd_ordinal y m d" using days_before_month_bounds(1) [OF assms(3,4), of y] assms(5)
    by (simp add: ymd_ordinal_def days_before_year_def)
  have "days_before_year (y + 1) \<le> days_before_year 10000" using assms(2) by (intro days_before_year_mono) simp
  then show "ymd_ordinal y m d \<le> 3652059"
    using days_before_month_bounds(2) [OF assms(3,4), of y] assms(6) days_before_year_Suc [of y]
    by (simp add: ymd_ordinal_def days_before_year_def)
qed

lemma civil_instant_valid: "valid_civil y mo d h mi s \<Longrightarrow> valid_instant (civil_instant y mo d h mi s)"
  using ymd_ordinal_range [of y mo d]
  by (simp add: valid_civil_def civil_instant_def valid_instant_def dt_min_def dt_max_def US_def EPOCH_ORDINAL_def)

lemma civil_instant_less:
  assumes "valid_civil y mo d h mi s" "valid_civil y' mo' d' h' mi' s'"
    and "((y, mo, d), (h, mi, s)) < ((y', mo', d'), (h', mi', s'))"
  shows "civil_instant y mo d h mi s < civil_instant y' mo' d' h' mi' s'"
proof (cases "(y, mo, d) < (y', mo', d')")
  case True
  with assms(1,2) have "ymd_ordinal y mo d < ymd_ordinal y' mo' d'"
    by (intro ymd_ordinal_less) (simp_all add: valid_civil_def)
  with assms(1,2) show ?thesis by (simp add: civil_instant_def valid_civil_def US_def)
next
  case False
  with assms(3) have "(y, mo, d) = (y', mo', d')" "(h, mi, s) < (h', mi', s')" by (simp_all only: less_prod_def) auto
  then show ?thesis using assms(1,2)
    by (cases h h' rule: linorder_cases; cases mi mi' rule: linorder_cases)
      (simp_all add: civil_instant_def valid_civil_def US_def)
qed

lemma struct_time_civil:
  "struct_time_to_datetime (Some (y # mo # d # h # mi # s # rest)) = Inr (Some t) \<Longrightarrow>
     valid_civil y mo d h mi s \<and> t = civil_instant y mo d h mi s"
  by (auto simp: struct_time_to_datetime_def make_datetime_def split: if_splits)

lemma struct_time_valid:
  assumes "struct_time_to_datetime st = Inr (Some t)"
  shows "valid_instant t"
proof -
  from assms obtain y mo d h mi s rest where st: "st = Some (y # mo # d # h # mi # s # rest)"
    by (auto simp: struct_time_to_datetime_def split: option.splits list.splits)
  from struct_time_civil [OF assms [unfolded st]] show ?thesis by (simp add: civil_instant_valid)
qed

lemma py_or_eq: "py_or a b = (if a = None \<or> a = Some [] then b else a)"
  by (simp add: py_or_def split: option.splits list.splits)

lemma extract_content_not_empty: "extract_content e \<noteq> Some []"
  by (auto simp: extract_content_def Let_def py_or_eq split: option.splits list.splits fp_content.splits)

lemma entry_guid_empty: "entry_guid e = [] \<longleftrightarrow> fp_id e \<in> {None, Some []} \<and> fp_link e \<in> {None, Some []}"
  by (cases "fp_id e"; cases "fp_link e") (simp_all add: entry_guid_def py_or_eq)

lemma entry_url_not_empty: "entry_guid e \<noteq> [] \<Longrightarrow> entry_url e \<noteq> []"
  by (cases "fp_link e") (simp_all add: entry_url_def py_or_eq)

lemma extract_entry_ok:
  assumes "extract_entry e = Inr p"
  shows "pe_guid p \<noteq> [] \<Longrightarrow> pe_url p \<noteq> []" "pe_published_at p = Some t \<Longrightarrow> valid_instant t"
    "pe_content p \<noteq> Some []"
    "pe_guid p = [] \<longleftrightarrow> fp_id e \<in> {None, Some []} \<and> fp_link e \<in> {None, Some []}"
proof -
  from assms obtain pub where
      pub: "struct_time_to_datetime (py_or (fp_published_parsed e) (fp_updated_parsed e)) = Inr pub"
    and p: "p = \<lparr>pe_guid = entry_guid e, pe_url = entry_url e, pe_title = fp_title e,
      pe_content = extract_content e, pe_author = fp_author e, pe_published_at = pub\<rparr>"
    by (auto simp: extract_entry_def try_bind_eq_Inr)
  show "pe_content p \<noteq> Some []" by (simp add: p extract_content_not_empty)
  show "pe_published_at p = Some t \<Longrightarrow> valid_instant t" using pub by (simp add: p struct_time_valid)
  show "pe_guid p = [] \<longleftrightarrow> fp_id e \<in> {None, Some []} \<and> fp_link e \<in> {None, Some []}"
    using entry_guid_empty [of e] by (simp add: p)
  show "pe_guid p \<noteq> [] \<Longrightarrow> pe_url p \<noteq> []" by (simp add: p entry_url_not_empty)
qed

lemma extract_entries_all2: "extract_entries es = Inr ps \<Longrightarrow> list_all2 (\<lambda>e p. extract_entry e = Inr p) es ps"
  by (induction es arbitrary: ps) (auto simp: try_bind_eq_Inr)

section \<open>Properties\<close>

text \<open>
  The conversion of publication dates is strictly monotone: of two time tuples that both
  denote real dates of the Gregorian calendar, the lexicographically smaller one becomes the
  earlier instant. In particular distinct dates never collide, and the order entries claim is
  the order stored.
\<close>

theorem publication_dates_keep_order:
  assumes "struct_time_to_datetime (Some [y, mo, d, h, mi, s]) = Inr (Some t)"
    and "struct_time_to_datetime (Some [y', mo', d', h', mi', s']) = Inr (Some t')"
    and "((y, mo, d), (h, mi, s)) < ((y', mo', d'), (h', mi', s'))"
  shows "t < t'"
  using struct_time_civil [OF assms(1)] struct_time_civil [OF assms(2)] assms(3) civil_instant_less by blast

theorem publication_dates_keep_order_witness: "(1709251199000000::instant) < 1709251200000000"
proof (rule publication_dates_keep_order)
  show "struct_time_to_datetime (Some [2024, 2, 29, 23, 59, 59]) = Inr (Some 1709251199000000)" by code_simp
  show "struct_time_to_datetime (Some [2024, 3, 1, 0, 0, 0]) = Inr (Some 1709251200000000)" by code_simp
qed simp

text \<open>
  C31: What a successful parse hands on: as many entries as feedparser returned, in its order;
  an entry with a guid has a non-empty URL, and its guid is empty only if the feed gave neither
  an id nor a link; content is missing rather than empty; a publication date lies in the range
  the database column and \<open>datetime\<close> can hold; and the \<open>ttl\<close> hint is a non-negative multiple
  of a minute.
\<close>

theorem parse_sync_wellformed:
  assumes "parse_sync fp_parse body = Inr pf" "fp_parse body = Inr parsed"
  shows "list_all2 (\<lambda>e p. (pe_guid p \<noteq> [] \<longrightarrow> pe_url p \<noteq> []) \<and>
        (pe_guid p = [] \<longleftrightarrow> fp_id e \<in> {None, Some []} \<and> fp_link e \<in> {None, Some []}) \<and>
        pe_content p \<noteq> Some [] \<and> (\<forall>t. pe_published_at p = Some t \<longrightarrow> valid_instant t))
      (fp_entries parsed) (pf_entries pf) \<and>
    (\<forall>ttl. pf_ttl_seconds pf = Some ttl \<longrightarrow> 0 \<le> ttl \<and> ttl mod 60 = 0)"
proof
  from assms have "extract_entries (fp_entries parsed) = Inr (pf_entries pf)"
    by (auto simp: parse_sync_def try_bind_eq_Inr)
  from extract_entries_all2 [OF this]
  show "list_all2 (\<lambda>e p. (pe_guid p \<noteq> [] \<longrightarrow> pe_url p \<noteq> []) \<and>
        (pe_guid p = [] \<longleftrightarrow> fp_id e \<in> {None, Some []} \<and> fp_link e \<in> {None, Some []}) \<and>
        pe_content p \<noteq> Some [] \<and> (\<forall>t. pe_published_at p = Some t \<longrightarrow> valid_instant t))
      (fp_entries parsed) (pf_entries pf)"
    by (rule list_all2_mono) (use extract_entry_ok in blast)
  show "\<forall>ttl. pf_ttl_seconds pf = Some ttl \<longrightarrow> 0 \<le> ttl \<and> ttl mod 60 = 0"
    using assms by (auto simp: parse_sync_def try_bind_eq_Inr split: option.splits)
qed

definition sample_fp_entry :: fp_entry where
  "sample_fp_entry = \<lparr>fp_id = None, fp_link = Some ''http://a.example/1'', fp_title = Some ''t'', fp_author = None,
     fp_content = Some [FpOther], fp_summary = Some ''s'', fp_published_parsed = None,
     fp_updated_parsed = Some [2024, 2, 29, 23, 59, 59, 3, 60, 0]\<rparr>"

definition sample_fp_result :: fp_result where
  "sample_fp_result = \<lparr>fp_feed = Some \<lparr>fp_feed_title = Some ''A feed'', fp_feed_ttl = Some ''30''\<rparr>,
     fp_entries = [sample_fp_entry]\<rparr>"

definition sample_parsed_feed :: parsed_feed where
  "sample_parsed_feed = \<lparr>pf_title = Some ''A feed'', pf_ttl_seconds = Some 1800,
     pf_entries = [\<lparr>pe_guid = ''http://a.example/1'', pe_url = ''http://a.example/1'', pe_title = Some ''t'',
       pe_content = Some ''s'', pe_author = None, pe_published_at = Some 1709251199000000\<rparr>]\<rparr>"

lemma sample_parse: "parse_sync (\<lambda>_. Inr sample_fp_result) body = Inr sample_parsed_feed"
proof -
  have "struct_time_to_datetime (Some [2024, 2, 29, 23, 59, 59, 3, 60, 0]) = Inr (Some 1709251199000000)" by code_simp
  moreover have "py_int ''30'' = Some 30" by code_simp
  ultimately show ?thesis
    by (simp add: parse_sync_def sample_fp_result_def sample_parsed_feed_def sample_fp_entry_def
        extract_entry_def entry_guid_def entry_url_def extract_content_def py_or_def Let_def)
qed

theorem parse_sync_wellformed_witness:
  "pf_ttl_seconds sample_parsed_feed = Some 1800 \<and> 0 \<le> (1800::int) \<and> (1800::int) mod 60 = 0 \<and>
   length (pf_entries sample_parsed_feed) = length (fp_entries sample_fp_result)"
  using parse_sync_wellformed [OF sample_parse [of "[]"] refl]
  by (auto simp: sample_parsed_feed_def dest: list_all2_lengthD)

end
