(* ===== verification/Http.thy ===== *)
theory Http
  imports Feed_State Fetch_Errors Policy Ssrf Fallback Feed_Parser
begin

text \<open>
  \<open>fetcher/http.py\<close>: \<open>fetch_one\<close>, the whole handler.

  \<^item> \<open>fetch_state\<close> is what the handler mutates: the ORM object \<open>feed\<close>, the rows its session sees,
    the module-level set \<open>_DOMAINS_NEEDING_FALLBACK\<close>, the metrics and log trace, the local
    \<open>_server_hint\<close> (its value survives into the code after the \<open>except\<close> block), and whether
    PostgreSQL has aborted the session's transaction.
  \<^item> \<open>fetch_env\<close> is what the handler cannot control: the resolver at the two points where it is
    asked, the httpx client, curl_cffi, the two parsers, the random draw, clocks, and which
    entries the database accepts. Sessions are created with \<open>autoflush=False\<close>, so no query
    writes the feed back. Closing a response is taken not to raise.
  \<^item> An \<open>http_response\<close> carries what \<open>raise_for_status()\<close> does as a value;
    \<open>documented_response\<close> states what httpx documents of it. The body is the list of chunks
    that \<open>aiter_bytes()\<close> yields, where a read may raise.
  \<^item> Python's \<open>try ... except Exception\<close> around the body is the case distinction in
    \<open>fetch_one\<close>; a \<open>return\<close> inside the \<open>try\<close> is the value \<open>Returned\<close>.
\<close>

section \<open>State, environment, configuration\<close>

record fetch_state =
  fs_feed :: feed
  fs_db :: db
  fs_domains :: "string set"
  fs_events :: "event list"
  fs_server_hint :: "int option"
  fs_aborted :: bool

record http_response =
  h_status_code :: int
  h_headers :: headers
  h_history :: "int list"
  h_url :: string
  h_raise_for_status :: "exn + unit"
  h_chunks :: "(exn + string) list"

record fetch_env =
  env_dns :: resolver
  env_dns_fallback :: resolver
  env_stream :: "string \<Rightarrow> (string \<times> string) list \<Rightarrow> exn + http_response"
  env_budget_expired :: bool
  env_curl :: curl_session
  env_mk_headers :: "(string \<times> string) list \<Rightarrow> headers"
  env_parsedate :: date_parser
  env_fp_parse :: "string \<Rightarrow> exn + fp_result"
  env_accepts :: "parsed_entry \<Rightarrow> bool"
  env_reject_aborts :: bool
  env_db_now :: instant
  env_random :: float_val
  env_elapsed :: float_val

record fetch_config =
  fc_policy :: policy_config
  fc_user_agent :: string
  fc_max_bytes :: int
  fc_max_entries_per_fetch :: int
  fc_max_entries_initial :: int
  fc_total_budget_seconds :: float_val
  fc_dead_duration_days :: int

datatype fetched = Returned | Document headers string

definition documented_response :: "http_response \<Rightarrow> bool" where
  "documented_response r =
     ((400 \<le> h_status_code r \<and> h_status_code r < 600 \<longrightarrow>
         h_raise_for_status r = Inl (raise_exn (HTTPStatusError (h_status_code r)))) \<and>
      (200 \<le> h_status_code r \<and> h_status_code r < 300 \<longrightarrow> h_raise_for_status r = Inr ()))"

abbreviation on_feed :: "(feed \<Rightarrow> feed) \<Rightarrow> fetch_state \<Rightarrow> fetch_state" where
  "on_feed g s \<equiv> s\<lparr>fs_feed := g (fs_feed s)\<rparr>"

section \<open>The stages of a fetch\<close>

definition conditional_headers :: "feed \<Rightarrow> (string \<times> string) list" where
  "conditional_headers feed = (case py_or (f_etag feed) None of
     Some etag \<Rightarrow> [(''If-None-Match'', etag)]
   | None \<Rightarrow> (case py_or (f_last_modified feed) None of
       Some lm \<Rightarrow> [(''If-Modified-Since'', lm)]
     | None \<Rightarrow> []))"

definition request_headers :: "fetch_config \<Rightarrow> feed \<Rightarrow> (string \<times> string) list" where
  "request_headers cfg feed = (''User-Agent'', fc_user_agent cfg) # conditional_headers feed"

definition weekly_entry_count :: "db \<Rightarrow> int \<Rightarrow> instant \<Rightarrow> int" where
  "weekly_entry_count d feed_id cutoff =
     int (length (filter (\<lambda>e. e_feed_id e = feed_id \<and> e_fetched_at e \<ge> cutoff) (entries_tbl d)))"

definition schedule_next ::
  "fetch_env \<Rightarrow> fetch_config \<Rightarrow> instant \<Rightarrow> int \<Rightarrow> fetch_state \<Rightarrow> (fetch_state, exn, unit) outcome" where
  "schedule_next env cfg now weekly s =
     and_then (lift_result s
         (compute_next_fetch_at (fs_feed s) now (fc_policy cfg) (fs_server_hint s) weekly (env_random env)))
       (\<lambda>s t. (on_feed (f_next_fetch_at_update (\<lambda>_. t)) s, Inr ()))"

definition not_modified ::
  "fetch_env \<Rightarrow> fetch_config \<Rightarrow> instant \<Rightarrow> int \<Rightarrow> http_response \<Rightarrow> fetch_state \<Rightarrow>
   (fetch_state, exn, fetched) outcome" where
  "not_modified env cfg now weekly resp s =
     (let s1 = on_feed (f_last_successful_fetch_at_update (\<lambda>_. Some now)) s;
          s2 = (if f_status (fs_feed s1) = BROKEN
                then s1\<lparr>fs_events := transition_feed (fs_feed s1) ACTIVE ''http_304_recovery'' (fs_events s1),
                        fs_feed := (fs_feed s1)\<lparr>f_status := ACTIVE, f_consecutive_failures := 0,
                                                f_last_error_code := None\<rparr>\<rparr>
                else s1)
      in and_then (lift_result s2 (parse_cache_hint (env_parsedate env) (h_headers resp) now))
           (\<lambda>s hint. and_then (schedule_next env cfg now weekly (s\<lparr>fs_server_hint := hint\<rparr>))
             (\<lambda>s _. (s\<lparr>fs_events := observe_fetch ''not_modified'' (env_elapsed env) None (fs_events s)\<rparr>,
                     Inr Returned))))"

definition rate_limited ::
  "fetch_env \<Rightarrow> fetch_config \<Rightarrow> instant \<Rightarrow> http_response \<Rightarrow> fetch_state \<Rightarrow> (fetch_state, exn, fetched) outcome" where
  "rate_limited env cfg now resp s =
     and_then (lift_result s (parse_retry_after (env_parsedate env) (h_headers resp ''retry-after'') now))
       (\<lambda>s retry_after.
          let wait_seconds = max (case retry_after of Some n \<Rightarrow> n | None \<Rightarrow> 0) (base_interval_seconds (fc_policy cfg));
              s1 = on_feed (f_last_error_code_update (\<lambda>_. Some RATE_LIMITED)) s
          in and_then (lift_result s1 (try_bind (timedelta_seconds (of_int wait_seconds)) (dt_add now)))
               (\<lambda>s t. (on_feed (f_next_fetch_at_update (\<lambda>_. t)) s
                        \<lparr>fs_events := observe_fetch ''rate_limited'' (env_elapsed env) None (fs_events s)\<rparr>,
                       Inr Returned)))"

fun read_body :: "int \<Rightarrow> (exn + string) list \<Rightarrow> int \<Rightarrow> string \<Rightarrow> exn + string" where
  "read_body max_bytes [] seen body = Inr body"
| "read_body max_bytes (Inl e # chunks) seen body = Inl e"
| "read_body max_bytes (Inr chunk # chunks) seen body =
     (let total = seen + int (length chunk)
      in if total > max_bytes then Inl (raise_exn ResponseTooLargeError)
         else read_body max_bytes chunks total (body @ chunk))"

definition persist_moved :: "http_response \<Rightarrow> feed \<Rightarrow> feed" where
  "persist_moved resp feed =
     (if 301 \<in> set (h_history resp) \<and> h_url resp \<noteq> f_effective_url feed
      then feed\<lparr>f_effective_url := h_url resp\<rparr> else feed)"

definition receive ::
  "fetch_config \<Rightarrow> http_response \<Rightarrow> fetch_state \<Rightarrow> (fetch_state, exn, fetched) outcome" where
  "receive cfg resp s =
     and_then (lift_result s (h_raise_for_status resp))
       (\<lambda>s _. and_then (lift_result (on_feed (persist_moved resp) s)
                 (read_body (fc_max_bytes cfg) (h_chunks resp) 0 []))
          (\<lambda>s body. (s, Inr (Document (h_headers resp) body))))"

definition call_fallback :: "fetch_env \<Rightarrow> fetch_config \<Rightarrow> feed \<Rightarrow> exn + fallback_response" where
  "call_fallback env cfg feed =
     fetch_via_impersonation (env_dns_fallback env) (env_curl env) (env_mk_headers env) (f_effective_url feed)
       (request_headers cfg feed) (fc_total_budget_seconds cfg) (fc_max_bytes cfg)"

definition handle_response ::
  "fetch_env \<Rightarrow> fetch_config \<Rightarrow> instant \<Rightarrow> int \<Rightarrow> string \<Rightarrow> http_response \<Rightarrow> fetch_state \<Rightarrow>
   (fetch_state, exn, fetched) outcome" where
  "handle_response env cfg now weekly host resp s =
     (if h_status_code resp = 304 then not_modified env cfg now weekly resp s
      else if h_status_code resp = 429 then rate_limited env cfg now resp s
      else if h_status_code resp = 403 then
        (case call_fallback env cfg (fs_feed s) of
           Inr fb \<Rightarrow> (s\<lparr>fs_domains := insert host (fs_domains s)\<rparr>, Inr (Document (fb_headers fb) (fb_content fb)))
         | Inl e \<Rightarrow>
             if exn_cls e = FallbackError
             then and_then (lift_result s (h_raise_for_status resp)) (\<lambda>s _. receive cfg resp s)
             else (s, Inl e))
      else receive cfg resp s)"

text \<open>\<open>asyncio.timeout\<close> turns the cancellation it caused itself into \<open>TimeoutError\<close>.\<close>

definition with_timeout :: "bool \<Rightarrow> ('s, exn, 'a) outcome \<Rightarrow> ('s, exn, 'a) outcome" where
  "with_timeout expired o1 = (case o1 of
     (s, Inl e) \<Rightarrow> (s, Inl (if expired \<and> exn_cls e = CancelledError then raise_from TimeoutError e else e))
   | (s, Inr a) \<Rightarrow> (s, Inr a))"

definition obtain_document ::
  "fetch_env \<Rightarrow> fetch_config \<Rightarrow> instant \<Rightarrow> int \<Rightarrow> fetch_state \<Rightarrow> (fetch_state, exn, fetched) outcome" where
  "obtain_document env cfg now weekly s =
     (let url = f_effective_url (fs_feed s) in
      and_then (lift_result s (validate_public_url (env_dns env) url True)) (\<lambda>s _.
        and_then (lift_result s (urlsplit url)) (\<lambda>s parts.
          let host = (case hostname parts of Some h \<Rightarrow> h | None \<Rightarrow> [])
          in if host \<in> fs_domains s then
               and_then (lift_result s (call_fallback env cfg (fs_feed s)))
                 (\<lambda>s fb. (s, Inr (Document (fb_headers fb) (fb_content fb))))
             else
               with_timeout (env_budget_expired env)
                 (and_then (lift_result s (env_stream env url (request_headers cfg (fs_feed s))))
                   (\<lambda>s resp. handle_response env cfg now weekly host resp s)))))"

definition entries_to_upsert :: "fetch_config \<Rightarrow> bool \<Rightarrow> parsed_entry list \<Rightarrow> parsed_entry list" where
  "entries_to_upsert cfg has_existing_entries ps =
     (let ps1 = (if int (length ps) > fc_max_entries_per_fetch cfg
                 then slice_to (fc_max_entries_per_fetch cfg) ps else ps)
      in if \<not> has_existing_entries \<and> int (length ps1) > fc_max_entries_initial cfg
         then slice_to (fc_max_entries_initial cfg) ps1 else ps1)"

definition has_entries :: "db \<Rightarrow> int \<Rightarrow> bool" where
  "has_entries d feed_id = list_ex (\<lambda>e. e_feed_id e = feed_id) (entries_tbl d)"

definition store_entries ::
  "fetch_env \<Rightarrow> fetch_config \<Rightarrow> instant \<Rightarrow> parsed_entry list \<Rightarrow> fetch_state \<Rightarrow> (fetch_state, exn, unit) outcome" where
  "store_entries env cfg now ps s =
     (if ps = [] then (s, Inr ())
      else
        (let feed_id = f_id (fs_feed s);
             (d, r) = upsert_entries (env_accepts env) feed_id
               (entries_to_upsert cfg (has_entries (fs_db s) feed_id) ps) now (env_db_now env) (fs_db s)
         in (s\<lparr>fs_db := d, fs_aborted := (fs_aborted s \<or> (isl r \<and> env_reject_aborts env))\<rparr>, r)))"

definition remember_validators :: "headers \<Rightarrow> feed \<Rightarrow> feed" where
  "remember_validators hs feed =
     (let f1 = (case hs ''etag'' of Some v \<Rightarrow> feed\<lparr>f_etag := Some v\<rparr> | None \<Rightarrow> feed)
      in case hs ''last-modified'' of Some v \<Rightarrow> f1\<lparr>f_last_modified := Some v\<rparr> | None \<Rightarrow> f1)"

definition ttl_hint :: "int option \<Rightarrow> int option \<Rightarrow> int option" where
  "ttl_hint ttl hint = (case ttl of
     Some t \<Rightarrow> if t > 0
       then (let m = max (case hint of Some h \<Rightarrow> h | None \<Rightarrow> 0) t in if m = 0 then None else Some m)
       else hint
   | None \<Rightarrow> hint)"

definition succeed :: "instant \<Rightarrow> string option \<Rightarrow> fetch_state \<Rightarrow> fetch_state" where
  "succeed now title s =
     (let (f, ev) = mark_fetch_success (fs_feed s) now title (fs_events s)
      in s\<lparr>fs_feed := f, fs_events := ev\<rparr>)"

definition ingest ::
  "fetch_env \<Rightarrow> fetch_config \<Rightarrow> instant \<Rightarrow> headers \<Rightarrow> string \<Rightarrow> fetch_state \<Rightarrow> (fetch_state, exn, unit) outcome" where
  "ingest env cfg now hs body s =
     (if is_not_a_feed_content_type (hs ''content-type'') then (s, Inl (raise_exn NotAFeedError))
      else
        and_then (lift_result s (parse_sync (env_fp_parse env) body)) (\<lambda>s parsed.
          and_then (store_entries env cfg now (pf_entries parsed) s) (\<lambda>s _.
            and_then (lift_result (on_feed (remember_validators hs) (succeed now (pf_title parsed) s))
                (parse_cache_hint (env_parsedate env) hs now))
              (\<lambda>s hint. (s\<lparr>fs_server_hint := ttl_hint (pf_ttl_seconds parsed) hint,
                          fs_events := observe_fetch ''success'' (env_elapsed env) None (fs_events s)\<rparr>, Inr ())))))"

text \<open>The body of the \<open>try\<close>; the result tells whether the handler has already returned.\<close>

definition attempt ::
  "fetch_env \<Rightarrow> fetch_config \<Rightarrow> instant \<Rightarrow> int \<Rightarrow> fetch_state \<Rightarrow> (fetch_state, exn, bool) outcome" where
  "attempt env cfg now weekly s =
     and_then (obtain_document env cfg now weekly s) (\<lambda>s doc.
       case doc of
         Returned \<Rightarrow> (s, Inr True)
       | Document hs body \<Rightarrow> and_then (ingest env cfg now hs body s) (\<lambda>s _. (s, Inr False)))"

definition record_failure ::
  "fetch_env \<Rightarrow> fetch_config \<Rightarrow> instant \<Rightarrow> exn \<Rightarrow> fetch_state \<Rightarrow> (fetch_state, exn, unit) outcome" where
  "record_failure env cfg now e s =
     (let code = classify_error e;
          ((f, ev), r) = mark_fetch_failure (fs_feed s) now code (broken_threshold (fc_policy cfg))
            (fc_dead_duration_days cfg) (fs_events s)
      in and_then (s\<lparr>fs_feed := f, fs_events := ev\<rparr>, r)
           (\<lambda>s _. (s\<lparr>fs_events := observe_fetch ''error'' (env_elapsed env) (Some code)
                      (fs_events s @ [LogFetchFailed (f_id (fs_feed s)) (f_effective_url (fs_feed s)) code (exn_cls e)])\<rparr>,
                   Inr ())))"

definition fetch_one ::
  "fetch_env \<Rightarrow> fetch_config \<Rightarrow> instant \<Rightarrow> fetch_state \<Rightarrow> (fetch_state, exn, unit) outcome" where
  "fetch_one env cfg now s =
     (let s1 = on_feed (f_last_attempt_at_update (\<lambda>_. Some now)) s\<lparr>fs_server_hint := None\<rparr> in
      and_then (lift_result s1 (try_bind (timedelta_days 7) (\<lambda>week. dt_add now (- week)))) (\<lambda>s cutoff.
        let weekly = weekly_entry_count (fs_db s) (f_id (fs_feed s)) cutoff in
        case attempt env cfg now weekly s of
          (s', Inr True) \<Rightarrow> (s', Inr ())
        | (s', Inr False) \<Rightarrow> schedule_next env cfg now weekly s'
        | (s', Inl e) \<Rightarrow>
            if caught e
            then and_then (record_failure env cfg now e s') (\<lambda>s _. schedule_next env cfg now weekly s)
            else (s', Inl e)))"

section \<open>How a fetch changes the state\<close>

definition db_evolves :: "int \<Rightarrow> db \<Rightarrow> db \<Rightarrow> bool" where
  "db_evolves i d d' \<longleftrightarrow>
     feeds_tbl d' = feeds_tbl d \<and> feeds_seq d' = feeds_seq d \<and> entries_seq d \<le> entries_seq d' \<and>
     (db_ok d \<and> i \<in> f_id ` set (feeds_tbl d) \<longrightarrow> db_ok d') \<and>
     (\<forall>j. j \<noteq> i \<longrightarrow> entries_of d' j = entries_of d j) \<and>
     (\<exists>fresh. map row_identity (entries_tbl d') = map row_identity (entries_tbl d) @ fresh \<and>
        list_all (\<lambda>r. entries_seq d \<le> fst r) fresh)"

definition evolves :: "fetch_state \<Rightarrow> fetch_state \<Rightarrow> bool" where
  "evolves s t \<longleftrightarrow>
     same_identity (fs_feed s) (fs_feed t) \<and> trail (fs_feed s, fs_events s) (fs_feed t, fs_events t) \<and>
     db_evolves (f_id (fs_feed s)) (fs_db s) (fs_db t) \<and>
     f_last_attempt_at (fs_feed t) = f_last_attempt_at (fs_feed s) \<and> fs_domains s \<subseteq> fs_domains t"

lemma db_evolves_refl [simp]: "db_evolves i d d"
  by (simp add: db_evolves_def)

lemma db_evolves_trans:
  assumes a: "db_evolves i d d'" and b: "db_evolves i d' d''"
  shows "db_evolves i d d''"
proof -
  have "entries_seq d' \<le> x \<Longrightarrow> entries_seq d \<le> x" for x using a by (simp add: db_evolves_def)
  moreover obtain xs ys where "map row_identity (entries_tbl d') = map row_identity (entries_tbl d) @ xs"
      "list_all (\<lambda>r. entries_seq d \<le> fst r) xs"
      "map row_identity (entries_tbl d'') = map row_identity (entries_tbl d') @ ys"
      "list_all (\<lambda>r. entries_seq d' \<le> fst r) ys"
    using a b unfolding db_evolves_def by blast
  ultimately have "map row_identity (entries_tbl d'') = map row_identity (entries_tbl d) @ (xs @ ys)"
      "list_all (\<lambda>r. entries_seq d \<le> fst r) (xs @ ys)"
    by (auto simp: list_all_iff)
  with a b show ?thesis unfolding db_evolves_def by (metis order_trans)
qed

interpretation fetching: state_evolution evolves
proof
  show "evolves s s" for s by (simp add: evolves_def)
  show "evolves s u" if "evolves s t" "evolves t u" for s t u
    using that unfolding evolves_def
    by (auto intro: same_identity_trans trail_trans db_evolves_trans simp: same_identity_def)
qed

text \<open>Most stages do not touch the rows at all.\<close>

definition calm :: "fetch_state \<Rightarrow> fetch_state \<Rightarrow> bool" where
  "calm s t \<longleftrightarrow> evolves s t \<and> fs_db t = fs_db s"

interpretation calmly: state_evolution calm
  by unfold_locales (auto simp: calm_def intro: fetching.evolve_refl fetching.evolve_trans)

lemma calm_evolves: "calm s t \<Longrightarrow> evolves s t" and calm_db: "calm s t \<Longrightarrow> fs_db t = fs_db s"
  by (simp_all add: calm_def)

lemma evolves_id: "evolves s t \<Longrightarrow> f_id (fs_feed t) = f_id (fs_feed s)"
  by (simp add: evolves_def same_identity_def)

lemma calmI:
  assumes "same_identity (fs_feed s) (fs_feed t)" "trail (fs_feed s, fs_events s) (fs_feed t, fs_events t)"
    and "fs_db t = fs_db s" "f_last_attempt_at (fs_feed t) = f_last_attempt_at (fs_feed s)"
    and "fs_domains s \<subseteq> fs_domains t"
  shows "calm s t"
  using assms by (simp add: calm_def evolves_def)

lemma calm_quiet:
  assumes "same_identity (fs_feed s) (fs_feed t)" "f_status (fs_feed t) = f_status (fs_feed s)"
    and "fs_events t = fs_events s" "fs_db t = fs_db s"
    and "f_last_attempt_at (fs_feed t) = f_last_attempt_at (fs_feed s)" "fs_domains s \<subseteq> fs_domains t"
  shows "calm s t"
  using assms by (simp add: calm_def evolves_def trail_status)

lemma calm_observe: "calm s (s\<lparr>fs_events := observe_fetch r el c (fs_events s)\<rparr>)"
  by (rule calmI) (simp_all add: trail_observe)

lemma calm_schedule: "calm s (fst (schedule_next env cfg now weekly s))"
  unfolding schedule_next_def
  by (rule calmly.evolve_lift) (auto intro!: calm_quiet simp: same_identity_def)

lemma calm_recovery:
  assumes "f_status (fs_feed s) = BROKEN"
  shows "calm s (s\<lparr>fs_events := transition_feed (fs_feed s) ACTIVE reason (fs_events s),
    fs_feed := (fs_feed s)\<lparr>f_status := ACTIVE, f_consecutive_failures := 0, f_last_error_code := None\<rparr>\<rparr>)"
  by (rule calmI) (auto simp: same_identity_def assms intro!: trail_transition)

lemma calm_not_modified: "calm s (fst (not_modified env cfg now weekly resp s))"
proof -
  let ?s1 = "on_feed (f_last_successful_fetch_at_update (\<lambda>_. Some now)) s"
  define s2 where "s2 = (if f_status (fs_feed ?s1) = BROKEN
    then ?s1\<lparr>fs_events := transition_feed (fs_feed ?s1) ACTIVE ''http_304_recovery'' (fs_events ?s1),
            fs_feed := (fs_feed ?s1)\<lparr>f_status := ACTIVE, f_consecutive_failures := 0, f_last_error_code := None\<rparr>\<rparr>
    else ?s1)"
  have "calm s ?s1" by (rule calm_quiet) (simp_all add: same_identity_def)
  moreover have "calm ?s1 s2" unfolding s2_def using calm_recovery [of ?s1] by (simp add: calmly.evolve_refl)
  moreover have hint: "calm s (s\<lparr>fs_server_hint := h\<rparr>)" for s h by (rule calm_quiet) simp_all
  have "calm s2 (fst (not_modified env cfg now weekly resp s))"
    unfolding not_modified_def Let_def s2_def [symmetric]
    by (intro calmly.evolve_lift calmly.evolve_and_then calmly.evolve_trans [OF hint calm_schedule])
      (simp add: calm_observe)
  ultimately show ?thesis using calmly.evolve_trans by blast
qed

lemma calm_rate_limited: "calm s (fst (rate_limited env cfg now resp s))"
proof -
  let ?s1 = "\<lambda>s. on_feed (f_last_error_code_update (\<lambda>_. Some RATE_LIMITED)) s"
  have "calm s (?s1 s)" for s by (rule calm_quiet) (simp_all add: same_identity_def)
  moreover have "calm s (on_feed (f_next_fetch_at_update (\<lambda>_. t)) s
      \<lparr>fs_events := observe_fetch r el None (fs_events s)\<rparr>)" for s t r el
    by (rule calmI) (auto simp: same_identity_def trail_def observe_fetch_def)
  ultimately show ?thesis unfolding rate_limited_def Let_def
    by (intro calmly.evolve_lift) (rule calmly.evolve_trans, assumption, rule calmly.evolve_lift, unfold fst_conv, assumption)
qed

lemma persist_moved_frame [simp]:
  "f_id (persist_moved r f) = f_id f" "f_url (persist_moved r f) = f_url f"
  "f_created_at (persist_moved r f) = f_created_at f" "f_status (persist_moved r f) = f_status f"
  "f_last_attempt_at (persist_moved r f) = f_last_attempt_at f"
  "f_consecutive_failures (persist_moved r f) = f_consecutive_failures f"
  "f_last_successful_fetch_at (persist_moved r f) = f_last_successful_fetch_at f"
  by (simp_all add: persist_moved_def)

lemma calm_receive: "calm s (fst (receive cfg resp s))"
proof -
  have "calm s (on_feed (persist_moved resp) s)" for s
    by (rule calm_quiet) (simp_all add: same_identity_def)
  then show ?thesis unfolding receive_def
    by (intro calmly.evolve_lift) (rule calmly.evolve_trans, assumption,
        rule calmly.evolve_lift, simp add: calmly.evolve_refl)
qed

lemma fst_with_timeout [simp]: "fst (with_timeout x o1) = fst o1"
  by (auto simp: with_timeout_def split: prod.splits sum.splits)

lemma calm_handle_response: "calm s (fst (handle_response env cfg now weekly host resp s))"
proof -
  have "calm s (s\<lparr>fs_domains := insert host (fs_domains s)\<rparr>)" by (rule calm_quiet) auto
  then show ?thesis unfolding handle_response_def
    by (auto simp: calm_not_modified calm_rate_limited calm_receive calmly.evolve_refl
        intro!: calmly.evolve_lift split: sum.splits)
qed

lemma calm_obtain: "calm s (fst (obtain_document env cfg now weekly s))"
  unfolding obtain_document_def Let_def
  by (auto intro!: calmly.evolve_lift simp: calm_handle_response calmly.evolve_refl)

lemma db_evolves_upsert: "db_evolves i d (fst (upsert_entries accepts i ps now dn d))"
proof -
  obtain fresh where f: "map row_identity (entries_tbl (foldl (upsert_one i now dn) d (takeWhile accepts ps))) =
      map row_identity (entries_tbl d) @ fresh" "fresh_rows i now (entries_seq d) fresh"
    using foldl_upsert_identity by blast
  then have "list_all (\<lambda>r. entries_seq d \<le> fst r) fresh"
    unfolding fresh_rows_def by (auto simp: list_all_iff)
  with f(1) show ?thesis unfolding db_evolves_def
    by (simp add: upsert_entries_seq_mono upsert_entries_db_ok upsert_entries_other_feed) (simp add: upsert_entries_eq)
qed

lemma evolves_store_entries: "evolves s (fst (store_entries env cfg now ps s))"
  using db_evolves_upsert [of "f_id (fs_feed s)" "fs_db s"]
  by (auto simp: store_entries_def evolves_def Let_def split: prod.splits) (metis fst_conv)

lemma calm_succeed: "calm s (succeed now title s)"
proof (rule calmI)
  show "trail (fs_feed s, fs_events s) (fs_feed (succeed now title s), fs_events (succeed now title s))"
    using success_op.op_trail [of "fs_feed s" "fs_events s" now title]
    by (simp add: succeed_def case_prod_unfold Let_def)
  show "same_identity (fs_feed s) (fs_feed (succeed now title s))"
    using success_op.op_identity [of "fs_feed s" now title "fs_events s"]
    by (simp add: succeed_def case_prod_unfold Let_def)
qed (auto simp: succeed_def mark_fetch_success_def Let_def split: prod.splits option.splits if_splits)

lemma remember_validators_frame [simp]:
  "f_id (remember_validators hs f) = f_id f" "f_url (remember_validators hs f) = f_url f"
  "f_created_at (remember_validators hs f) = f_created_at f" "f_status (remember_validators hs f) = f_status f"
  "f_last_attempt_at (remember_validators hs f) = f_last_attempt_at f"
  "f_consecutive_failures (remember_validators hs f) = f_consecutive_failures f"
  "f_last_successful_fetch_at (remember_validators hs f) = f_last_successful_fetch_at f"
  "f_last_error_code (remember_validators hs f) = f_last_error_code f"
  by (simp_all add: remember_validators_def Let_def split: option.splits)

lemma calm_validators: "calm s (on_feed (remember_validators hs) (succeed now title s))"
  by (rule calmly.evolve_trans [OF calm_succeed]) (rule calm_quiet, auto simp: same_identity_def)

lemma calm_hint_observed:
  "calm s (s\<lparr>fs_server_hint := h, fs_events := observe_fetch r el c (fs_events s)\<rparr>)"
  by (rule calmI) (simp_all add: trail_observe)

lemma evolves_ingest: "evolves s (fst (ingest env cfg now hs body s))"
proof (cases "is_not_a_feed_content_type (hs ''content-type'')")
  case False
  show ?thesis unfolding ingest_def if_not_P [OF False]
    by (intro fetching.evolve_lift fetching.evolve_and_then [OF evolves_store_entries])
      (rule calm_evolves, rule calmly.evolve_trans [OF calm_validators], rule calmly.evolve_lift,
        unfold fst_conv, rule calm_hint_observed)
qed (simp add: ingest_def fetching.evolve_refl)

lemma evolves_attempt: "evolves s (fst (attempt env cfg now weekly s))"
  unfolding attempt_def
  by (rule fetching.evolve_and_then [OF calm_evolves [OF calm_obtain]])
    (auto intro!: fetching.evolve_and_then [OF evolves_ingest] simp: fetching.evolve_refl split: fetched.splits)

lemma calm_record_failure: "calm s (fst (record_failure env cfg now e s))"
proof -
  define m where "m = mark_fetch_failure (fs_feed s) now (classify_error e) (broken_threshold (fc_policy cfg))
    (fc_dead_duration_days cfg) (fs_events s)"
  obtain f ev r where m: "m = ((f, ev), r)" by (metis prod.exhaust)
  have "calm s (s\<lparr>fs_feed := f, fs_events := ev\<rparr>)"
  proof (rule calmI)
    show "trail (fs_feed s, fs_events s) (fs_feed (s\<lparr>fs_feed := f, fs_events := ev\<rparr>), fs_events (s\<lparr>fs_feed := f, fs_events := ev\<rparr>))"
      using failure_op.op_trail [of "fs_feed s" "fs_events s" now "classify_error e"] m [unfolded m_def] by (simp, metis fst_conv)
    show "same_identity (fs_feed s) (fs_feed (s\<lparr>fs_feed := f, fs_events := ev\<rparr>))"
      using failure_op.op_identity [of "fs_feed s" now "classify_error e"] m [unfolded m_def] by (simp, metis fst_conv)
    show "f_last_attempt_at (fs_feed (s\<lparr>fs_feed := f, fs_events := ev\<rparr>)) = f_last_attempt_at (fs_feed s)"
      using m by (auto simp: m_def mark_fetch_failure_def Let_def split: if_splits sum.splits)
  qed simp_all
  moreover have "calm s (s\<lparr>fs_events := observe_fetch r el c (fs_events s @ [LogFetchFailed a b c' d])\<rparr>)" for s r el c a b c' d
    by (rule calmI) (auto simp: trail_def observe_fetch_def split: option.splits)
  ultimately show ?thesis unfolding record_failure_def Let_def m_def [symmetric] m prod.case
    by (intro calmly.evolve_and_then) simp_all
qed

lemma evolves_fetch_one:
  "evolves (on_feed (f_last_attempt_at_update (\<lambda>_. Some now)) s) (fst (fetch_one env cfg now s))"
proof -
  let ?s0 = "on_feed (f_last_attempt_at_update (\<lambda>_. Some now)) s"
    and ?s1 = "on_feed (f_last_attempt_at_update (\<lambda>_. Some now)) s\<lparr>fs_server_hint := None\<rparr>"
  have "evolves ?s0 ?s1" by (rule calm_evolves, rule calm_quiet) simp_all
  moreover have "evolves ?s1 (fst (fetch_one env cfg now s))"
    unfolding fetch_one_def Let_def
  proof (rule fetching.evolve_lift)
    fix cutoff
    let ?w = "weekly_entry_count (fs_db ?s1) (f_id (fs_feed ?s1)) cutoff"
    obtain s' r where a: "attempt env cfg now ?w ?s1 = (s', r)" by fastforce
    then have "evolves ?s1 s'" using evolves_attempt [of ?s1 env cfg now ?w] by simp
    moreover have "evolves s' (fst (and_then (record_failure env cfg now e s') (\<lambda>s _. schedule_next env cfg now ?w s)))" for e
      by (rule fetching.evolve_and_then [OF calm_evolves [OF calm_record_failure] calm_evolves [OF calm_schedule]])
    ultimately show "evolves ?s1 (fst (case attempt env cfg now ?w ?s1 of
          (s', Inr True) \<Rightarrow> (s', Inr ())
        | (s', Inr False) \<Rightarrow> schedule_next env cfg now ?w s'
        | (s', Inl e) \<Rightarrow> if caught e
            then and_then (record_failure env cfg now e s') (\<lambda>s _. schedule_next env cfg now ?w s)
            else (s', Inl e)))"
      unfolding a by (auto intro: fetching.evolve_trans calm_evolves [OF calm_schedule] split: sum.splits bool.splits)
  qed
  ultimately show ?thesis by (rule fetching.evolve_trans)
qed

section \<open>What a fetch stores\<close>

definition stores :: "fetch_env \<Rightarrow> fetch_config \<Rightarrow> instant \<Rightarrow> int \<Rightarrow> db \<Rightarrow> db \<Rightarrow> bool" where
  "stores env cfg now i d d' \<longleftrightarrow> d' = d \<or>
     (\<exists>ps. d' = fst (upsert_entries (env_accepts env) i (entries_to_upsert cfg (has_entries d i) ps) now
        (env_db_now env) d))"

lemma stores_store_entries:
  "stores env cfg now (f_id (fs_feed s)) (fs_db s) (fs_db (fst (store_entries env cfg now ps s)))"
  by (auto simp: stores_def store_entries_def Let_def case_prod_unfold)

lemma ingest_db:
  "stores env cfg now (f_id (fs_feed s)) (fs_db s) (fs_db (fst (ingest env cfg now hs body s)))"
proof (cases "is_not_a_feed_content_type (hs ''content-type'')")
  case False
  show ?thesis
  proof (cases "parse_sync (env_fp_parse env) body")
    case (Inr parsed)
    obtain s' r where st: "store_entries env cfg now (pf_entries parsed) s = (s', r)" by fastforce
    have "calm s' (fst (and_then (lift_result (on_feed (remember_validators hs) (succeed now (pf_title parsed) s'))
        (parse_cache_hint (env_parsedate env) hs now))
      (\<lambda>s hint. (s\<lparr>fs_server_hint := ttl_hint (pf_ttl_seconds parsed) hint,
          fs_events := observe_fetch ''success'' (env_elapsed env) None (fs_events s)\<rparr>, Inr ()))))"
      by (rule calmly.evolve_trans [OF calm_validators], rule calmly.evolve_lift,
          unfold fst_conv, rule calm_hint_observed)
    from calm_db [OF this] have "fs_db (fst (ingest env cfg now hs body s)) = fs_db s'"
      using False Inr st by (cases r) (simp_all add: ingest_def lift_result_def)
    then show ?thesis using stores_store_entries [of env cfg now s "pf_entries parsed"] st by simp
  qed (use False in \<open>simp add: ingest_def lift_result_def stores_def\<close>)
qed (simp add: ingest_def stores_def)

lemma attempt_db:
  "stores env cfg now (f_id (fs_feed s)) (fs_db s) (fs_db (fst (attempt env cfg now weekly s)))"
proof -
  obtain s' r where ob: "obtain_document env cfg now weekly s = (s', r)" by fastforce
  with calm_obtain [of s env cfg now weekly] have s': "fs_db s' = fs_db s" "f_id (fs_feed s') = f_id (fs_feed s)"
    by (auto dest: calm_db calm_evolves evolves_id)
  show ?thesis
  proof (cases r)
    case (Inr doc)
    have "fs_db (fst (and_then o1 (\<lambda>s _. (s, Inr b)))) = fs_db (fst o1)" for o1 :: "(fetch_state, exn, unit) outcome" and b :: bool
      by (cases o1; cases "snd o1") auto
    with Inr show ?thesis
      using ob s' ingest_db [of env cfg now s']
      by (cases doc) (simp_all add: attempt_def stores_def)
  qed (use ob s' in \<open>simp add: attempt_def stores_def\<close>)
qed

lemma fetch_one_db:
  "stores env cfg now (f_id (fs_feed s)) (fs_db s) (fs_db (fst (fetch_one env cfg now s)))"
proof -
  let ?s1 = "on_feed (f_last_attempt_at_update (\<lambda>_. Some now)) s\<lparr>fs_server_hint := None\<rparr>"
  show ?thesis
  proof (cases "try_bind (timedelta_days 7) (\<lambda>week. dt_add now (- week))")
    case (Inr cutoff)
    let ?w = "weekly_entry_count (fs_db ?s1) (f_id (fs_feed ?s1)) cutoff"
    obtain s' r where a: "attempt env cfg now ?w ?s1 = (s', r)" by fastforce
    have "fs_db (fst (and_then (record_failure env cfg now e s') (\<lambda>s _. schedule_next env cfg now ?w s))) = fs_db s'" for e
      by (rule calm_db, rule calmly.evolve_and_then [OF calm_record_failure calm_schedule])
    moreover have "fs_db (fst (schedule_next env cfg now ?w s')) = fs_db s'"
      by (rule calm_db, rule calm_schedule)
    ultimately have "fs_db (fst (fetch_one env cfg now s)) = fs_db s'"
      using Inr a by (auto simp: fetch_one_def Let_def lift_result_def split: sum.splits bool.splits)
    then show ?thesis using attempt_db [of env cfg now ?s1 ?w] a by simp
  qed (simp add: fetch_one_def lift_result_def stores_def)
qed

section \<open>What a fetch reports\<close>

definition reports ::
  "fetch_state \<Rightarrow> (fetch_state, exn, 'a) outcome \<Rightarrow> ('a \<Rightarrow> string list set) \<Rightarrow> bool" where
  "reports s oc F \<longleftrightarrow> (\<exists>rs. results_of (fs_events (fst oc)) = results_of (fs_events s) @ rs \<and>
     (case snd oc of Inl _ \<Rightarrow> rs = [] | Inr a \<Rightarrow> rs \<in> F a))"

lemma reports_and_then:
  assumes "reports s o1 (\<lambda>_. {[]})" "\<And>s' a. o1 = (s', Inr a) \<Longrightarrow> reports s' (k s' a) F"
  shows "reports s (and_then o1 k) F"
  using assms by (cases o1; cases "snd o1") (auto simp: reports_def)

lemma reports_lift:
  assumes "results_of (fs_events s') = results_of (fs_events s)" "\<And>a. r = Inr a \<Longrightarrow> reports s' (k s' a) F"
  shows "reports s (and_then (lift_result s' r) k) F"
  using assms by (cases r) (auto simp: reports_def lift_result_def)

lemma results_transition [simp]: "results_of (transition_feed f st r ev) = results_of ev"
  by (simp add: transition_feed_def)

lemma results_success [simp]: "results_of (snd (mark_fetch_success f now title ev)) = results_of ev"
  by (simp add: mark_fetch_success_def Let_def)

lemma results_failure [simp]: "results_of (snd (fst (mark_fetch_failure f now c bt dd ev))) = results_of ev"
  by (auto simp: mark_fetch_failure_def Let_def split: sum.splits)

lemma reports_schedule: "reports s (schedule_next env cfg now weekly s) (\<lambda>_. {[]})"
  unfolding schedule_next_def by (rule reports_lift) (auto simp: reports_def)

definition early :: "fetched \<Rightarrow> string list set" where
  "early x = (case x of Returned \<Rightarrow> {[''not_modified''], [''rate_limited'']} | Document _ _ \<Rightarrow> {[]})"

lemma reports_not_modified: "reports s (not_modified env cfg now weekly resp s) early"
proof -
  have sched: "reports s (schedule_next env cfg now weekly (s\<lparr>fs_server_hint := h\<rparr>)) (\<lambda>_. {[]})" for s h
    using reports_schedule [of "s\<lparr>fs_server_hint := h\<rparr>"] by (simp add: reports_def)
  show ?thesis unfolding not_modified_def Let_def
    by (rule reports_lift, simp, rule reports_and_then [OF sched]) (simp add: reports_def early_def)
qed

lemma reports_rate_limited: "reports s (rate_limited env cfg now resp s) early"
  unfolding rate_limited_def Let_def
  by (rule reports_lift, simp, rule reports_lift, simp) (simp add: reports_def early_def)

lemma reports_receive: "reports s (receive cfg resp s) early"
  unfolding receive_def
  by (rule reports_lift, simp, rule reports_lift, simp) (simp add: reports_def early_def)

lemma reports_handle_response: "reports s (handle_response env cfg now weekly host resp s) early"
  unfolding handle_response_def
  by (auto simp: reports_not_modified reports_rate_limited reports_receive intro!: reports_lift split: sum.splits)
    (simp_all add: reports_def early_def)

lemma reports_with_timeout: "reports s o1 F \<Longrightarrow> reports s (with_timeout x o1) F"
  by (auto simp: reports_def with_timeout_def split: prod.splits sum.splits)

lemma reports_obtain: "reports s (obtain_document env cfg now weekly s) early"
  unfolding obtain_document_def Let_def
  by (auto intro!: reports_lift reports_with_timeout reports_handle_response)
    (simp add: reports_def early_def)

lemma results_store_entries: "fs_events (fst (store_entries env cfg now ps s)) = fs_events s"
  by (simp add: store_entries_def Let_def case_prod_unfold)

lemma reports_ingest: "reports s (ingest env cfg now hs body s) (\<lambda>_. {[''success'']})"
proof (cases "is_not_a_feed_content_type (hs ''content-type'')")
  case False
  have store: "reports s (store_entries env cfg now ps s) (\<lambda>_. {[]})" for ps
    by (simp add: reports_def results_store_entries split: sum.splits)
  show ?thesis unfolding ingest_def if_not_P [OF False]
    by (rule reports_lift, simp, rule reports_and_then [OF store], rule reports_lift)
      (simp_all add: reports_def succeed_def case_prod_unfold Let_def)
qed (simp add: ingest_def reports_def)

lemma reports_attempt:
  "reports s (attempt env cfg now weekly s)
     (\<lambda>returned. if returned then {[''not_modified''], [''rate_limited'']} else {[''success'']})"
proof -
  obtain s' r where ob: "obtain_document env cfg now weekly s = (s', r)" by fastforce
  with reports_obtain [of s env cfg now weekly] have o1: "reports s (s', r) early" by simp
  show ?thesis
  proof (cases r)
    case (Inl e)
    with ob o1 show ?thesis by (simp add: attempt_def reports_def)
  next
    case (Inr doc)
    show ?thesis
    proof (cases doc)
      case Returned
      with ob o1 Inr show ?thesis by (simp add: attempt_def reports_def early_def)
    next
      case (Document hs body)
      with o1 Inr have same: "results_of (fs_events s') = results_of (fs_events s)"
        by (simp add: reports_def early_def)
      obtain s'' r' where i: "ingest env cfg now hs body s' = (s'', r')" by fastforce
      with reports_ingest [of s' env cfg now hs body] same ob Inr Document show ?thesis
        by (cases r') (simp_all add: attempt_def reports_def)
    qed
  qed
qed

lemma reports_record_failure: "reports s (record_failure env cfg now e s) (\<lambda>_. {[''error'']})"
proof -
  obtain f ev r where m: "mark_fetch_failure (fs_feed s) now (classify_error e) (broken_threshold (fc_policy cfg))
    (fc_dead_duration_days cfg) (fs_events s) = ((f, ev), r)" by (metis prod.exhaust)
  then have "results_of ev = results_of (fs_events s)"
    using results_failure [of "fs_feed s" now "classify_error e"] by (metis fst_conv snd_conv)
  then show ?thesis by (cases r) (simp_all add: record_failure_def m reports_def Let_def)
qed

section \<open>A concrete fetch\<close>

definition sample_config :: fetch_config where
  "sample_config = \<lparr>fc_policy = sample_policy, fc_user_agent = ''feedgate'', fc_max_bytes = 100,
     fc_max_entries_per_fetch = 200, fc_max_entries_initial = 50, fc_total_budget_seconds = 30,
     fc_dead_duration_days = 7\<rparr>"

definition sample_response :: "int \<Rightarrow> http_response" where
  "sample_response code = \<lparr>h_status_code = code, h_headers = (\<lambda>_. None), h_history = [],
     h_url = ''http://a.example/f'',
     h_raise_for_status = (if 200 \<le> code \<and> code < 300 then Inr () else Inl (raise_exn (HTTPStatusError code))),
     h_chunks = [Inr ''<rss/>'']\<rparr>"

definition sample_env :: "http_response \<Rightarrow> fetch_env" where
  "sample_env resp = \<lparr>env_dns = (\<lambda>_. Inr [''93.184.216.34'']), env_dns_fallback = (\<lambda>_. Inr [''93.184.216.34'']),
     env_stream = (\<lambda>_ _. Inr resp), env_budget_expired = False, env_curl = None, env_mk_headers = (\<lambda>_ _. None),
     env_parsedate = (\<lambda>_. Inl (raise_exn ValueError)), env_fp_parse = (\<lambda>_. Inr sample_fp_result),
     env_accepts = (\<lambda>_. True), env_reject_aborts = True, env_db_now = 1000000000000001, env_random = 1 / 2,
     env_elapsed = 1\<rparr>"

definition sample_state :: fetch_state where
  "sample_state = \<lparr>fs_feed = sample_feed, fs_db = sample_db, fs_domains = {}, fs_events = [],
     fs_server_hint = None, fs_aborted = False\<rparr>"

definition sample_now :: instant where
  "sample_now = 1000000000000000"

abbreviation sample_run :: "int \<Rightarrow> (fetch_state, exn, unit) outcome" where
  "sample_run code \<equiv> fetch_one (sample_env (sample_response code)) sample_config sample_now sample_state"

lemma sample_url_public:
  "validate_public_url (\<lambda>_. Inr [''93.184.216.34'']) ''http://a.example/f'' True = Inr ()"
  by code_simp

lemma sample_run_completes: "sample_run 200 = (fst (sample_run 200), Inr ())"
proof -
  have "snd (sample_run 200) = Inr ()" by code_simp
  then show ?thesis by (metis prod.collapse)
qed

lemma sample_state_row: "db_ok (fs_db sample_state)" "feed_by_id (fs_db sample_state) 1 = Some (fs_feed sample_state)"
  by (simp_all add: sample_state_def sample_db_ok feed_by_id_def) (simp add: sample_db_def sample_feed_def)

section \<open>Properties of a whole fetch\<close>

abbreviation started :: "instant \<Rightarrow> fetch_state \<Rightarrow> fetch_state" where
  "started now s \<equiv> on_feed (f_last_attempt_at_update (\<lambda>_. Some now)) s\<lparr>fs_server_hint := None\<rparr>"

definition week_before :: "instant \<Rightarrow> exn + instant" where
  "week_before now = try_bind (timedelta_days 7) (\<lambda>week. dt_add now (- week))"

abbreviation recent_entries :: "fetch_state \<Rightarrow> instant \<Rightarrow> int" where
  "recent_entries s cutoff \<equiv> weekly_entry_count (fs_db s) (f_id (fs_feed s)) cutoff"

lemma fetch_one_unfold:
  assumes "week_before now = Inr cutoff"
  shows "fetch_one env cfg now s =
    (case attempt env cfg now (recent_entries s cutoff) (started now s) of
       (s', Inr True) \<Rightarrow> (s', Inr ())
     | (s', Inr False) \<Rightarrow> schedule_next env cfg now (recent_entries s cutoff) s'
     | (s', Inl e) \<Rightarrow>
         if caught e
         then and_then (record_failure env cfg now e s') (\<lambda>s2 _. schedule_next env cfg now (recent_entries s cutoff) s2)
         else (s', Inl e))"
proof -
  have "recent_entries (started now s) cutoff = recent_entries s cutoff" by simp
  then show ?thesis
    unfolding fetch_one_def week_before_def [symmetric] Let_def assms lift_result_def and_then_simps(2)
    by (simp only:)
qed

lemma fetch_one_no_week: "week_before now = Inl e \<Longrightarrow> fetch_one env cfg now s = (started now s, Inl e)"
  by (simp add: fetch_one_def week_before_def lift_result_def)

text \<open>
  C24: A fetch that completes is counted exactly once in \<open>feedgate_fetch_total\<close>, under one of the
  four documented results.
\<close>

theorem fetch_observed_once:
  assumes "fetch_one env cfg now s = (t, Inr ())"
  shows "\<exists>r \<in> {''success'', ''not_modified'', ''rate_limited'', ''error''}.
    results_of (fs_events t) = results_of (fs_events s) @ [r]"
proof (cases "week_before now")
  case (Inr cutoff)
  let ?w = "recent_entries s cutoff"
  obtain s' r where a: "attempt env cfg now ?w (started now s) = (s', r)" by fastforce
  note unf = fetch_one_unfold [OF Inr, of env cfg s, unfolded a] assms
  have rep: "reports s (s', r) (\<lambda>returned. if returned then {[''not_modified''], [''rate_limited'']} else {[''success'']})"
    using reports_attempt [of "started now s" env cfg now ?w] a by (simp add: reports_def)
  have sched: "reports x (schedule_next env cfg now ?w x) (\<lambda>_. {[]})" for x by (rule reports_schedule)
  show ?thesis
  proof (cases r)
    case (Inl e)
    have "reports s' (record_failure env cfg now e s') (\<lambda>_. {[''error'']})" by (rule reports_record_failure)
    moreover obtain s2 where "record_failure env cfg now e s' = (s2, Inr ())"
      and "schedule_next env cfg now ?w s2 = (t, Inr ())"
      using unf Inl by (cases "record_failure env cfg now e s'"; cases "snd (record_failure env cfg now e s')")
        (auto split: if_splits)
    ultimately show ?thesis using rep sched [of s2] Inl by (simp add: reports_def)
  next
    case (Inr returned)
    show ?thesis
    proof (cases returned)
      case True
      with unf Inr have "t = s'" by simp
      with rep Inr True show ?thesis by (auto simp: reports_def)
    next
      case False
      with unf Inr have "schedule_next env cfg now ?w s' = (t, Inr ())" by simp
      with rep sched [of s'] Inr False show ?thesis by (simp add: reports_def)
    qed
  qed
qed (use assms fetch_one_no_week in auto)

theorem fetch_observed_once_witness:
  "\<exists>r \<in> {''success'', ''not_modified'', ''rate_limited'', ''error''}.
     results_of (fs_events (fst (sample_run 200))) = results_of (fs_events sample_state) @ [r]"
  by (rule fetch_observed_once [OF sample_run_completes])

text \<open>
  C3: Whatever happens during a fetch, raised exceptions included, every change of the feed's
  status follows the documented lifecycle and is recorded: the transitions counted during the
  fetch form a path of lifecycle edges from the status before to the status after.
\<close>

theorem fetch_follows_lifecycle:
  "\<exists>new. fs_events (fst (fetch_one env cfg now s)) = fs_events s @ new \<and>
     lifecycle_path (f_status (fs_feed s)) (transitions_of new) (f_status (fs_feed (fst (fetch_one env cfg now s))))"
  using evolves_fetch_one [of now s env cfg] by (simp add: evolves_def trail_def)

text \<open>
  What any of the program's activities may do to the database as a whole: feeds keep their
  identity, and a row with an id handed out earlier is a row that was there, with its key and
  its \<open>fetched_at\<close>.
\<close>

definition steady :: "db \<Rightarrow> db \<Rightarrow> bool" where
  "steady d d' \<longleftrightarrow> entries_seq d \<le> entries_seq d' \<and>
     (\<forall>i f. feed_by_id d i = Some f \<longrightarrow> (\<exists>g. feed_by_id d' i = Some g \<and> same_identity f g)) \<and>
     (\<forall>e \<in> set (entries_tbl d'). e_id e < entries_seq d \<longrightarrow> row_identity e \<in> row_identity ` set (entries_tbl d))"

interpretation steadily: state_evolution steady
proof
  show "steady d d" for d by (simp add: steady_def)
  show "steady d d''" if "steady d d'" "steady d' d''" for d d' d''
  proof -
    have "row_identity e \<in> row_identity ` set (entries_tbl d)" if "e \<in> set (entries_tbl d'')" "e_id e < entries_seq d" for e
    proof -
      have "e_id e < entries_seq d'" using that(2) \<open>steady d d'\<close> by (simp add: steady_def)
      with that(1) \<open>steady d' d''\<close> obtain e' where e': "e' \<in> set (entries_tbl d')" "row_identity e = row_identity e'"
        by (auto simp: steady_def)
      then have "e_id e' < entries_seq d" using that(2) by (simp add: row_identity_def)
      with e' \<open>steady d d'\<close> show ?thesis by (auto simp: steady_def)
    qed
    with that show ?thesis unfolding steady_def by (meson order_trans same_identity_trans)
  qed
qed

lemma steady_rows:
  assumes "map row_identity (entries_tbl d') = map row_identity (entries_tbl d) @ fresh"
    "list_all (\<lambda>r. entries_seq d \<le> fst r) fresh" "e \<in> set (entries_tbl d')" "e_id e < entries_seq d"
  shows "row_identity e \<in> row_identity ` set (entries_tbl d)"
proof -
  have "row_identity e \<in> set (map row_identity (entries_tbl d'))" using assms(3) by simp
  then have "row_identity e \<in> row_identity ` set (entries_tbl d) \<or> row_identity e \<in> set fresh"
    unfolding assms(1) by auto
  with assms(2,4) show ?thesis by (fastforce simp: list_all_iff row_identity_def)
qed

lemma commit_fetch_one:
  assumes "db_ok (fs_db s)" "feed_by_id (fs_db s) i = Some (fs_feed s)"
    and "t = fst (fetch_one env cfg now s)" "d = flush_feed (fs_db t) (fs_feed t)"
  shows "db_ok d" "same_identity (fs_feed s) (fs_feed t)" "feed_by_id d i = Some (fs_feed t)"
    "j \<noteq> i \<Longrightarrow> feed_by_id d j = feed_by_id (fs_db s) j" "j \<noteq> i \<Longrightarrow> entries_of d j = entries_of (fs_db s) j"
    "\<exists>fresh. map row_identity (entries_tbl d) = map row_identity (entries_tbl (fs_db s)) @ fresh"
    "f_id ` set (feeds_tbl d) = f_id ` set (feeds_tbl (fs_db s))" "steady (fs_db s) d"
proof -
  from evolves_fetch_one [of now s env cfg] have ev:
    "same_identity (fs_feed s) (fs_feed t)" "db_evolves (f_id (fs_feed s)) (fs_db s) (fs_db t)"
    by (simp_all add: assms(3) evolves_def same_identity_def)
  have i: "f_id (fs_feed s) = i" "i \<in> f_id ` set (feeds_tbl (fs_db s))"
    using feed_by_id_Some [OF assms(2)] by auto
  have same: "feed_by_id (fs_db t) j = feed_by_id (fs_db s) j" for j
    using ev(2) by (simp add: db_evolves_def feed_by_id_def)
  have ok: "db_ok (fs_db t)" using ev(2) assms(1) i by (simp add: db_evolves_def)
  have "db_ok d" unfolding assms(4)
    by (rule db_ok_flush_feed [OF ok, of i "fs_feed s"]) (use ev(1) same assms(2) in \<open>simp_all add: same_identity_def\<close>)
  moreover have by_id: "feed_by_id d j = (if j = i then Some (fs_feed t) else feed_by_id (fs_db s) j)" for j
    using feed_by_id_flush [of "fs_db t" "fs_feed t" "fs_feed s" j] ev(1) i(1) same assms(2)
    by (simp add: assms(4) same_identity_def)
  moreover have "entries_tbl d = entries_tbl (fs_db t)" by (simp add: assms(4))
  moreover have "f_id ` set (feeds_tbl d) = f_id ` set (feeds_tbl (fs_db s))"
    unfolding assms(4) ids_flush using ev(2) by (simp add: db_evolves_def)
  moreover have "steady (fs_db s) d"
  proof -
    have "entries_seq d = entries_seq (fs_db t)" by (simp add: assms(4))
    moreover obtain fresh where "map row_identity (entries_tbl d) = map row_identity (entries_tbl (fs_db s)) @ fresh"
        "list_all (\<lambda>r. entries_seq (fs_db s) \<le> fst r) fresh"
      using ev(2) assms(4) unfolding db_evolves_def by auto
    ultimately show ?thesis unfolding steady_def
      using ev by_id assms(2) i(1) steady_rows [of d "fs_db s" fresh]
      by (auto simp: db_evolves_def)
  qed
  ultimately show "db_ok d" "same_identity (fs_feed s) (fs_feed t)" "feed_by_id d i = Some (fs_feed t)"
    "j \<noteq> i \<Longrightarrow> feed_by_id d j = feed_by_id (fs_db s) j" "j \<noteq> i \<Longrightarrow> entries_of d j = entries_of (fs_db s) j"
    "\<exists>fresh. map row_identity (entries_tbl d) = map row_identity (entries_tbl (fs_db s)) @ fresh"
    "f_id ` set (feeds_tbl d) = f_id ` set (feeds_tbl (fs_db s))" "steady (fs_db s) d"
    using ev i(1) unfolding db_evolves_def entries_of_def by (simp_all, blast)
qed

text \<open>
  C4: A fetch keeps the database consistent and stays within its feed: after the object is
  written back, all keys are still unique and every entry has its feed, no other feed's row or
  entries have changed, no stored entry is lost or gets a new \<open>fetched_at\<close>, and the feed's id,
  URL and creation time are what they were.
\<close>

theorem fetch_keeps_database:
  assumes "db_ok (fs_db s)" "feed_by_id (fs_db s) i = Some (fs_feed s)"
    and "t = fst (fetch_one env cfg now s)" "d = flush_feed (fs_db t) (fs_feed t)"
  shows "db_ok d \<and> same_identity (fs_feed s) (fs_feed t) \<and> feed_by_id d i = Some (fs_feed t) \<and>
    (\<forall>j. j \<noteq> i \<longrightarrow> feed_by_id d j = feed_by_id (fs_db s) j \<and> entries_of d j = entries_of (fs_db s) j) \<and>
    (\<exists>fresh. map row_identity (entries_tbl d) = map row_identity (entries_tbl (fs_db s)) @ fresh)"
  using commit_fetch_one [OF assms] by blast

theorem fetch_keeps_database_witness:
  "db_ok (flush_feed (fs_db (fst (sample_run 200))) (fs_feed (fst (sample_run 200))))"
  using fetch_keeps_database [OF sample_state_row refl refl] by blast

end
