(* ===== verification/Fetch_Outcomes.thy ===== *)
theory Fetch_Outcomes
  imports Http
begin

text \<open>
  What one call of \<open>fetch_one\<close> (\<open>fetcher/http.py\<close>) does in each situation the code
  distinguishes: an HTTP error, a rate limit, an unmodified document, a document stored, a URL
  refused by the SSRF guard, an oversized body, a feed with more entries than the caps allow,
  an answer of the impersonating fallback, and a cache hint beyond the calendar.
\<close>

section \<open>Situations\<close>

text \<open>The server's answer to the direct request is \<open>resp\<close>.\<close>

definition answered :: "fetch_env \<Rightarrow> fetch_config \<Rightarrow> fetch_state \<Rightarrow> http_response \<Rightarrow> bool" where
  "answered env cfg s resp \<longleftrightarrow>
     (let url = f_effective_url (fs_feed s) in
      validate_public_url (env_dns env) url True = Inr () \<and>
      (\<exists>parts. urlsplit url = Inr parts \<and> (case hostname parts of Some h \<Rightarrow> h | None \<Rightarrow> []) \<notin> fs_domains s) \<and>
      env_stream env url (request_headers cfg (fs_feed s)) = Inr resp)"

lemma request_headers_attempt [simp]:
  "request_headers cfg (f_last_attempt_at_update g f) = request_headers cfg f"
  by (simp add: request_headers_def conditional_headers_def split: option.splits)

lemma obtain_answered:
  assumes "answered env cfg s resp"
  shows "\<exists>host. obtain_document env cfg now w (started now s) =
    with_timeout (env_budget_expired env) (handle_response env cfg now w host resp (started now s))"
  using assms by (auto simp: answered_def obtain_document_def Let_def lift_result_def)

lemma with_timeout_Inr [simp]: "with_timeout b (s, Inr a) = (s, Inr a)"
  by (simp add: with_timeout_def)

lemma with_timeout_caught [simp]: "caught e \<Longrightarrow> with_timeout b (s, Inl e) = (s, Inl e)"
  by (simp add: with_timeout_def is_Exception_def)

lemma schedule_next_frame [simp]:
  "f_status (fs_feed (fst (schedule_next env cfg now w s))) = f_status (fs_feed s)"
  "f_consecutive_failures (fs_feed (fst (schedule_next env cfg now w s))) = f_consecutive_failures (fs_feed s)"
  "f_last_error_code (fs_feed (fst (schedule_next env cfg now w s))) = f_last_error_code (fs_feed s)"
  "f_last_successful_fetch_at (fs_feed (fst (schedule_next env cfg now w s))) = f_last_successful_fetch_at (fs_feed s)"
  "f_last_attempt_at (fs_feed (fst (schedule_next env cfg now w s))) = f_last_attempt_at (fs_feed s)"
  "fs_db (fst (schedule_next env cfg now w s)) = fs_db s"
  "fs_server_hint (fst (schedule_next env cfg now w s)) = fs_server_hint s"
  "fs_events (fst (schedule_next env cfg now w s)) = fs_events s"
  by (cases "compute_next_fetch_at (fs_feed s) now (fc_policy cfg) (fs_server_hint s) w (env_random env)",
      simp_all add: schedule_next_def lift_result_def)+

lemma mark_fetch_failure_feed:
  "f_last_error_code (fst (fst (mark_fetch_failure f now c bt dd ev))) = Some c"
  "f_consecutive_failures (fst (fst (mark_fetch_failure f now c bt dd ev))) = f_consecutive_failures f + 1"
  "f_last_successful_fetch_at (fst (fst (mark_fetch_failure f now c bt dd ev))) = f_last_successful_fetch_at f"
  "c = HTTP_410 \<Longrightarrow> f_status (fst (fst (mark_fetch_failure f now c bt dd ev))) = DEAD"
  "c = HTTP_410 \<Longrightarrow> snd (mark_fetch_failure f now c bt dd ev) = Inr ()"
  by (auto simp: mark_fetch_failure_def Let_def split: sum.splits)

lemma record_failure_feed:
  "fs_feed (fst (record_failure env cfg now e s)) =
     fst (fst (mark_fetch_failure (fs_feed s) now (classify_error e) (broken_threshold (fc_policy cfg))
       (fc_dead_duration_days cfg) (fs_events s)))"
  "fs_db (fst (record_failure env cfg now e s)) = fs_db s"
proof -
  obtain f ev r where m: "mark_fetch_failure (fs_feed s) now (classify_error e) (broken_threshold (fc_policy cfg))
    (fc_dead_duration_days cfg) (fs_events s) = ((f, ev), r)" by (metis prod.exhaust)
  show "fs_feed (fst (record_failure env cfg now e s)) =
     fst (fst (mark_fetch_failure (fs_feed s) now (classify_error e) (broken_threshold (fc_policy cfg))
       (fc_dead_duration_days cfg) (fs_events s)))" "fs_db (fst (record_failure env cfg now e s)) = fs_db s"
    by (cases r; simp add: record_failure_def m Let_def)+
qed

text \<open>After a caught exception the feed is what \<open>mark_fetch_failure\<close> makes of it, but for the schedule.\<close>

lemma and_then_schedule:
  "P (fs_feed (fst o1)) (fs_db (fst o1)) \<Longrightarrow> (\<And>f d g. P f d \<Longrightarrow> P (f_next_fetch_at_update g f) d) \<Longrightarrow>
   P (fs_feed (fst (and_then o1 (\<lambda>s _. schedule_next env cfg now w s))))
     (fs_db (fst (and_then o1 (\<lambda>s _. schedule_next env cfg now w s))))"
  by (cases o1; cases "snd o1")
    (auto simp: schedule_next_def lift_result_def and_then_def split: sum.splits)

lemma fetch_one_failed:
  assumes "week_before now = Inr cutoff"
    and "attempt env cfg now (recent_entries s cutoff) (started now s) = (s', Inl e)" "caught e"
    and "t = fst (fetch_one env cfg now s)"
  shows "f_last_error_code (fs_feed t) = Some (classify_error e)"
    "f_consecutive_failures (fs_feed t) = f_consecutive_failures (fs_feed s') + 1"
    "f_last_successful_fetch_at (fs_feed t) = f_last_successful_fetch_at (fs_feed s')"
    "classify_error e = HTTP_410 \<Longrightarrow> f_status (fs_feed t) = DEAD"
    "fs_db t = fs_db s'"
proof -
  let ?P = "\<lambda>f d. f_last_error_code f = Some (classify_error e) \<and>
      f_consecutive_failures f = f_consecutive_failures (fs_feed s') + 1 \<and>
      f_last_successful_fetch_at f = f_last_successful_fetch_at (fs_feed s') \<and>
      (classify_error e = HTTP_410 \<longrightarrow> f_status f = DEAD) \<and> d = fs_db s'"
  have "?P (fs_feed t) (fs_db t)"
    unfolding assms(4) fetch_one_unfold [OF assms(1)] assms(2) prod.case sum.case if_P [OF assms(3)]
    by (rule and_then_schedule) (simp_all add: record_failure_feed mark_fetch_failure_feed)
  then show "f_last_error_code (fs_feed t) = Some (classify_error e)"
    "f_consecutive_failures (fs_feed t) = f_consecutive_failures (fs_feed s') + 1"
    "f_last_successful_fetch_at (fs_feed t) = f_last_successful_fetch_at (fs_feed s')"
    "classify_error e = HTTP_410 \<Longrightarrow> f_status (fs_feed t) = DEAD"
    "fs_db t = fs_db s'" by blast+
qed

text \<open>
  The whole row after a failure: five columns and no others. The threshold and the time limit only
  matter to feeds that are active or broken.
\<close>

definition after_failure :: "fetch_config \<Rightarrow> int \<Rightarrow> instant \<Rightarrow> error_code \<Rightarrow> feed \<Rightarrow> feed" where
  "after_failure cfg limit now code f =
     f\<lparr>f_last_attempt_at := Some now, f_last_error_code := Some code,
       f_consecutive_failures := f_consecutive_failures f + 1,
       f_status :=
         (if code = HTTP_410 then DEAD
          else if f_status f = BROKEN \<or>
              f_status f = ACTIVE \<and> broken_threshold (fc_policy cfg) \<le> f_consecutive_failures f + 1
            then (if limit \<le> now - reference_time f then DEAD else BROKEN)
          else f_status f)\<rparr>"

definition rescheduled :: "fetch_env \<Rightarrow> fetch_config \<Rightarrow> instant \<Rightarrow> int \<Rightarrow> feed \<Rightarrow> feed" where
  "rescheduled env cfg now weekly f =
     (case compute_next_fetch_at f now (fc_policy cfg) None weekly (env_random env) of
        Inr t \<Rightarrow> f\<lparr>f_next_fetch_at := t\<rparr> | Inl _ \<Rightarrow> f)"

lemma mark_fetch_failure_row:
  assumes "timedelta_days dd = Inr limit" "bt = broken_threshold (fc_policy cfg)" "g = f_last_attempt_at_update (\<lambda>_. Some now) f"
  shows "fst (fst (mark_fetch_failure g now c bt dd ev)) = after_failure cfg limit now c f \<and>
    snd (mark_fetch_failure g now c bt dd ev) = Inr ()"
proof (cases "c = HTTP_410")
  case False
  then show ?thesis
    using assms by (cases "f_status f"; cases "f_last_successful_fetch_at f")
      (simp_all add: mark_fetch_failure_def after_failure_def reference_time_def Let_def)
qed (use assms in \<open>simp add: mark_fetch_failure_def after_failure_def Let_def\<close>)

lemma fetch_one_failed_row:
  assumes "week_before now = Inr cutoff"
    and "attempt env cfg now (recent_entries s cutoff) (started now s) = (started now s, Inl e)" "caught e"
    and "timedelta_days (fc_dead_duration_days cfg) = Inr limit"
  shows "fs_feed (fst (fetch_one env cfg now s)) =
    rescheduled env cfg now (recent_entries s cutoff) (after_failure cfg limit now (classify_error e) (fs_feed s))"
proof -
  obtain f ev r where m: "mark_fetch_failure (fs_feed (started now s)) now (classify_error e) (broken_threshold (fc_policy cfg))
    (fc_dead_duration_days cfg) (fs_events (started now s)) = ((f, ev), r)" by (metis prod.exhaust)
  have "f = after_failure cfg limit now (classify_error e) (fs_feed s)" "r = Inr ()"
    using mark_fetch_failure_row [OF assms(4) refl, where cfg = cfg and g = "fs_feed (started now s)" and now = now
        and f = "fs_feed s" and c = "classify_error e" and ev = "fs_events (started now s)"] m by simp_all
  then show ?thesis
    unfolding fetch_one_unfold [OF assms(1)] assms(2) prod.case sum.case if_P [OF assms(3)]
    by (cases "compute_next_fetch_at f now (fc_policy cfg) None (recent_entries s cutoff) (env_random env)")
      (simp_all add: record_failure_def m [simplified] Let_def schedule_next_def lift_result_def rescheduled_def)
qed

section \<open>HTTP errors\<close>

lemma attempt_http_error:
  assumes "answered env cfg s resp" "documented_response resp"
    and "400 \<le> h_status_code resp" "h_status_code resp < 600" "h_status_code resp \<notin> {403, 429}"
  shows "attempt env cfg now w (started now s) =
    (started now s, Inl (raise_exn (HTTPStatusError (h_status_code resp))))"
proof -
  have "h_raise_for_status resp = Inl (raise_exn (HTTPStatusError (h_status_code resp)))"
    using assms(2-4) by (simp add: documented_response_def)
  then have "handle_response env cfg now w host resp x = (x, Inl (raise_exn (HTTPStatusError (h_status_code resp))))" for host x
    using assms(3,5) by (simp add: handle_response_def receive_def lift_result_def)
  with obtain_answered [OF assms(1), of now w] show ?thesis
    by (auto simp: attempt_def is_Exception_def)
qed

text \<open>
  C14: An error status other than 403 and 429 is a failed attempt, whatever else the response
  says: the failure counter goes up by one, the class of the status becomes the error code, the
  time of the last success and the stored entries stay, and status 410 makes the feed dead at
  once from any state. If \<open>dead_duration_days\<close> is a representable duration, the whole row is
  given: beside these columns only the time of the attempt and of the next fetch move, and the
  status, which is \<open>dead\<close> after a 410, \<open>broken\<close> or \<open>dead\<close> from the threshold on, and the old one
  otherwise. This also holds of a dead feed, for which \<open>docs/spec/feed.md\<close> and
  \<open>docs/spec/resilience.md\<close> say that a failed probe moves \<open>last_attempt_at\<close> only: the code counts
  the failure and replaces the error code.
\<close>

theorem http_error_recorded:
  assumes "answered env cfg s resp" "documented_response resp" "week_before now = Inr cutoff"
    and "400 \<le> h_status_code resp" "h_status_code resp < 600" "h_status_code resp \<notin> {403, 429}"
    and "t = fst (fetch_one env cfg now s)"
    and "code = (if h_status_code resp = 410 then HTTP_410 else if h_status_code resp < 500 then HTTP_4XX else HTTP_5XX)"
  shows "f_consecutive_failures (fs_feed t) = f_consecutive_failures (fs_feed s) + 1 \<and>
    f_last_error_code (fs_feed t) = Some code \<and>
    f_last_successful_fetch_at (fs_feed t) = f_last_successful_fetch_at (fs_feed s) \<and>
    (h_status_code resp = 410 \<longrightarrow> f_status (fs_feed t) = DEAD) \<and> fs_db t = fs_db s \<and>
    (\<forall>limit. timedelta_days (fc_dead_duration_days cfg) = Inr limit \<longrightarrow>
       fs_feed t = rescheduled env cfg now (recent_entries s cutoff) (after_failure cfg limit now code (fs_feed s)))"
proof -
  let ?e = "raise_exn (HTTPStatusError (h_status_code resp))"
  have code: "classify_error ?e = code" using assms(4,5) by (simp add: classify_error_def assms(8))
  have e: "caught ?e" by (simp add: is_Exception_def)
  note a = attempt_http_error [OF assms(1,2,4,5,6)]
  note f = fetch_one_failed [OF assms(3) a e assms(7)]
  note row = fetch_one_failed_row [OF assms(3) a e, folded assms(7), unfolded code]
  have "h_status_code resp = 410 \<Longrightarrow> code = HTTP_410" using assms(8) by simp
  with f code row show ?thesis by simp
qed

lemma sample_answered: "answered (sample_env resp) sample_config sample_state resp"
proof -
  have "urlsplit ''http://a.example/f'' = Inr \<lparr>u_scheme = ''http'', u_netloc = ''a.example'', u_path = ''/f'', u_query = [], u_fragment = []\<rparr>"
    by code_simp
  then show ?thesis using sample_url_public
    by (simp add: answered_def sample_env_def sample_state_def sample_feed_def)
qed

lemma sample_week: "week_before sample_now = Inr (sample_now - 604800000000)"
  by code_simp

theorem http_error_recorded_witness:
  "f_status (fs_feed (fst (sample_run 410))) = DEAD \<and>
   f_last_error_code (fs_feed (fst (sample_run 503))) = Some HTTP_5XX"
  using http_error_recorded [OF sample_answered [of "sample_response 410"] _ sample_week _ _ _ refl refl]
    http_error_recorded [OF sample_answered [of "sample_response 503"] _ sample_week _ _ _ refl refl]
  by (simp add: sample_response_def documented_response_def)

section \<open>Rate limits\<close>

lemma rate_limited_ok:
  assumes "parse_retry_after (env_parsedate env) (h_headers resp ''retry-after'') now = Inr ra"
    and wait: "wait = max (hint_seconds ra) (base_interval_seconds (fc_policy cfg))"
    and "0 \<le> base_interval_seconds (fc_policy cfg)" "valid_instant now" "valid_instant (now + wait * US)"
  shows "rate_limited env cfg now resp s =
    (s\<lparr>fs_feed := (fs_feed s)\<lparr>f_last_error_code := Some RATE_LIMITED, f_next_fetch_at := now + wait * US\<rparr>,
       fs_events := observe_fetch ''rate_limited'' (env_elapsed env) None (fs_events s)\<rparr>, Inr Returned)"
proof -
  have "0 \<le> wait" using assms(3) by (simp add: wait)
  then obtain t where "try_bind (timedelta_seconds (of_int wait)) (dt_add now) = Inr t"
    "now + wait * US \<le> t" "t \<le> now + wait * US"
    using add_seconds_ok [OF assms(4,5), of wait "of_int wait"] by auto
  then show ?thesis using assms(1)
    unfolding rate_limited_def Let_def wait hint_seconds_def by (simp add: lift_result_def)
qed

text \<open>
  C19: A 429 is not a failure: status, failure counter, last success and stored entries stay as
  they are, the code \<open>rate_limited\<close> is recorded, and the next fetch is exactly
  \<open>max(Retry-After, base interval)\<close> seconds away, so never sooner than the normal poll rate.
\<close>

theorem rate_limit_is_not_a_failure:
  assumes "answered env cfg s resp" "h_status_code resp = 429" "week_before now = Inr cutoff"
    and "parse_retry_after (env_parsedate env) (h_headers resp ''retry-after'') now = Inr ra"
    and "wait = max (hint_seconds ra) (base_interval_seconds (fc_policy cfg))"
    and "0 \<le> base_interval_seconds (fc_policy cfg)" "valid_instant now" "valid_instant (now + wait * US)"
  shows "\<exists>t. fetch_one env cfg now s = (t, Inr ()) \<and>
    fs_feed t = (fs_feed s)\<lparr>f_last_attempt_at := Some now, f_last_error_code := Some RATE_LIMITED,
      f_next_fetch_at := now + wait * US\<rparr> \<and> fs_db t = fs_db s"
proof -
  let ?w = "recent_entries s cutoff"
  have "handle_response env cfg now ?w host resp x = rate_limited env cfg now resp x" for host x
    using assms(2) by (simp add: handle_response_def)
  then have "attempt env cfg now ?w (started now s) =
      (fst (rate_limited env cfg now resp (started now s)), Inr True)"
    using obtain_answered [OF assms(1), of now ?w] rate_limited_ok [OF assms(4-8)]
    by (auto simp: attempt_def)
  then show ?thesis using fetch_one_unfold [OF assms(3), of env cfg s] rate_limited_ok [OF assms(4-8)]
    by simp
qed

theorem rate_limit_is_not_a_failure_witness:
  "\<exists>t. sample_run 429 = (t, Inr ()) \<and> f_next_fetch_at (fs_feed t) = sample_now + 60000000"
proof -
  have "parse_retry_after (env_parsedate (sample_env (sample_response 429)))
      (h_headers (sample_response 429) ''retry-after'') sample_now = Inr None"
    by (simp add: sample_response_def parse_retry_after_def)
  from rate_limit_is_not_a_failure [OF sample_answered _ sample_week this refl] show ?thesis
    by (auto simp: sample_response_def sample_config_def sample_policy_def sample_now_def hint_seconds_def
        valid_instant_def dt_min_def dt_max_def US_def)
qed

section \<open>Unmodified documents\<close>

definition after_304 :: "instant \<Rightarrow> feed \<Rightarrow> feed" where
  "after_304 now f =
     (if f_status f = BROKEN
      then f\<lparr>f_last_attempt_at := Some now, f_last_successful_fetch_at := Some now, f_status := ACTIVE,
             f_consecutive_failures := 0, f_last_error_code := None\<rparr>
      else f\<lparr>f_last_attempt_at := Some now, f_last_successful_fetch_at := Some now\<rparr>)"

lemma not_modified_eq:
  assumes "parse_cache_hint (env_parsedate env) (h_headers resp) now = Inr hint"
    and "compute_next_fetch_at (after_304 now (fs_feed s)) now (fc_policy cfg) hint w (env_random env) = Inr next_at"
  shows "\<exists>t. not_modified env cfg now w resp (started now s) = (t, Inr Returned) \<and>
    fs_feed t = (after_304 now (fs_feed s))\<lparr>f_next_fetch_at := next_at\<rparr> \<and> fs_db t = fs_db s"
  using assms
  by (cases "f_status (fs_feed s) = BROKEN")
    (simp_all add: not_modified_def after_304_def schedule_next_def lift_result_def Let_def)

text \<open>
  C32: A 304 counts as a success but not as a full one: the time of the last success moves, no
  entry changes, a broken feed becomes active with its counter and error code cleared, while
  the status, the counter and the error code of an active or dead feed stay as they were. In
  particular a dead feed that answers its probe with 304 stays dead.
\<close>

theorem unmodified_document:
  assumes "answered env cfg s resp" "h_status_code resp = 304" "week_before now = Inr cutoff"
    and "parse_cache_hint (env_parsedate env) (h_headers resp) now = Inr hint"
    and "compute_next_fetch_at (after_304 now (fs_feed s)) now (fc_policy cfg) hint (recent_entries s cutoff)
      (env_random env) = Inr next_at"
  shows "\<exists>t. fetch_one env cfg now s = (t, Inr ()) \<and> fs_db t = fs_db s \<and>
    fs_feed t = (after_304 now (fs_feed s))\<lparr>f_next_fetch_at := next_at\<rparr> \<and>
    f_status (fs_feed t) = (if f_status (fs_feed s) = BROKEN then ACTIVE else f_status (fs_feed s))"
proof -
  let ?w = "recent_entries s cutoff"
  obtain t where t: "not_modified env cfg now ?w resp (started now s) = (t, Inr Returned)"
    "fs_feed t = (after_304 now (fs_feed s))\<lparr>f_next_fetch_at := next_at\<rparr>" "fs_db t = fs_db s"
    using not_modified_eq [OF assms(4,5)] by blast
  have "handle_response env cfg now ?w host resp x = not_modified env cfg now ?w resp x" for host x
    using assms(2) by (simp add: handle_response_def)
  then have "attempt env cfg now ?w (started now s) = (t, Inr True)"
    using obtain_answered [OF assms(1), of now ?w] t(1) by (auto simp: attempt_def)
  then show ?thesis using fetch_one_unfold [OF assms(3), of env cfg s] t
    by (simp add: after_304_def)
qed

theorem unmodified_document_witness:
  "\<exists>t. sample_run 304 = (t, Inr ()) \<and> f_last_successful_fetch_at (fs_feed t) = Some sample_now"
proof -
  have hint: "parse_cache_hint (env_parsedate (sample_env (sample_response 304))) (h_headers (sample_response 304)) sample_now = Inr None"
    by code_simp
  have next_at: "compute_next_fetch_at (after_304 sample_now (fs_feed sample_state)) sample_now (fc_policy sample_config) None
      (recent_entries sample_state (sample_now - 604800000000)) (env_random (sample_env (sample_response 304))) =
      Inr (sample_now + 60000000)"
    by code_simp
  have "h_status_code (sample_response 304) = 304" by (simp add: sample_response_def)
  from unmodified_document [OF sample_answered this sample_week hint next_at] show ?thesis
    by (auto simp: after_304_def)
qed

section \<open>Stored documents\<close>

lemma succeed_feed:
  "f_status (fs_feed (succeed now title s)) = ACTIVE"
  "f_consecutive_failures (fs_feed (succeed now title s)) = 0"
  "f_last_error_code (fs_feed (succeed now title s)) = None"
  "f_last_successful_fetch_at (fs_feed (succeed now title s)) = Some now"
  by (auto simp: succeed_def mark_fetch_success_def Let_def split: option.splits)

lemma ingest_ok:
  assumes "ingest env cfg now hs body s = (t, Inr ())"
  shows "f_status (fs_feed t) = ACTIVE \<and> f_consecutive_failures (fs_feed t) = 0 \<and>
    f_last_error_code (fs_feed t) = None \<and> f_last_successful_fetch_at (fs_feed t) = Some now"
  using assms
  by (auto simp: ingest_def lift_result_def and_then_def succeed_feed split: if_splits sum.splits prod.splits)

lemma success_attempt:
  assumes "fetch_one env cfg now s = (t, Inr ())" "week_before now = Inr cutoff"
    and "results_of (fs_events t) = results_of (fs_events s) @ [''success'']"
  obtains s' where "attempt env cfg now (recent_entries s cutoff) (started now s) = (s', Inr False)"
    "t = fst (schedule_next env cfg now (recent_entries s cutoff) s')"
proof -
  let ?w = "recent_entries s cutoff"
  obtain s' r where a: "attempt env cfg now ?w (started now s) = (s', r)" by fastforce
  note unf = fetch_one_unfold [OF assms(2), of env cfg s, unfolded a] assms(1)
  have rep: "reports s (s', r) (\<lambda>returned. if returned then {[''not_modified''], [''rate_limited'']} else {[''success'']})"
    using reports_attempt [of "started now s" env cfg now ?w] a by (simp add: reports_def)
  have "r = Inr False"
  proof (cases r)
    case (Inl e)
    then obtain s2 where "record_failure env cfg now e s' = (s2, Inr ())"
        and "schedule_next env cfg now ?w s2 = (t, Inr ())"
      using unf by (cases "record_failure env cfg now e s'"; cases "snd (record_failure env cfg now e s')")
        (auto split: if_splits)
    moreover have "fs_events t = fs_events s2" using schedule_next_frame(8) calculation(2) by (metis fst_conv)
    ultimately have "results_of (fs_events t) = results_of (fs_events s) @ [''error'']"
      using reports_record_failure [of s' env cfg now e] rep Inl by (simp add: reports_def)
    with assms(3) show ?thesis by simp
  next
    case (Inr returned)
    then show ?thesis using unf rep assms(3) by (cases returned) (auto simp: reports_def)
  qed
  moreover from this have "t = fst (schedule_next env cfg now ?w s')" using unf by (simp, metis fst_conv)
  ultimately show thesis using that a by blast
qed

text \<open>
  A fetch that completes and is counted as a success leaves the feed active with a clean
  record: no failures, no error code, and the last success and the last attempt at \<open>now\<close>. It
  holds whatever the status was before, dead included.
\<close>

theorem success_resets_feed:
  assumes "fetch_one env cfg now s = (t, Inr ())"
    and "results_of (fs_events t) = results_of (fs_events s) @ [''success'']"
  shows "f_status (fs_feed t) = ACTIVE \<and> f_consecutive_failures (fs_feed t) = 0 \<and>
    f_last_error_code (fs_feed t) = None \<and> f_last_successful_fetch_at (fs_feed t) = Some now \<and>
    f_last_attempt_at (fs_feed t) = Some now"
proof -
  from assms(1) obtain cutoff where w: "week_before now = Inr cutoff"
    using fetch_one_no_week by (cases "week_before now") force+
  obtain s' where a: "attempt env cfg now (recent_entries s cutoff) (started now s) = (s', Inr False)"
    "t = fst (schedule_next env cfg now (recent_entries s cutoff) s')" by (rule success_attempt [OF assms(1) w assms(2)])
  then obtain hs body s0 where "ingest env cfg now hs body s0 = (s', Inr ())"
    by (auto simp: attempt_def and_then_def split: prod.splits sum.splits fetched.splits)
  from ingest_ok [OF this] show ?thesis using a(2) evolves_fetch_one [of now s env cfg] assms(1)
    by (simp add: evolves_def)
qed

theorem success_resets_feed_witness: "f_status (fs_feed (fst (sample_run 200))) = ACTIVE"
proof -
  have "results_of (fs_events (fst (sample_run 200))) = results_of (fs_events sample_state) @ [''success'']"
    by code_simp
  from success_resets_feed [OF sample_run_completes this] show ?thesis by blast
qed

section \<open>Refused URLs\<close>

text \<open>
  C20: A feed whose URL the SSRF check refuses is never requested: the whole fetch does not
  depend on the HTTP client or on the impersonating client, no matter what they would do, and
  it is recorded as a failed attempt, with code \<open>blocked\<close> when the check raised
  \<open>BlockedURLError\<close>. If \<open>dead_duration_days\<close> is a representable duration, the whole row is given by
  \<open>after_failure\<close>. The failure is counted from any status; for a dead feed \<open>docs/spec/feed.md\<close> and
  \<open>docs/spec/resilience.md\<close> say that a failed probe moves \<open>last_attempt_at\<close> only, which the code does
  not do.
\<close>

theorem refused_url_is_not_requested:
  assumes "validate_public_url (env_dns env) (f_effective_url (fs_feed s)) True = Inl e" "caught e"
    and "week_before now = Inr cutoff" "t = fst (fetch_one env cfg now s)"
  shows "fetch_one (env\<lparr>env_stream := stream, env_curl := curl\<rparr>) cfg now s = fetch_one env cfg now s \<and>
    f_consecutive_failures (fs_feed t) = f_consecutive_failures (fs_feed s) + 1 \<and>
    f_last_error_code (fs_feed t) = Some (classify_error e) \<and>
    (exn_cls e = BlockedURLError \<longrightarrow> f_last_error_code (fs_feed t) = Some BLOCKED) \<and> fs_db t = fs_db s \<and>
    (\<forall>limit. timedelta_days (fc_dead_duration_days cfg) = Inr limit \<longrightarrow>
       fs_feed t = rescheduled env cfg now (recent_entries s cutoff) (after_failure cfg limit now (classify_error e) (fs_feed s)))"
proof -
  let ?env = "env\<lparr>env_stream := stream, env_curl := curl\<rparr>"
  have att: "attempt x cfg now w (started now s) = (started now s, Inl e)" if "env_dns x = env_dns env" for x w
    using assms(1) that by (simp add: attempt_def obtain_document_def lift_result_def)
  have "record_failure ?env cfg now e x = record_failure env cfg now e x" for x
    by (simp add: record_failure_def)
  moreover have "schedule_next ?env cfg now w x = schedule_next env cfg now w x" for w x
    by (simp add: schedule_next_def)
  ultimately have "fetch_one ?env cfg now s = fetch_one env cfg now s"
    by (simp add: fetch_one_unfold [OF assms(3)] att)
  moreover have "exn_cls e = BlockedURLError \<Longrightarrow> classify_error e = BLOCKED" by (simp add: classify_error_def)
  moreover note fetch_one_failed [OF assms(3) att [OF refl] assms(2,4)]
  moreover note fetch_one_failed_row [OF assms(3) att [OF refl] assms(2), folded assms(4)]
  ultimately show ?thesis by simp
qed

theorem refused_url_is_not_requested_witness:
  "f_last_error_code (fs_feed (fst (fetch_one (sample_env (sample_response 200)) sample_config sample_now
     (on_feed (f_effective_url_update (\<lambda>_. ''http://127.0.0.1/f'')) sample_state)))) = Some BLOCKED"
proof -
  let ?s = "on_feed (f_effective_url_update (\<lambda>_. ''http://127.0.0.1/f'')) sample_state"
  have "validate_public_url (env_dns (sample_env (sample_response 200))) (f_effective_url (fs_feed ?s)) True =
      Inl (raise_exn BlockedURLError)"
    by code_simp
  then have "f_last_error_code (fs_feed (fst (fetch_one (sample_env (sample_response 200)) sample_config sample_now ?s))) =
      Some (classify_error (raise_exn BlockedURLError))"
    by (intro refused_url_is_not_requested [OF _ _ sample_week refl, THEN conjunct2, THEN conjunct2, THEN conjunct1])
      (simp_all add: is_Exception_def)
  then show ?thesis by (simp add: classify_error_def)
qed

section \<open>Size limits\<close>

lemma read_body_iff:
  assumes "seen = int (length acc)" "seen \<le> mb"
  shows "read_body mb chunks seen acc = Inr body \<longleftrightarrow>
    list_all (\<lambda>c. \<not> isl c) chunks \<and> body = acc @ concat (map projr chunks) \<and> int (length body) \<le> mb"
  using assms
proof (induction mb chunks seen acc rule: read_body.induct)
  case (3 mb chunk chunks seen acc)
  show ?case
  proof (cases "seen + int (length chunk) > mb")
    case True
    then show ?thesis using 3 by (auto simp: Let_def)
  next
    case False
    then show ?thesis using "3.IH" [OF refl] 3 by (auto simp: Let_def)
  qed
qed auto

text \<open>
  Reading the body is concatenation with a limit: with a non-negative limit the streaming
  loop returns a body exactly if every chunk arrives and the chunks together are no longer than
  \<open>max_bytes\<close>, and then it returns their concatenation; a stream whose first chunks already
  exceed the limit ends in \<open>ResponseTooLargeError\<close> even if a later read would fail or the
  stream would never end.
\<close>

theorem read_body_is_bounded_concat:
  assumes "0 \<le> mb"
  shows "(read_body mb chunks 0 [] = Inr body \<longleftrightarrow>
      list_all (\<lambda>c. \<not> isl c) chunks \<and> body = concat (map projr chunks) \<and> int (length body) \<le> mb) \<and>
    (list_all (\<lambda>c. \<not> isl c) chunks \<and> int (length (concat (map projr chunks))) > mb \<longrightarrow>
      read_body mb (chunks @ rest) 0 [] = Inl (raise_exn ResponseTooLargeError))"
proof -
  have "list_all (\<lambda>c. \<not> isl c) chunks \<and> seen + int (length (concat (map projr chunks))) > mb \<Longrightarrow> seen \<le> mb \<Longrightarrow>
      read_body mb (chunks @ rest) seen acc = Inl (raise_exn ResponseTooLargeError)" for seen acc
  proof (induction chunks arbitrary: seen acc)
    case (Cons a chunks)
    then show ?case by (cases a) (auto simp: Let_def)
  qed simp
  from this [of 0 "[]"] show ?thesis using read_body_iff [of 0 "[]" mb chunks body] assms by simp
qed

theorem read_body_is_bounded_concat_witness:
  "read_body 4 [Inr ''ab'', Inr ''cd''] 0 [] = Inr ''abcd'' \<and>
   read_body 4 ([Inr ''ab'', Inr ''cde''] @ [Inl (raise_exn TimeoutError)]) 0 [] = Inl (raise_exn ResponseTooLargeError)"
  using read_body_is_bounded_concat [of 4 "[Inr ''ab'', Inr ''cd'']" "''abcd''" "[]"]
    read_body_is_bounded_concat [of 4 "[Inr ''ab'', Inr ''cde'']" "[]" "[Inl (raise_exn TimeoutError)]"]
  by simp

lemma receive_bounded:
  assumes "0 \<le> fc_max_bytes cfg" "receive cfg resp s = (t, Inr (Document hs body))"
  shows "int (length body) \<le> fc_max_bytes cfg"
  using assms read_body_iff [of 0 "[]" "fc_max_bytes cfg" "h_chunks resp"]
  by (auto simp: receive_def lift_result_def and_then_def split: sum.splits prod.splits)

lemma call_fallback_bounded:
  "call_fallback env cfg f = Inr fb \<Longrightarrow> int (length (fb_content fb)) \<le> fc_max_bytes cfg"
  unfolding call_fallback_def by (rule fetch_via_impersonation_ok(2))

lemma not_modified_returned: "not_modified env cfg now w resp s \<noteq> (t, Inr (Document hs body))"
  by (auto simp: not_modified_def and_then_def Let_def split: sum.splits prod.splits)

lemma rate_limited_returned: "rate_limited env cfg now resp s \<noteq> (t, Inr (Document hs body))"
  by (auto simp: rate_limited_def and_then_def Let_def split: sum.splits prod.splits)

lemma handle_response_bounded:
  assumes "0 \<le> fc_max_bytes cfg" "handle_response env cfg now w host resp s = (t, Inr (Document hs body))"
  shows "int (length body) \<le> fc_max_bytes cfg"
proof -
  consider "receive cfg resp s = (t, Inr (Document hs body))"
    | fb where "call_fallback env cfg (fs_feed s) = Inr fb" "body = fb_content fb"
    using assms(2)
    by (cases "h_raise_for_status resp")
      (auto simp: handle_response_def not_modified_returned rate_limited_returned lift_result_def
        split: if_splits sum.splits)
  then show ?thesis
    by cases (use assms(1) receive_bounded call_fallback_bounded in auto)
qed

text \<open>
  No document longer than \<open>max_bytes\<close> reaches the parser, on the direct path or through
  the fallback.
\<close>

theorem parsed_documents_are_bounded:
  assumes "0 \<le> fc_max_bytes cfg" "obtain_document env cfg now w s = (t, Inr (Document hs body))"
  shows "int (length body) \<le> fc_max_bytes cfg"
proof -
  let ?url = "f_effective_url (fs_feed s)"
  have timeout: "with_timeout b o1 = (t, Inr x) \<longleftrightarrow> o1 = (t, Inr x)" for b o1 and x :: fetched
    by (auto simp: with_timeout_def split: prod.splits sum.splits)
  from assms(2) consider fb where "call_fallback env cfg (fs_feed s) = Inr fb" "body = fb_content fb"
    | host resp where "handle_response env cfg now w host resp s = (t, Inr (Document hs body))"
    by (cases "validate_public_url (env_dns env) ?url True"; cases "urlsplit ?url";
        cases "call_fallback env cfg (fs_feed s)"; cases "env_stream env ?url (request_headers cfg (fs_feed s))")
      (auto simp: obtain_document_def lift_result_def Let_def timeout split: if_splits)
  then show ?thesis
    by cases (use assms(1) handle_response_bounded call_fallback_bounded in auto)
qed

theorem parsed_documents_are_bounded_witness:
  "int (length ''<rss/>'') \<le> fc_max_bytes sample_config"
proof (rule parsed_documents_are_bounded)
  let ?r = "sample_response 200"
  have "urlsplit ''http://a.example/f'' = Inr \<lparr>u_scheme = ''http'', u_netloc = ''a.example'', u_path = ''/f'', u_query = [], u_fragment = []\<rparr>"
    by code_simp
  then show "obtain_document (sample_env ?r) sample_config sample_now 0 sample_state =
      (sample_state, Inr (Document (\<lambda>_. None) ''<rss/>''))"
    using sample_url_public
    by (simp add: obtain_document_def lift_result_def handle_response_def receive_def persist_moved_def sample_env_def
        sample_response_def sample_state_def sample_feed_def sample_config_def Let_def)
qed (simp add: sample_config_def)

section \<open>Entry caps\<close>

lemma length_entries_to_upsert:
  assumes "0 \<le> fc_max_entries_per_fetch cfg" "0 \<le> fc_max_entries_initial cfg"
  shows "int (length (entries_to_upsert cfg h ps)) \<le> fc_max_entries_per_fetch cfg"
    "\<not> h \<Longrightarrow> int (length (entries_to_upsert cfg h ps)) \<le> fc_max_entries_initial cfg"
  using assms by (auto simp: entries_to_upsert_def Let_def length_slice_to)

lemma foldl_upsert_growth:
  "length (entries_of (foldl (upsert_one i now dn) d ps) i) \<le> length (entries_of d i) + length ps"
proof (induction ps arbitrary: d)
  case (Cons p ps)
  have upd: "map e_feed_id (update_where q (overwrite p dn) rows) = map e_feed_id rows" for q rows
    by (rule map_update_where) (simp add: overwrite_def)
  have len: "length (filter (\<lambda>e. e_feed_id e = i) rows) = length (filter (\<lambda>j. j = i) (map e_feed_id rows))" for rows
    by (simp add: filter_map comp_def)
  have same: "length (filter (\<lambda>e. e_feed_id e = i) (update_where q (overwrite p dn) rows)) =
      length (filter (\<lambda>e. e_feed_id e = i) rows)" for q rows
    unfolding len upd by (rule refl)
  have "length (entries_of (upsert_one i now dn d p) i) \<le> Suc (length (entries_of d i))"
    unfolding entries_of_def by (simp add: upsert_one_def Let_def same)
  then show ?case using Cons.IH [of "upsert_one i now dn d p"] by simp
qed simp

text \<open>
  One fetch adds at most \<open>max_entries_per_fetch\<close> entries to its feed, and at most
  \<open>max_entries_initial\<close> when the feed had none, however many the document lists.
\<close>

theorem fetch_adds_boundedly_many:
  assumes "0 \<le> fc_max_entries_per_fetch cfg" "0 \<le> fc_max_entries_initial cfg"
    and "i = f_id (fs_feed s)" "old = int (length (entries_of (fs_db s) i))"
    and "new = int (length (entries_of (fs_db (fst (fetch_one env cfg now s))) i))"
  shows "new \<le> old + fc_max_entries_per_fetch cfg \<and> (old = 0 \<longrightarrow> new \<le> fc_max_entries_initial cfg)"
proof (cases "fs_db (fst (fetch_one env cfg now s)) = fs_db s")
  case False
  let ?h = "has_entries (fs_db s) i"
  from False obtain ps where "fs_db (fst (fetch_one env cfg now s)) =
      fst (upsert_entries (env_accepts env) i (entries_to_upsert cfg ?h ps) now (env_db_now env) (fs_db s))"
    using fetch_one_db [of env cfg now s] assms(3) unfolding stores_def by blast
  then have "new \<le> old + int (length (takeWhile (env_accepts env) (entries_to_upsert cfg ?h ps)))"
    using foldl_upsert_growth [of i now "env_db_now env" "fs_db s"] assms(4,5)
    by (simp add: upsert_entries_eq flip: of_nat_add)
  moreover have "length (takeWhile (env_accepts env) (entries_to_upsert cfg ?h ps)) \<le> length (entries_to_upsert cfg ?h ps)"
    by (rule length_takeWhile_le)
  ultimately have "new \<le> old + int (length (entries_to_upsert cfg ?h ps))" by linarith
  moreover have "old = 0 \<longleftrightarrow> \<not> ?h"
    using assms(4) by (auto simp: has_entries_def entries_of_def list_ex_iff filter_empty_conv)
  ultimately show ?thesis using length_entries_to_upsert [OF assms(1,2), of ?h ps] by linarith
qed (use assms in auto)

theorem fetch_adds_boundedly_many_witness:
  "int (length (entries_of (fs_db (fst (sample_run 200))) 1)) \<le> 1 + 200"
  using fetch_adds_boundedly_many [where cfg = sample_config and s = sample_state and env = "sample_env (sample_response 200)"
      and now = sample_now, OF _ _ refl refl refl]
  by (simp add: sample_config_def sample_state_def sample_feed_def sample_db_def sample_entry_def entries_of_def)

section \<open>The fallback's status\<close>

definition relabel :: "int \<Rightarrow> curl_session \<Rightarrow> curl_session" where
  "relabel k = map_option (\<lambda>get u h t. map_sum id (c_status_code_update (\<lambda>_. k)) (get u h t))"

lemma call_fallback_relabel:
  "map_sum id (\<lambda>fb. (fb_headers fb, fb_content fb)) (call_fallback (env\<lparr>env_curl := relabel k (env_curl env)\<rparr>) cfg f) =
   map_sum id (\<lambda>fb. (fb_headers fb, fb_content fb)) (call_fallback env cfg f)"
  by (cases "validate_public_url (env_dns_fallback env) (f_effective_url f) True")
    (auto simp: call_fallback_def fetch_via_impersonation_def relabel_def split: option.splits sum.splits)

text \<open>
  C33: On the impersonating path the status code of the answer is never looked at: replacing it
  by any other status, 410, 429 or 500 included, changes nothing about the fetch. An error page
  with a feed-like content type is stored as a success, and a site behind the fallback can
  neither be declared gone nor be rate limited.
\<close>

theorem fallback_status_is_ignored:
  "fetch_one (env\<lparr>env_curl := relabel k (env_curl env)\<rparr>) cfg now s = fetch_one env cfg now s"
proof -
  let ?env = "env\<lparr>env_curl := relabel k (env_curl env)\<rparr>"
  have fb: "(\<exists>e. call_fallback ?env cfg f = Inl e \<and> call_fallback env cfg f = Inl e) \<or>
      (\<exists>a b. call_fallback ?env cfg f = Inr a \<and> call_fallback env cfg f = Inr b \<and>
         fb_headers a = fb_headers b \<and> fb_content a = fb_content b)" for f
    using call_fallback_relabel [where env = env and k = k and cfg = cfg and f = f]
    by (cases "call_fallback ?env cfg f"; cases "call_fallback env cfg f") auto
  have sched: "schedule_next ?env = schedule_next env" "record_failure ?env = record_failure env"
    "store_entries ?env = store_entries env" "rate_limited ?env = rate_limited env"
    by (simp_all add: fun_eq_iff schedule_next_def record_failure_def store_entries_def rate_limited_def)
  then have nm: "not_modified ?env = not_modified env" "ingest ?env = ingest env"
    by (simp_all add: fun_eq_iff not_modified_def ingest_def)
  have "handle_response ?env cfg now w host resp x = handle_response env cfg now w host resp x" for w host resp x
    using fb [of "fs_feed x"] by (auto simp: handle_response_def sched nm)
  then have ob: "obtain_document ?env cfg now w x = obtain_document env cfg now w x" for w x
    using fb [of "fs_feed x"]
    by (cases "validate_public_url (env_dns env) (f_effective_url (fs_feed x)) True"; cases "urlsplit (f_effective_url (fs_feed x))")
      (auto simp: obtain_document_def lift_result_def Let_def)
  have att: "attempt ?env cfg now w x = attempt env cfg now w x" for w x
    unfolding attempt_def ob nm by (rule refl)
  show ?thesis unfolding fetch_one_def sched att by (rule refl)
qed

end
