(* ===== verification/Background_Loop.thy ===== *)
theory Background_Loop
  imports PyExn
begin

text \<open>
  The loop that \<open>fetcher/scheduler.py\<close> and \<open>fetcher/retention.py\<close> both run in the background
  (\<open>run\<close>): a tick, then a wait on the stop event, with an exponential backoff while ticks
  raise. The stop event is the argument \<open>stop\<close>: whether it is set when iteration \<open>n\<close> begins
  (a wait ends early when it is set, and the loop then leaves at its head). The loop may run
  forever, so it takes fuel, one unit per iteration; what it did so far is the list of waits
  and the state. A tick may raise; an \<open>Exception\<close> is swallowed, a cancellation ends the task.
\<close>

datatype loop_status = Running | Stopped | Raised exn

definition loop_timeout :: "int \<Rightarrow> int \<Rightarrow> int" where
  "loop_timeout interval consecutive_errors =
     (if consecutive_errors > 0
      then min (interval * 2 ^ nat (min (consecutive_errors - 1) 5)) 300
      else interval)"

fun background_loop ::
  "(nat \<Rightarrow> 's \<Rightarrow> ('s, exn, 'a) outcome) \<Rightarrow> (nat \<Rightarrow> bool) \<Rightarrow> int \<Rightarrow> nat \<Rightarrow> nat \<Rightarrow> int \<Rightarrow> 's \<Rightarrow>
   's \<times> int list \<times> loop_status" where
  "background_loop tick stop interval 0 n errors s = (s, [], Running)"
| "background_loop tick stop interval (Suc fuel) n errors s =
     (if stop n then (s, [], Stopped)
      else
        (case tick n s of
           (s', Inr _) \<Rightarrow>
             (let (t, waits, st) = background_loop tick stop interval fuel (Suc n) 0 s'
              in (t, loop_timeout interval 0 # waits, st))
         | (s', Inl e) \<Rightarrow>
             if caught e
             then (let (t, waits, st) = background_loop tick stop interval fuel (Suc n) (errors + 1) s'
                   in (t, loop_timeout interval (errors + 1) # waits, st))
             else (s', [], Raised e)))"

text \<open>What every background task promises of its tick, and what follows for the whole loop.\<close>

locale background_task =
  fixes tick :: "nat \<Rightarrow> 's \<Rightarrow> ('s, exn, 'a) outcome"
    and inv :: "'s \<Rightarrow> bool"
  assumes tick_inv: "inv s \<Longrightarrow> inv (fst (tick n s))"
begin

lemma loop_inv: "inv s \<Longrightarrow> inv (fst (background_loop tick stop interval fuel n errors s))"
proof (induction fuel arbitrary: n errors s)
  case (Suc fuel)
  obtain s' r where t: "tick n s = (s', r)" by fastforce
  with tick_inv [OF Suc.prems, of n] have "inv s'" by simp
  then show ?case using t Suc.IH Suc.prems by (auto simp: Let_def case_prod_unfold split: sum.splits)
qed simp

end

section \<open>Waiting times\<close>

lemma loop_timeout_error_le: "0 < n \<Longrightarrow> loop_timeout interval n \<le> 300"
  by (simp add: loop_timeout_def)

lemma loop_timeout_mono:
  assumes "0 \<le> interval" "0 < n" "n \<le> m"
  shows "loop_timeout interval n \<le> loop_timeout interval m"
proof -
  have "interval * 2 ^ nat (min (n - 1) 5) \<le> interval * 2 ^ nat (min (m - 1) 5)"
    using assms by (intro mult_left_mono power_increasing nat_mono) auto
  then show ?thesis using assms by (simp add: loop_timeout_def)
qed

text \<open>The waits after a run of ticks: errors count up from the last success.\<close>

fun expected_waits :: "int \<Rightarrow> int \<Rightarrow> bool list \<Rightarrow> int list" where
  "expected_waits interval errors [] = []"
| "expected_waits interval errors (True # oks) = interval # expected_waits interval 0 oks"
| "expected_waits interval errors (False # oks) =
     loop_timeout interval (errors + 1) # expected_waits interval (errors + 1) oks"

lemma loop_runs:
  assumes "\<And>k x e. k < fuel \<Longrightarrow> snd (tick (n + k) x) = Inl e \<Longrightarrow> caught e" "\<And>k. k < fuel \<Longrightarrow> \<not> stop (n + k)"
  shows "\<exists>t oks. background_loop tick stop interval fuel n errors s = (t, expected_waits interval errors oks, Running) \<and>
    length oks = fuel"
  using assms
proof (induction fuel arbitrary: n errors s)
  case (Suc fuel)
  obtain s' r where t: "tick n s = (s', r)" by fastforce
  have stop: "\<not> stop n" using Suc.prems(2) [of 0] by simp
  have IH: "\<exists>t oks. background_loop tick stop interval fuel (Suc n) errs s' =
      (t, expected_waits interval errs oks, Running) \<and> length oks = fuel" for errs
    using Suc.prems(1)[of "Suc k" for k] Suc.prems(2)[of "Suc k" for k] by (intro Suc.IH) auto
  show ?case
  proof (cases r)
    case (Inl e)
    with t Suc.prems(1) [of 0 s e] have e: "caught e" by simp
    from IH [of "errors + 1"] obtain u oks where
      "background_loop tick stop interval fuel (Suc n) (errors + 1) s' =
        (u, expected_waits interval (errors + 1) oks, Running)" "length oks = fuel" by blast
    with t Inl stop e have "background_loop tick stop interval (Suc fuel) n errors s =
        (u, expected_waits interval errors (False # oks), Running)" "length (False # oks) = Suc fuel" by simp_all
    then show ?thesis by blast
  next
    case (Inr a)
    from IH [of 0] obtain u oks where
      "background_loop tick stop interval fuel (Suc n) 0 s' = (u, expected_waits interval 0 oks, Running)"
      "length oks = fuel" by blast
    with t Inr stop have "background_loop tick stop interval (Suc fuel) n errors s =
        (u, expected_waits interval errors (True # oks), Running)" "length (True # oks) = Suc fuel"
      by (simp_all add: loop_timeout_def)
    then show ?thesis by blast
  qed
qed simp

lemma expected_waits_bounded:
  "w \<in> set (expected_waits interval errors oks) \<Longrightarrow> 0 \<le> errors \<Longrightarrow> 0 \<le> interval \<Longrightarrow>
     min interval 300 \<le> w \<and> w \<le> max interval 300"
proof (induction interval errors oks rule: expected_waits.induct)
  case (3 interval errors oks)
  have "interval * 1 \<le> interval * 2 ^ nat (min errors 5)"
    using "3.prems"(3) by (intro mult_left_mono) simp_all
  then have "min interval 300 \<le> loop_timeout interval (errors + 1)" "loop_timeout interval (errors + 1) \<le> 300"
    using "3.prems"(2) by (auto simp: loop_timeout_def)
  then show ?case using 3 by auto
qed auto

end
