(* ===== verification/Scheduler.thy ===== *)
theory Scheduler
  imports Fetch_Outcomes Background_Loop
begin

text \<open>
  \<open>fetcher/scheduler.py\<close>: PostgreSQL as a queue. \<open>claim_due_feeds\<close> is the \<open>UPDATE\<close> over
  \<open>SELECT ... ORDER BY next_fetch_at LIMIT n FOR UPDATE SKIP LOCKED\<close>; the rows other
  transactions hold locked are the argument \<open>locked\<close>. \<open>process_feed\<close> is one session: load,
  \<open>fetch_one\<close>, commit, with the rollback on any \<open>Exception\<close>. \<open>tick_once\<close> claims, commits and
  runs the claimed feeds. The sessions of one tick work on distinct feeds and
  \<open>Http.fetch_keeps_database\<close> shows that each touches only its own feed, so the concurrent
  execution is modelled by running them in some order, that of the ranks \<open>te_rank\<close> (on distinct
  ids every order is the order of some ranks); \<open>Interleaving\<close> shows that overlapping sessions of
  distinct feeds give each feed the same. \<open>feed_env\<close> is what
  one session cannot control: the environment of its fetch and whether loading and committing
  work.
\<close>

section \<open>Configuration and state\<close>

record scheduler_config =
  sc_fetch :: fetch_config
  sc_claim_batch_size :: int
  sc_claim_ttl_seconds :: int
  sc_dead_probe_interval_days :: int

record feed_env =
  fe_fetch :: fetch_env
  fe_load :: "exn + unit"
  fe_commit :: "exn + unit"

record tick_env =
  te_now :: instant
  te_locked :: "int \<Rightarrow> bool"
  te_rank :: "int \<Rightarrow> int"
  te_feed :: "int \<Rightarrow> feed_env"
  te_duration :: float_val

record tick_result =
  tr_claimed :: int
  tr_processed :: int
  tr_fatal_errors :: int
  tr_duration_seconds :: float_val

section \<open>Claiming\<close>

definition claim_predicate :: "instant \<Rightarrow> instant \<Rightarrow> feed \<Rightarrow> bool" where
  "claim_predicate now probe_cutoff f =
     ((f_status f \<noteq> DEAD \<and> f_next_fetch_at f \<le> now) \<or>
      (f_status f = DEAD \<and>
        (case f_last_attempt_at f of None \<Rightarrow> True | Some t \<Rightarrow> t < probe_cutoff)))"

definition claim_ids :: "(int \<Rightarrow> bool) \<Rightarrow> instant \<Rightarrow> instant \<Rightarrow> int \<Rightarrow> feed list \<Rightarrow> int list" where
  "claim_ids locked now probe_cutoff batch rows =
     map f_id (take (nat batch) (sort_key f_next_fetch_at
       (filter (\<lambda>f. claim_predicate now probe_cutoff f \<and> \<not> locked (f_id f)) rows)))"

definition lease :: "instant \<Rightarrow> instant \<Rightarrow> feed \<Rightarrow> feed" where
  "lease now lease_until f = f\<lparr>f_next_fetch_at := lease_until, f_last_attempt_at := Some now\<rparr>"

definition claim_due_feeds ::
  "(int \<Rightarrow> bool) \<Rightarrow> instant \<Rightarrow> int \<Rightarrow> int \<Rightarrow> int \<Rightarrow> db \<Rightarrow> exn + db \<times> int list" where
  "claim_due_feeds locked now claim_batch_size claim_ttl_seconds dead_probe_interval_days d =
     try_bind (try_bind (timedelta_days dead_probe_interval_days) (\<lambda>days. dt_add now (- days))) (\<lambda>probe_cutoff.
       try_bind (try_bind (timedelta_seconds (of_int claim_ttl_seconds)) (dt_add now)) (\<lambda>lease_until.
         if claim_batch_size < 0 then Inl (raise_exn DBAPIError)
         else
           (let ids = claim_ids locked now probe_cutoff claim_batch_size (feeds_tbl d)
            in Inr (d\<lparr>feeds_tbl := update_where (\<lambda>f. f_id f \<in> set ids) (lease now lease_until) (feeds_tbl d)\<rparr>,
                    map f_id (filter (\<lambda>f. f_id f \<in> set ids) (feeds_tbl d))))))"

section \<open>Processing\<close>

definition fetch_session :: "feed \<Rightarrow> world \<Rightarrow> fetch_state" where
  "fetch_session feed w = \<lparr>fs_feed = feed, fs_db = w_db w, fs_domains = w_domains w, fs_events = w_events w,
     fs_server_hint = None, fs_aborted = False\<rparr>"

definition roll_back :: "world \<Rightarrow> fetch_state \<Rightarrow> world" where
  "roll_back w s = w\<lparr>w_db := rollback_to (w_db w) (fs_db s), w_domains := fs_domains s, w_events := fs_events s\<rparr>"

definition commit_session :: "world \<Rightarrow> fetch_state \<Rightarrow> world" where
  "commit_session w s = w\<lparr>w_db := flush_feed (fs_db s) (fs_feed s), w_domains := fs_domains s, w_events := fs_events s\<rparr>"

text \<open>
  The \<open>try\<close> body. Its state is the world as a rollback would leave it now and the world as it is
  committed.
\<close>

definition process_body :: "feed_env \<Rightarrow> fetch_config \<Rightarrow> instant \<Rightarrow> int \<Rightarrow> world \<Rightarrow> (world \<times> world, exn, unit) outcome" where
  "process_body fe cfg now feed_id w =
     (case fe_load fe of
        Inl e \<Rightarrow> ((w, w), Inl e)
      | Inr _ \<Rightarrow>
          (case feed_by_id (w_db w) feed_id of
             None \<Rightarrow> ((w, w), Inr ())
           | Some feed \<Rightarrow>
               (let (s, r) = fetch_one (fe_fetch fe) cfg now (fetch_session feed w);
                    undone = roll_back w s
                in case r of
                     Inl e \<Rightarrow> ((undone, undone), Inl e)
                   | Inr _ \<Rightarrow>
                       if fs_aborted s then ((undone, undone), Inl (raise_exn DBAPIError))
                       else (case fe_commit fe of
                               Inl e \<Rightarrow> ((undone, undone), Inl e)
                             | Inr _ \<Rightarrow> ((undone, commit_session w s), Inr ())))))"

definition process_feed ::
  "feed_env \<Rightarrow> fetch_config \<Rightarrow> instant \<Rightarrow> int \<Rightarrow> world \<Rightarrow> (world, exn, bool) outcome" where
  "process_feed fe cfg now feed_id w =
     (case process_body fe cfg now feed_id (emit [InflightFetches 1] w) of
        ((undone, saved), Inr _) \<Rightarrow> (emit [InflightFetches (- 1)] saved, Inr True)
      | ((undone, saved), Inl e) \<Rightarrow>
          if caught e
          then (emit [LogProcessFatal feed_id, InflightFetches (- 1)] undone, Inr False)
          else (emit [InflightFetches (- 1)] undone, Inl e))"

fun process_all ::
  "(int \<Rightarrow> feed_env) \<Rightarrow> fetch_config \<Rightarrow> instant \<Rightarrow> int list \<Rightarrow> world \<Rightarrow> world \<times> (exn + bool) list" where
  "process_all fes cfg now [] w = (w, [])"
| "process_all fes cfg now (i # ids) w =
     (let (w1, r) = process_feed (fes i) cfg now i w;
          (w2, rs) = process_all fes cfg now ids w1
      in (w2, r # rs))"

definition tick_once :: "scheduler_config \<Rightarrow> tick_env \<Rightarrow> world \<Rightarrow> (world, exn, tick_result) outcome" where
  "tick_once cfg te w =
     (case claim_due_feeds (te_locked te) (te_now te) (sc_claim_batch_size cfg) (sc_claim_ttl_seconds cfg)
             (sc_dead_probe_interval_days cfg) (w_db w) of
        Inl e \<Rightarrow> (w, Inl e)
      | Inr (d, feed_ids) \<Rightarrow>
          if feed_ids = [] then
            (w\<lparr>w_db := d\<rparr>, Inr \<lparr>tr_claimed = 0, tr_processed = 0, tr_fatal_errors = 0,
                               tr_duration_seconds = te_duration te\<rparr>)
          else
            (let (w', outcomes) = process_all (te_feed te) (sc_fetch cfg) (te_now te) (sort_key (te_rank te) feed_ids) (w\<lparr>w_db := d\<rparr>)
             in case find isl outcomes of
                  Some r \<Rightarrow> (w', Inl (projl r))
                | None \<Rightarrow>
                    (w', Inr \<lparr>tr_claimed = int (length feed_ids),
                             tr_processed = int (length (filter (\<lambda>r. r = Inr True) outcomes)),
                             tr_fatal_errors = int (length (filter (\<lambda>r. r = Inr False) outcomes)),
                             tr_duration_seconds = te_duration te\<rparr>)))"

text \<open>One iteration of \<open>run\<close>: the tick with its metrics.\<close>

definition run_tick :: "scheduler_config \<Rightarrow> tick_env \<Rightarrow> world \<Rightarrow> (world, exn, tick_result) outcome" where
  "run_tick cfg te w = (case tick_once cfg te w of
     (w', Inr res) \<Rightarrow> (emit [TickTotal ''ok'', TickDuration (tr_duration_seconds res), LastTick,
                            ClaimedFeeds (tr_claimed res)] w', Inr res)
   | (w', Inl e) \<Rightarrow> (if caught e then emit [TickTotal ''error'', LogTickRaised] w' else w', Inl e))"

definition run :: "scheduler_config \<Rightarrow> (nat \<Rightarrow> tick_env) \<Rightarrow> (nat \<Rightarrow> bool) \<Rightarrow> nat \<Rightarrow> world \<Rightarrow> world \<times> int list \<times> loop_status" where
  "run cfg tes stop fuel w =
     background_loop (\<lambda>n. run_tick cfg (tes n)) stop (base_interval_seconds (fc_policy (sc_fetch cfg))) fuel 0 0 w"

section \<open>Facts about claims\<close>

interpretation lease_ids: row_rewrite f_id "lease now until" for now until
  by unfold_locales (simp add: lease_def)

interpretation lease_urls: row_rewrite f_url "lease now until" for now until
  by unfold_locales (simp add: lease_def)

abbreviation eligible :: "(int \<Rightarrow> bool) \<Rightarrow> instant \<Rightarrow> instant \<Rightarrow> feed \<Rightarrow> bool" where
  "eligible locked now cutoff f \<equiv> claim_predicate now cutoff f \<and> \<not> locked (f_id f)"

lemma claim_due_feedsE:
  assumes "claim_due_feeds locked now batch ttl probe d = Inr (d', ids)"
  obtains cutoff until where
    "try_bind (timedelta_days probe) (\<lambda>days. dt_add now (- days)) = Inr cutoff"
    "until = now + ttl * US" "0 \<le> batch"
    "d' = d\<lparr>feeds_tbl := update_where (\<lambda>f. f_id f \<in> set (claim_ids locked now cutoff batch (feeds_tbl d)))
        (lease now until) (feeds_tbl d)\<rparr>"
    "ids = map f_id (filter (\<lambda>f. f_id f \<in> set (claim_ids locked now cutoff batch (feeds_tbl d))) (feeds_tbl d))"
proof -
  from assms obtain cutoff until where c:
    "try_bind (timedelta_days probe) (\<lambda>days. dt_add now (- days)) = Inr cutoff"
    "try_bind (timedelta_seconds (of_int ttl)) (dt_add now) = Inr until" "0 \<le> batch"
    "d' = d\<lparr>feeds_tbl := update_where (\<lambda>f. f_id f \<in> set (claim_ids locked now cutoff batch (feeds_tbl d)))
        (lease now until) (feeds_tbl d)\<rparr>"
    "ids = map f_id (filter (\<lambda>f. f_id f \<in> set (claim_ids locked now cutoff batch (feeds_tbl d))) (feeds_tbl d))"
    unfolding claim_due_feeds_def try_bind_eq_Inr Let_def by (auto split: if_splits simp: try_bind_eq_Inr)
  moreover have "until = now + ttl * US"
    using try_timedelta [OF c(2)] by (simp add: US_def)
  ultimately show ?thesis using that by blast
qed

lemma probe_cutoff_eq:
  "try_bind (timedelta_days probe) (\<lambda>days. dt_add now (- days)) = Inr cutoff \<Longrightarrow> cutoff = now - probe * us_per_day"
  by (auto simp: try_bind_eq_Inr timedelta_days_def dt_add_eq dest!: check_timedelta_eq)

definition claimed_rows :: "(int \<Rightarrow> bool) \<Rightarrow> instant \<Rightarrow> instant \<Rightarrow> int \<Rightarrow> feed list \<Rightarrow> feed list" where
  "claimed_rows locked now cutoff batch rows =
     take (nat batch) (sort_key f_next_fetch_at (filter (eligible locked now cutoff) rows))"

lemma claim_ids_rows: "claim_ids locked now cutoff batch rows = map f_id (claimed_rows locked now cutoff batch rows)"
  by (simp add: claim_ids_def claimed_rows_def)

lemma claimed_rows_subset:
  "set (claimed_rows locked now cutoff batch rows) \<subseteq> {f \<in> set rows. eligible locked now cutoff f}"
  using set_take_sort_key [of "nat batch" f_next_fetch_at "filter (eligible locked now cutoff) rows"]
  by (auto simp: claimed_rows_def)

lemma claimed_iff:
  assumes "distinct (map f_id rows)" "f \<in> set rows"
  shows "f_id f \<in> set (claim_ids locked now cutoff batch rows) \<longleftrightarrow> f \<in> set (claimed_rows locked now cutoff batch rows)"
  using assms claimed_rows_subset [of locked now cutoff batch rows]
  by (auto simp: claim_ids_rows dest: distinct_map_eq)

lemma distinct_claim_ids:
  assumes "distinct (map f_id rows)"
  shows "distinct (claim_ids locked now cutoff batch rows)"
proof -
  let ?e = "filter (eligible locked now cutoff) rows"
  have "distinct (map f_id ?e)" using assms by (rule distinct_map_filter)
  then have "distinct (map f_id (sort_key f_next_fetch_at ?e))"
    by (simp add: distinct_map)
  then show ?thesis unfolding claim_ids_def take_map [symmetric] by (rule distinct_take)
qed

lemma length_claimed:
  assumes "distinct (map f_id rows)"
  shows "length (filter (\<lambda>f. f_id f \<in> set (claim_ids locked now cutoff batch rows)) rows) =
    min (nat batch) (length (filter (eligible locked now cutoff) rows))"
proof -
  let ?ids = "claim_ids locked now cutoff batch rows"
  have "f_id ` {f \<in> set rows. f_id f \<in> set ?ids} = set ?ids"
    using claimed_rows_subset [of locked now cutoff batch rows] by (auto simp: claim_ids_rows)
  moreover have "inj_on f_id {f \<in> set rows. f_id f \<in> set ?ids}"
    using assms by (auto simp: distinct_map inj_on_def)
  ultimately have "card {f \<in> set rows. f_id f \<in> set ?ids} = card (set ?ids)" by (metis card_image)
  also have "\<dots> = length ?ids" by (rule distinct_card) (rule distinct_claim_ids [OF assms])
  also have "\<dots> = min (nat batch) (length (filter (eligible locked now cutoff) rows))" by (simp add: claim_ids_def)
  finally show ?thesis using card_filter_distinct [OF assms] by metis
qed

lemma claim_keeps_db_ok:
  assumes "claim_due_feeds locked now batch ttl probe d = Inr (d', ids)" "db_ok d"
  shows "db_ok d'"
  using assms(1)
proof (rule claim_due_feedsE)
  fix cutoff until
  let ?p = "\<lambda>f. f_id f \<in> set (claim_ids locked now cutoff batch (feeds_tbl d))"
  assume d': "d' = d\<lparr>feeds_tbl := update_where ?p (lease now until) (feeds_tbl d)\<rparr>"
  have "map f_id (feeds_tbl d') = map f_id (feeds_tbl d)" "map f_url (feeds_tbl d') = map f_url (feeds_tbl d)"
    by (simp_all add: d' lease_ids.keys_update_where lease_urls.keys_update_where)
  moreover from this(1) have "f_id ` set (feeds_tbl d') = f_id ` set (feeds_tbl d)" by (metis set_map)
  ultimately show ?thesis using assms(2)
    unfolding db_ok_def feeds_ok_def entries_ok_def fk_ok_def by (simp add: d')
qed

lemma claim_result:
  assumes "claim_due_feeds locked now batch ttl probe d = Inr (d', ids)" "feeds_ok d"
    and "cutoff = now - probe * us_per_day"
  shows "distinct ids" "int (length ids) = min batch (int (length (filter (eligible locked now cutoff) (feeds_tbl d))))"
    "\<And>f. f \<in> set (feeds_tbl d) \<Longrightarrow>
       f_id f \<in> set ids \<longleftrightarrow> f \<in> set (claimed_rows locked now cutoff batch (feeds_tbl d))"
    "feeds_tbl d' = update_where (\<lambda>f. f_id f \<in> set ids) (lease now (now + ttl * US)) (feeds_tbl d)"
    "entries_tbl d' = entries_tbl d" "set ids \<subseteq> f_id ` set (feeds_tbl d)"
proof -
  let ?c = "claim_ids locked now cutoff batch (feeds_tbl d)"
  have dist: "distinct (map f_id (feeds_tbl d))" using assms(2) by (simp add: feeds_ok_def)
  from assms(1) have b: "0 \<le> batch"
    and d': "d' = d\<lparr>feeds_tbl := update_where (\<lambda>f. f_id f \<in> set ?c) (lease now (now + ttl * US)) (feeds_tbl d)\<rparr>"
    and ids: "ids = map f_id (filter (\<lambda>f. f_id f \<in> set ?c) (feeds_tbl d))"
    by (auto elim!: claim_due_feedsE dest!: probe_cutoff_eq simp: assms(3))
  show "distinct ids" unfolding ids by (rule distinct_map_filter [OF dist])
  show "int (length ids) = min batch (int (length (filter (eligible locked now cutoff) (feeds_tbl d))))"
    using b by (simp add: ids length_claimed [OF dist])
  have mem: "f_id f \<in> set ids \<longleftrightarrow> f_id f \<in> set ?c" if "f \<in> set (feeds_tbl d)" for f
    using that by (auto simp: ids)
  show "f_id f \<in> set ids \<longleftrightarrow> f \<in> set (claimed_rows locked now cutoff batch (feeds_tbl d))"
    if "f \<in> set (feeds_tbl d)" for f
    using that by (simp only: mem claimed_iff [OF dist])
  show "feeds_tbl d' = update_where (\<lambda>f. f_id f \<in> set ids) (lease now (now + ttl * US)) (feeds_tbl d)"
    using mem by (auto simp: d' update_where_def)
  show "entries_tbl d' = entries_tbl d" "set ids \<subseteq> f_id ` set (feeds_tbl d)" by (auto simp: d' ids)
qed

section \<open>Properties of claims\<close>

text \<open>
  C6: A claim takes the right feeds: no feed twice and no more than the batch size; only
  unlocked feeds that are due or, when dead, due for a probe; the longest overdue first, in the
  sense that a claimed feed is never scheduled later than an eligible one left behind; nothing
  eligible is left behind while the batch has room; and exactly the claimed rows get the lease
  (\<open>next_fetch_at = now + ttl\<close>, \<open>last_attempt_at = now\<close>), everything else is untouched.
\<close>

theorem claim_takes_due_feeds_in_order:
  assumes "claim_due_feeds locked now batch ttl probe d = Inr (d', ids)" "feeds_ok d"
    and "cutoff = now - probe * us_per_day" "rows = feeds_tbl d"
  shows "distinct ids \<and> int (length ids) \<le> batch \<and>
    (\<forall>f \<in> set rows. f_id f \<in> set ids \<longrightarrow> claim_predicate now cutoff f \<and> \<not> locked (f_id f)) \<and>
    (\<forall>f \<in> set rows. \<forall>g \<in> set rows. f_id f \<in> set ids \<and> f_id g \<notin> set ids \<and>
       claim_predicate now cutoff g \<and> \<not> locked (f_id g) \<longrightarrow> f_next_fetch_at f \<le> f_next_fetch_at g) \<and>
    (int (length ids) < batch \<longrightarrow>
       (\<forall>f \<in> set rows. claim_predicate now cutoff f \<and> \<not> locked (f_id f) \<longrightarrow> f_id f \<in> set ids)) \<and>
    feeds_tbl d' = map (\<lambda>f. if f_id f \<in> set ids
      then f\<lparr>f_next_fetch_at := now + ttl * US, f_last_attempt_at := Some now\<rparr> else f) rows \<and>
    entries_tbl d' = entries_tbl d"
proof -
  note r = claim_result [OF assms(1-3), folded assms(4)]
  let ?e = "filter (eligible locked now cutoff) rows" and ?c = "claimed_rows locked now cutoff batch rows"
  have sub: "f \<in> set rows \<Longrightarrow> f_id f \<in> set ids \<Longrightarrow> eligible locked now cutoff f" for f
    using claimed_rows_subset [of locked now cutoff batch rows] r(3) by blast
  have order: "f_next_fetch_at f \<le> f_next_fetch_at g"
    if "f \<in> set rows" "g \<in> set rows" "f_id f \<in> set ids" "f_id g \<notin> set ids" "eligible locked now cutoff g" for f g
    using that r(3) take_sort_key_le [of f "nat batch" f_next_fetch_at ?e g] by (auto simp: claimed_rows_def)
  have all: "f_id f \<in> set ids" if "int (length ids) < batch" "f \<in> set rows" "eligible locked now cutoff f" for f
  proof -
    have "nat batch \<ge> length ?e" using that(1) r(2) by linarith
    then have "set ?c = set ?e" by (simp add: claimed_rows_def)
    with that(2,3) r(3) show ?thesis by simp
  qed
  have "feeds_tbl d' = map (\<lambda>f. if f_id f \<in> set ids
      then f\<lparr>f_next_fetch_at := now + ttl * US, f_last_attempt_at := Some now\<rparr> else f) rows"
    by (simp add: r(4) update_where_def lease_def)
  moreover have "int (length ids) \<le> batch" using r(2) by linarith
  ultimately show ?thesis using r(1,5) sub order all by blast
qed

definition sample_leased :: db where
  "sample_leased = sample_db\<lparr>feeds_tbl :=
     [sample_feed\<lparr>f_next_fetch_at := sample_now + 90000000, f_last_attempt_at := Some sample_now\<rparr>]\<rparr>"

lemma sample_claim: "claim_due_feeds (\<lambda>_. False) sample_now 8 90 7 sample_db = Inr (sample_leased, [1])"
  by code_simp

lemma sample_feeds_ok: "feeds_ok sample_db"
  using sample_db_ok(1) by (simp add: db_ok_def)

theorem claim_takes_due_feeds_in_order_witness:
  "feeds_tbl sample_leased = map (\<lambda>f. if f_id f \<in> set [1]
     then f\<lparr>f_next_fetch_at := sample_now + 90 * US, f_last_attempt_at := Some sample_now\<rparr> else f) (feeds_tbl sample_db)"
  using claim_takes_due_feeds_in_order [OF sample_claim sample_feeds_ok refl refl] by blast

text \<open>
  C5: The lease works: as long as it runs and the probe interval of dead feeds has not passed,
  no later claim, by this worker or another one, on whatever rows are locked and with whatever
  batch size, takes a feed that has been claimed and not written since.
\<close>

theorem lease_excludes_second_claim:
  assumes "claim_due_feeds locked now batch ttl probe d = Inr (d', ids)" "feeds_ok d"
    and "claim_due_feeds locked' now' batch' ttl' probe d' = Inr (d'', ids')"
    and "now' < now + ttl * US" "now' - now \<le> probe * us_per_day"
  shows "set ids \<inter> set ids' = {}"
proof -
  note r = claim_result [OF assms(1,2) refl]
  have "map f_id (feeds_tbl d') = map f_id (feeds_tbl d)" "map f_url (feeds_tbl d') = map f_url (feeds_tbl d)"
    unfolding r(4) by (rule lease_ids.keys_update_where, rule lease_urls.keys_update_where)
  moreover have "feeds_seq d' = feeds_seq d" using assms(1) by (auto elim!: claim_due_feedsE)
  ultimately have "feeds_ok d'" using assms(2) unfolding feeds_ok_def by simp
  note r' = claim_result [OF assms(3) this refl]
  show ?thesis
  proof (rule equals0I)
    fix i
    assume i: "i \<in> set ids \<inter> set ids'"
    with r'(6) obtain g where g: "g \<in> set (feeds_tbl d')" "f_id g = i" by auto
    with i r(4) obtain f where "g = lease now (now + ttl * US) f"
      by (auto simp: update_where_def lease_def split: if_splits)
    moreover have "claim_predicate now' (now' - probe * us_per_day) g"
      using r'(3) [OF g(1)] g(2) i claimed_rows_subset by fastforce
    ultimately show False using assms(4,5) by (auto simp: claim_predicate_def lease_def)
  qed
qed

theorem lease_excludes_second_claim_witness: "set [1] \<inter> set ([] :: int list) = {}"
proof (rule lease_excludes_second_claim [OF sample_claim sample_feeds_ok])
  show "claim_due_feeds (\<lambda>_. False) (sample_now + 89000000) 8 90 7 sample_leased = Inr (sample_leased, [])" by code_simp
qed (simp_all add: US_def us_per_day_def)

section \<open>Facts about processing\<close>

text \<open>What a piece of work on the feeds \<open>I\<close> may do to the database.\<close>

definition touches :: "int set \<Rightarrow> db \<Rightarrow> db \<Rightarrow> bool" where
  "touches I d d' \<longleftrightarrow> db_ok d' \<and> steady d d' \<and> f_id ` set (feeds_tbl d') = f_id ` set (feeds_tbl d) \<and>
     feeds_seq d' = feeds_seq d \<and>
     (\<forall>j. j \<notin> I \<longrightarrow> feed_by_id d' j = feed_by_id d j \<and> entries_of d' j = entries_of d j)"

lemma touches_refl: "db_ok d \<Longrightarrow> touches I d d"
  by (simp add: touches_def steadily.evolve_refl)

lemma touches_trans: "touches I d d' \<Longrightarrow> touches J d' d'' \<Longrightarrow> touches (I \<union> J) d d''"
  by (auto simp: touches_def intro: steadily.evolve_trans)

lemma touches_rollback:
  assumes "db_ok d" "feeds_seq d' = feeds_seq d" "entries_seq d \<le> entries_seq d'"
  shows "touches I d (rollback_to d d')"
  using assms db_ok_rollback_to [OF assms(1), of d']
  by (auto simp: touches_def steady_def rollback_to_def feed_by_id_def entries_of_def)

locale per_feed_step =
  fixes step :: "int \<Rightarrow> 'w \<Rightarrow> 'w"
    and view :: "'w \<Rightarrow> db"
  assumes step_touches: "db_ok (view w) \<Longrightarrow> touches {i} (view w) (view (step i w))"
begin

lemma steps_touch: "db_ok (view w) \<Longrightarrow> touches (set ids) (view w) (view (foldl (\<lambda>w i. step i w) w ids))"
proof (induction ids arbitrary: w)
  case (Cons i ids)
  have one: "touches {i} (view w) (view (step i w))" by (rule step_touches [OF Cons.prems])
  then have "db_ok (view (step i w))" by (simp add: touches_def)
  from touches_trans [OF one Cons.IH [OF this]] show ?case by simp
qed (simp add: touches_refl)

end

lemma process_body_touches:
  assumes "db_ok (w_db w)" "process_body fe cfg now i w = ((undone, saved), r)"
  shows "touches {i} (w_db w) (w_db saved)" "touches {i} (w_db w) (w_db undone)"
    "feeds_tbl (w_db undone) = feeds_tbl (w_db w)" "entries_tbl (w_db undone) = entries_tbl (w_db w)"
proof -
  have "touches {i} (w_db w) (w_db saved) \<and> touches {i} (w_db w) (w_db undone) \<and>
    feeds_tbl (w_db undone) = feeds_tbl (w_db w) \<and> entries_tbl (w_db undone) = entries_tbl (w_db w)"
  proof (cases "isl (fe_load fe) \<or> feed_by_id (w_db w) i = None")
    case True
    then show ?thesis using assms
      by (auto simp: process_body_def touches_refl isl_def split: sum.splits option.splits)
  next
    case False
    then obtain feed where f: "feed_by_id (w_db w) i = Some feed" by auto
    let ?s0 = "fetch_session feed w"
    obtain s q where s: "fetch_one (fe_fetch fe) cfg now ?s0 = (s, q)" by fastforce
    have "evolves (on_feed (f_last_attempt_at_update (\<lambda>_. Some now)) ?s0) s"
      using evolves_fetch_one [of now ?s0 "fe_fetch fe" cfg] s by simp
    then have sq: "feeds_seq (fs_db s) = feeds_seq (w_db w)" "entries_seq (w_db w) \<le> entries_seq (fs_db s)"
      by (simp_all add: evolves_def db_evolves_def fetch_session_def)
    then have undo: "touches {i} (w_db w) (w_db (roll_back w s))" "feeds_tbl (w_db (roll_back w s)) = feeds_tbl (w_db w)"
      "entries_tbl (w_db (roll_back w s)) = entries_tbl (w_db w)"
      using assms(1) by (simp_all add: roll_back_def touches_rollback) (simp_all add: rollback_to_def)
    have "touches {i} (w_db w) (w_db (commit_session w s))"
      using commit_fetch_one [of ?s0 i s "fe_fetch fe" cfg now, OF _ _ _ refl] assms(1) f s sq(1)
      by (simp add: touches_def commit_session_def fetch_session_def)
    with undo show ?thesis using assms(2) False f s
      by (auto simp: process_body_def Let_def isl_def split: sum.splits if_splits)
  qed
  then show "touches {i} (w_db w) (w_db saved)" "touches {i} (w_db w) (w_db undone)"
    "feeds_tbl (w_db undone) = feeds_tbl (w_db w)" "entries_tbl (w_db undone) = entries_tbl (w_db w)" by blast+
qed

interpretation processing: per_feed_step "\<lambda>i w. fst (process_feed (fes i) cfg now i w)" w_db for fes cfg now
proof
  fix i and w :: world
  assume ok: "db_ok (w_db w)"
  obtain undone saved r where b: "process_body (fes i) cfg now i (emit [InflightFetches 1] w) = ((undone, saved), r)"
    by (metis prod.exhaust)
  show "touches {i} (w_db w) (w_db (fst (process_feed (fes i) cfg now i w)))"
    using process_body_touches [OF _ b] ok b by (simp add: process_feed_def split: sum.splits)
qed

lemma process_all_fold:
  "fst (process_all fes cfg now ids w) = foldl (\<lambda>w i. fst (process_feed (fes i) cfg now i w)) w ids"
  "length (snd (process_all fes cfg now ids w)) = length ids"
  by (induction ids arbitrary: w) (simp_all add: Let_def case_prod_unfold)

text \<open>The set of impersonated hosts only grows.\<close>

lemma process_feed_domains: "w_domains w \<subseteq> w_domains (fst (process_feed fe cfg now i w))"
proof -
  let ?v = "emit [InflightFetches 1] w"
  obtain undone saved q where b: "process_body fe cfg now i ?v = ((undone, saved), q)" by (metis prod.exhaust)
  have "w_domains ?v \<subseteq> fs_domains (fst (fetch_one env cfg now (fetch_session feed ?v)))" for env feed
    using evolves_fetch_one [of now "fetch_session feed ?v" env cfg] by (simp add: evolves_def fetch_session_def)
  then have "w_domains w \<subseteq> w_domains undone \<and> w_domains w \<subseteq> w_domains saved"
    using b by (fastforce simp: process_body_def Let_def case_prod_unfold roll_back_def commit_session_def
        split: sum.splits option.splits if_splits)
  then show ?thesis using b by (auto simp: process_feed_def split: sum.splits)
qed

lemma process_all_domains: "w_domains w \<subseteq> w_domains (fst (process_all fes cfg now ids w))"
proof (induction ids arbitrary: w)
  case (Cons i ids)
  show ?case using process_feed_domains [of w "fes i" cfg now i] Cons.IH [of "fst (process_feed (fes i) cfg now i w)"]
    by (auto simp: Let_def case_prod_unfold)
qed simp

lemma claim_touches:
  assumes "claim_due_feeds locked now batch ttl probe d = Inr (d', ids)" "db_ok d"
  shows "touches (set ids) d d'"
proof -
  have fo: "feeds_ok d" using assms(2) by (simp add: db_ok_def)
  note r = claim_result [OF assms(1) fo refl]
  have dist: "distinct (map f_id (feeds_tbl d))" using fo by (simp add: feeds_ok_def)
  have "map f_id (feeds_tbl d') = map f_id (feeds_tbl d)" unfolding r(4) by (rule lease_ids.keys_update_where)
  then have "f_id ` set (feeds_tbl d') = f_id ` set (feeds_tbl d)" by (metis set_map)
  moreover have "feed_by_id d' j = feed_by_id d j" if "j \<notin> set ids" for j
    unfolding feed_by_id_def r(4) lease_ids.find_update_where [OF dist]
    using that by (cases "find (\<lambda>f. f_id f = j) (feeds_tbl d)") (auto dest: find_SomeD)
  moreover have "\<exists>g. feed_by_id d' j = Some g \<and> same_identity f g" if "feed_by_id d j = Some f" for j f
    using that unfolding feed_by_id_def r(4) lease_ids.find_update_where [OF dist]
    by (auto simp: lease_def same_identity_def)
  moreover have "entries_seq d' = entries_seq d" "feeds_seq d' = feeds_seq d"
    using assms(1) by (auto elim!: claim_due_feedsE)
  ultimately show ?thesis using claim_keeps_db_ok [OF assms]
    by (auto simp: touches_def entries_of_def steady_def r(5))
qed

lemma tick_once_claim:
  assumes "tick_once cfg te w = (w', Inr res)"
  obtains d ids outcomes where
    "claim_due_feeds (te_locked te) (te_now te) (sc_claim_batch_size cfg) (sc_claim_ttl_seconds cfg)
       (sc_dead_probe_interval_days cfg) (w_db w) = Inr (d, ids)"
    "tr_claimed res = int (length ids)"
    "ids = [] \<Longrightarrow> w' = w\<lparr>w_db := d\<rparr> \<and> tr_processed res = 0 \<and> tr_fatal_errors res = 0"
    "ids \<noteq> [] \<Longrightarrow> process_all (te_feed te) (sc_fetch cfg) (te_now te) (sort_key (te_rank te) ids) (w\<lparr>w_db := d\<rparr>) = (w', outcomes) \<and>
       find isl outcomes = None \<and> tr_processed res = int (length (filter (\<lambda>r. r = Inr True) outcomes)) \<and>
       tr_fatal_errors res = int (length (filter (\<lambda>r. r = Inr False) outcomes))"
  using assms by (auto simp: tick_once_def Let_def split: sum.splits if_splits prod.splits option.splits)

lemma count_outcomes:
  assumes "find isl outcomes = None"
  shows "length (filter (\<lambda>r. r = Inr True) outcomes) + length (filter (\<lambda>r. r = Inr False) outcomes) = length outcomes"
  using assms
proof (induction outcomes)
  case (Cons r rs)
  show ?case
  proof (cases r)
    case (Inr b)
    with Cons show ?thesis by (cases b) auto
  qed (use Cons in simp)
qed simp

section \<open>Properties of processing\<close>

text \<open>
  One bad feed cannot poison the others or itself: when \<open>_process_feed\<close> reports a fatal
  error, the database holds exactly the feeds and entries it held before (the lease included),
  the in-flight gauge is back where it was and the feed is named in the log.
\<close>

theorem fatal_error_leaves_database:
  assumes "process_feed fe cfg now i w = (w', Inr False)" "db_ok (w_db w)"
  shows "feeds_tbl (w_db w') = feeds_tbl (w_db w) \<and> entries_tbl (w_db w') = entries_tbl (w_db w) \<and>
    (\<exists>es. w_events w' = es @ [LogProcessFatal i, InflightFetches (- 1)])"
proof -
  obtain undone saved r where b: "process_body fe cfg now i (emit [InflightFetches 1] w) = ((undone, saved), r)"
    by (metis prod.exhaust)
  from b assms(1) have "w' = emit [LogProcessFatal i, InflightFetches (- 1)] undone"
    by (auto simp: process_feed_def split: sum.splits if_splits)
  with process_body_touches [OF _ b] assms(2) show ?thesis by simp
qed

definition sample_feed_env :: "fetch_env \<Rightarrow> feed_env" where
  "sample_feed_env env = \<lparr>fe_fetch = env, fe_load = Inr (), fe_commit = Inr ()\<rparr>"

definition sample_world :: world where
  "sample_world = \<lparr>w_db = sample_db, w_domains = {}, w_events = []\<rparr>"

theorem fatal_error_leaves_database_witness:
  "entries_tbl (w_db (fst (process_feed (sample_feed_env (sample_env (sample_response 200)\<lparr>env_accepts := \<lambda>_. False\<rparr>))
     sample_config sample_now 1 sample_world))) = entries_tbl sample_db"
proof -
  let ?p = "process_feed (sample_feed_env (sample_env (sample_response 200)\<lparr>env_accepts := \<lambda>_. False\<rparr>))
     sample_config sample_now 1 sample_world"
  have "snd ?p = Inr False" by code_simp
  then have "?p = (fst ?p, Inr False)" by (metis prod.collapse)
  from fatal_error_leaves_database [OF this] sample_db_ok(1) show ?thesis by (simp add: sample_world_def)
qed

text \<open>
  A tick accounts for every feed it claims: the processed and the fatal ones add up to the
  claimed ones, and there are at most \<open>fetch_claim_batch_size\<close> of them, in whatever order the
  sessions run.
\<close>

theorem tick_accounts_for_every_feed:
  assumes "tick_once cfg te w = (w', Inr res)" "feeds_ok (w_db w)"
  shows "tr_claimed res = tr_processed res + tr_fatal_errors res \<and> tr_claimed res \<le> sc_claim_batch_size cfg \<and>
    0 \<le> tr_processed res \<and> 0 \<le> tr_fatal_errors res"
  using assms(1)
proof (rule tick_once_claim)
  fix d ids outcomes
  assume c: "claim_due_feeds (te_locked te) (te_now te) (sc_claim_batch_size cfg) (sc_claim_ttl_seconds cfg)
      (sc_dead_probe_interval_days cfg) (w_db w) = Inr (d, ids)"
    and n: "tr_claimed res = int (length ids)"
    and none: "ids = [] \<Longrightarrow> w' = w\<lparr>w_db := d\<rparr> \<and> tr_processed res = 0 \<and> tr_fatal_errors res = 0"
    and some: "ids \<noteq> [] \<Longrightarrow> process_all (te_feed te) (sc_fetch cfg) (te_now te) (sort_key (te_rank te) ids) (w\<lparr>w_db := d\<rparr>) = (w', outcomes) \<and>
       find isl outcomes = None \<and> tr_processed res = int (length (filter (\<lambda>r. r = Inr True) outcomes)) \<and>
       tr_fatal_errors res = int (length (filter (\<lambda>r. r = Inr False) outcomes))"
  have "tr_claimed res \<le> sc_claim_batch_size cfg" using claim_result(2) [OF c assms(2) refl] n by linarith
  moreover have "tr_claimed res = tr_processed res + tr_fatal_errors res \<and> 0 \<le> tr_processed res \<and> 0 \<le> tr_fatal_errors res"
  proof (cases "ids = []")
    case False
    have "length outcomes = length (sort_key (te_rank te) ids)" using some [OF False] process_all_fold(2) by (metis snd_conv)
    then show ?thesis using some [OF False] count_outcomes [of outcomes] n by simp
  qed (use none n in simp)
  ultimately show ?thesis by blast
qed

lemma tick_touches:
  assumes "db_ok (w_db w)"
  shows "\<exists>ids. touches (set ids) (w_db w) (w_db (fst (tick_once cfg te w))) \<and>
    (\<forall>d. claim_due_feeds (te_locked te) (te_now te) (sc_claim_batch_size cfg) (sc_claim_ttl_seconds cfg)
       (sc_dead_probe_interval_days cfg) (w_db w) = Inr d \<longrightarrow> snd d = ids)"
proof (cases "claim_due_feeds (te_locked te) (te_now te) (sc_claim_batch_size cfg) (sc_claim_ttl_seconds cfg)
    (sc_dead_probe_interval_days cfg) (w_db w)")
  case (Inl e)
  then show ?thesis using assms(1) by (auto simp: tick_once_def touches_refl)
next
  case (Inr di)
  obtain d ids where di: "di = (d, ids)" by fastforce
  let ?w = "w\<lparr>w_db := d\<rparr>"
  have t: "touches (set ids) (w_db w) d" using claim_touches Inr assms(1) di by blast
  then have ok: "db_ok (w_db ?w)" by (simp add: touches_def)
  have "touches (set ids) d (w_db (fst (process_all (te_feed te) (sc_fetch cfg) (te_now te) (sort_key (te_rank te) ids) ?w)))"
    using processing.steps_touch [OF ok, where ids = "sort_key (te_rank te) ids"] by (simp add: process_all_fold(1))
  from touches_trans [OF t this] t show ?thesis
    using Inr di by (auto simp: tick_once_def Let_def case_prod_unfold split: option.splits)
qed

text \<open>
  A tick keeps the database consistent and leaves every feed alone that it did not claim:
  its row and its entries are unchanged, however the fetches of the claimed feeds go and in
  whatever order they run.
\<close>

theorem tick_touches_only_claimed_feeds:
  assumes "db_ok (w_db w)"
    and "claim_due_feeds (te_locked te) (te_now te) (sc_claim_batch_size cfg) (sc_claim_ttl_seconds cfg)
       (sc_dead_probe_interval_days cfg) (w_db w) = Inr (d, ids)"
    and "d' = w_db (fst (tick_once cfg te w))"
  shows "db_ok d' \<and>
    (\<forall>j. j \<notin> set ids \<longrightarrow> feed_by_id d' j = feed_by_id (w_db w) j \<and> entries_of d' j = entries_of (w_db w) j)"
  using tick_touches [OF assms(1), of cfg te] assms(2,3) by (auto simp: touches_def)

definition sample_scheduler :: scheduler_config where
  "sample_scheduler = \<lparr>sc_fetch = sample_config, sc_claim_batch_size = 8, sc_claim_ttl_seconds = 90,
     sc_dead_probe_interval_days = 7\<rparr>"

definition sample_tick :: tick_env where
  "sample_tick = \<lparr>te_now = sample_now, te_locked = (\<lambda>_. False), te_rank = (\<lambda>i. - i),
     te_feed = (\<lambda>_. sample_feed_env (sample_env (sample_response 200))), te_duration = 1\<rparr>"

theorem tick_accounts_for_every_feed_witness:
  "\<exists>res. tick_once sample_scheduler sample_tick sample_world = (fst (tick_once sample_scheduler sample_tick sample_world), Inr res) \<and>
     tr_claimed res = tr_processed res + tr_fatal_errors res \<and> tr_claimed res = 1"
proof -
  let ?t = "tick_once sample_scheduler sample_tick sample_world"
  have "snd ?t = Inr \<lparr>tr_claimed = 1, tr_processed = 1, tr_fatal_errors = 0, tr_duration_seconds = 1\<rparr>" by code_simp
  then have t: "?t = (fst ?t, Inr \<lparr>tr_claimed = 1, tr_processed = 1, tr_fatal_errors = 0, tr_duration_seconds = 1\<rparr>)"
    by (metis prod.collapse)
  have "feeds_ok (w_db sample_world)" by (simp add: sample_world_def sample_feeds_ok)
  from tick_accounts_for_every_feed [OF t this] t show ?thesis by auto
qed

theorem tick_touches_only_claimed_feeds_witness:
  "db_ok (w_db (fst (tick_once sample_scheduler sample_tick sample_world)))"
proof -
  have "db_ok (w_db sample_world)" by (simp add: sample_world_def sample_db_ok)
  moreover have "claim_due_feeds (te_locked sample_tick) (te_now sample_tick) (sc_claim_batch_size sample_scheduler)
      (sc_claim_ttl_seconds sample_scheduler) (sc_dead_probe_interval_days sample_scheduler) (w_db sample_world) =
      Inr (sample_leased, [1])"
    using sample_claim by (simp add: sample_tick_def sample_scheduler_def sample_world_def)
  ultimately show ?thesis using tick_touches_only_claimed_feeds [OF _ _ refl] by blast
qed

section \<open>The loop\<close>

interpretation scheduler_task: background_task "\<lambda>n. run_tick cfg (te n)" "\<lambda>w. db_ok (w_db w)"
  for cfg te
proof
  fix w :: world and n
  assume ok: "db_ok (w_db w)"
  have "db_ok (w_db (fst (tick_once cfg (te n) w)))"
    using tick_touches [OF ok, of cfg "te n"] by (auto simp: touches_def)
  then show "db_ok (w_db (fst (run_tick cfg (te n) w)))"
    by (auto simp: run_tick_def split: prod.splits sum.splits)
qed

text \<open>
  C22: The scheduler loop survives failing ticks: as long as it is not stopped and ticks raise
  nothing but \<open>Exception\<close>s, it runs on for as many iterations as it is given, whatever the
  ticks do; after each it waits between \<open>min(interval, 300)\<close> and \<open>max(interval, 300)\<close> seconds,
  the interval itself after a good tick; and the database stays consistent throughout.
\<close>

theorem scheduler_loop_survives:
  assumes "db_ok (w_db w)"
    and "\<And>n x e. snd (run_tick cfg (tes n) x) = Inl e \<Longrightarrow> caught e" "\<And>n. \<not> stop n"
    and "interval = base_interval_seconds (fc_policy (sc_fetch cfg))" "0 \<le> interval"
  shows "\<exists>w' waits. run cfg tes stop fuel w = (w', waits, Running) \<and> length waits = fuel \<and> db_ok (w_db w') \<and>
    (\<forall>t \<in> set waits. min interval 300 \<le> t \<and> t \<le> max interval 300)"
proof -
  have "\<exists>t oks. run cfg tes stop fuel w = (t, expected_waits interval 0 oks, Running) \<and> length oks = fuel"
    unfolding run_def assms(4)
    by (rule loop_runs) (use assms(2,3) in auto)
  then obtain w' oks where r: "run cfg tes stop fuel w = (w', expected_waits interval 0 oks, Running)" "length oks = fuel"
    by blast
  have "length (expected_waits interval k oks) = length oks" for k
    by (induction interval k oks rule: expected_waits.induct) simp_all
  moreover have "db_ok (w_db w')"
    using scheduler_task.loop_inv [OF assms(1), of cfg tes stop] r(1) unfolding run_def by (metis fst_conv)
  moreover have "\<forall>t \<in> set (expected_waits interval 0 oks). min interval 300 \<le> t \<and> t \<le> max interval 300"
    using expected_waits_bounded [of _ interval 0 oks] assms(5) by auto
  ultimately show ?thesis using r by blast
qed

theorem scheduler_loop_survives_witness:
  "\<exists>w' waits. run (sample_scheduler\<lparr>sc_claim_batch_size := - 1\<rparr>) (\<lambda>_. sample_tick) (\<lambda>_. False) 7 sample_world =
     (w', waits, Running) \<and> length waits = 7 \<and> db_ok (w_db w') \<and> (\<forall>t \<in> set waits. min 60 300 \<le> t \<and> t \<le> max 60 300)"
proof (rule scheduler_loop_survives)
  show "db_ok (w_db sample_world)" by (simp add: sample_world_def sample_db_ok)
  show "60 = base_interval_seconds (fc_policy (sc_fetch (sample_scheduler\<lparr>sc_claim_batch_size := - 1\<rparr>)))"
    by (simp add: sample_scheduler_def sample_config_def sample_policy_def)
  have days: "try_bind (timedelta_days 7) (\<lambda>days. dt_add sample_now (- days)) = Inr (sample_now - 604800000000)" by code_simp
  have ttl: "try_bind (timedelta_seconds (of_int 90)) (dt_add sample_now) = Inr (sample_now + 90000000)" by code_simp
  have "run_tick (sample_scheduler\<lparr>sc_claim_batch_size := - 1\<rparr>) sample_tick x =
      (emit [TickTotal ''error'', LogTickRaised] x, Inl (raise_exn DBAPIError))" for x
    using days ttl
    by (simp add: run_tick_def tick_once_def claim_due_feeds_def sample_scheduler_def sample_tick_def is_Exception_def)
  then show "caught e" if "snd (run_tick (sample_scheduler\<lparr>sc_claim_batch_size := - 1\<rparr>) sample_tick x) = Inl e" for x e
    using that by (auto simp: is_Exception_def)
qed simp_all

end
