(* ===== verification/Retention.thy ===== *)
theory Retention
  imports Metrics Background_Loop
begin

text \<open>
  \<open>fetcher/retention.py\<close>: the sweep keeps, of every feed, the entries inside the time window and
  the \<open>min_per_feed\<close> newest by \<open>(fetched_at, id)\<close>, and deletes the rest, at most one batch per
  call when a batch size is set. The window function \<open>row_number() OVER (PARTITION BY feed_id
  ORDER BY fetched_at DESC, id DESC)\<close> is the number of rows of the same partition that are not
  older. A session is the pair of what is committed and what the session sees; \<open>sweep_env\<close> tells
  whether the statement and the two commits succeed.
\<close>

section \<open>The statement\<close>

definition newest :: "entry \<Rightarrow> int \<times> int" where
  "newest e = (- e_fetched_at e, - e_id e)"

definition row_number :: "entry list \<Rightarrow> entry \<Rightarrow> int" where
  "row_number rows e = 1 + int (length (filter (\<lambda>x. e_feed_id x = e_feed_id e \<and> newest x < newest e) rows))"

definition keeps :: "instant \<Rightarrow> int \<Rightarrow> entry list \<Rightarrow> entry \<Rightarrow> bool" where
  "keeps cutoff min_per_feed rows e = (e_fetched_at e \<ge> cutoff \<or> row_number rows e \<le> min_per_feed)"

definition victims :: "instant \<Rightarrow> int \<Rightarrow> entry list \<Rightarrow> entry list" where
  "victims cutoff min_per_feed rows = filter (\<lambda>e. \<not> keeps cutoff min_per_feed rows e) rows"

definition delete_rows :: "int list \<Rightarrow> db \<Rightarrow> db" where
  "delete_rows ids d = d\<lparr>entries_tbl := filter (\<lambda>e. e_id e \<notin> set ids) (entries_tbl d)\<rparr>"

definition swept :: "instant \<Rightarrow> int \<Rightarrow> int \<Rightarrow> db \<Rightarrow> db \<times> int" where
  "swept cutoff min_per_feed batch_size d =
     (let all_ids = map e_id (victims cutoff min_per_feed (entries_tbl d));
          ids = (if batch_size > 0 then take (nat batch_size) all_ids else all_ids)
      in (delete_rows ids d, int (length ids)))"

section \<open>Operations\<close>

record sweep_env =
  se_now :: instant
  se_execute :: "exn + unit"
  se_commit_batch :: "exn + unit"
  se_commit :: "exn + unit"

record retention_config =
  rc_days :: int
  rc_min_per_feed :: int
  rc_batch_size :: int
  rc_interval_seconds :: int

definition sweep :: "sweep_env \<Rightarrow> instant \<Rightarrow> int \<Rightarrow> int \<Rightarrow> db \<times> db \<Rightarrow> (db \<times> db, exn, int) outcome" where
  "sweep env cutoff min_per_feed batch_size s =
     (case s of (committed, view) \<Rightarrow>
        and_then (lift_result s (se_execute env)) (\<lambda>_ _.
          let (view', n) = swept cutoff min_per_feed batch_size view
          in if batch_size > 0 \<and> n > 0
             then and_then (lift_result (committed, view') (se_commit_batch env)) (\<lambda>_ _. ((view', view'), Inr n))
             else ((committed, view'), Inr n)))"

definition tick_once :: "retention_config \<Rightarrow> sweep_env \<Rightarrow> world \<Rightarrow> (world, exn, int) outcome" where
  "tick_once cfg env w =
     (case try_bind (timedelta_days (rc_days cfg)) (\<lambda>days. dt_add (se_now env) (- days)) of
        Inl e \<Rightarrow> (w, Inl e)
      | Inr cutoff \<Rightarrow>
          (case and_then (sweep env cutoff (rc_min_per_feed cfg) (rc_batch_size cfg) (w_db w, w_db w))
                  (\<lambda>s n. and_then (lift_result s (se_commit env)) (\<lambda>s _. ((snd s, snd s), Inr n))) of
             ((committed, view), Inl e) \<Rightarrow> (w\<lparr>w_db := committed\<rparr>, Inl e)
           | ((committed, view), Inr n) \<Rightarrow>
               (let w' = w\<lparr>w_db := committed\<rparr>
                in (if n > 0 then emit [RetentionDeleted n] w' else w', Inr n))))"

definition run_tick :: "retention_config \<Rightarrow> sweep_env \<Rightarrow> world \<Rightarrow> (world, exn, int) outcome" where
  "run_tick cfg env w = (case tick_once cfg env w of
     (w', Inr n) \<Rightarrow> (emit [LogSwept n] w', Inr n)
   | (w', Inl e) \<Rightarrow> (if caught e then emit [LogSweepRaised] w' else w', Inl e))"

definition run :: "retention_config \<Rightarrow> (nat \<Rightarrow> sweep_env) \<Rightarrow> (nat \<Rightarrow> bool) \<Rightarrow> nat \<Rightarrow> world \<Rightarrow> world \<times> int list \<times> loop_status" where
  "run cfg envs stop fuel w = background_loop (\<lambda>n. run_tick cfg (envs n)) stop (rc_interval_seconds cfg) fuel 0 0 w"

section \<open>Facts about the keep set\<close>

text \<open>The documented rule: the newest \<open>n\<close> entries of one feed.\<close>

definition top_n :: "int \<Rightarrow> entry list \<Rightarrow> int \<Rightarrow> entry list" where
  "top_n n rows i = take (nat n) (sort_key newest (filter (\<lambda>e. e_feed_id e = i) rows))"

lemma newest_inj: "distinct (map e_id rows) \<Longrightarrow> distinct (map newest rows)"
  by (auto simp: distinct_map inj_on_def newest_def)

lemma row_number_top_n:
  assumes "distinct (map e_id rows)" "e \<in> set rows"
  shows "row_number rows e \<le> n \<longleftrightarrow> e \<in> set (top_n n rows (e_feed_id e))"
proof -
  let ?p = "filter (\<lambda>x. e_feed_id x = e_feed_id e) rows"
  have "distinct (map newest ?p)" using assms(1) by (intro newest_inj distinct_map_filter)
  moreover have "e \<in> set ?p" using assms(2) by simp
  ultimately have "e \<in> set (top_n n rows (e_feed_id e)) \<longleftrightarrow> length (filter (\<lambda>y. newest y < newest e) ?p) < nat n"
    unfolding top_n_def by (rule take_sort_key_rank)
  then show ?thesis by (auto simp: row_number_def conj_commute)
qed

lemma keeps_iff:
  assumes "distinct (map e_id rows)" "e \<in> set rows"
  shows "keeps cutoff n rows e \<longleftrightarrow> cutoff \<le> e_fetched_at e \<or> e \<in> set (top_n n rows (e_feed_id e))"
  by (simp add: keeps_def row_number_top_n [OF assms])

text \<open>Deleting entries outside the keep set does not change what is kept of the rest.\<close>

lemma top_n_filter:
  assumes "\<And>e. e \<in> set (top_n n rows i) \<Longrightarrow> p e"
  shows "top_n n (filter p rows) i = top_n n rows i"
proof -
  let ?zs = "filter (\<lambda>e. e_feed_id e = i) rows"
  have "filter (\<lambda>e. e_feed_id e = i) (filter p rows) = filter p ?zs" by (simp add: conj_commute)
  moreover have "sort_key newest (filter p ?zs) = filter p (sort_key newest ?zs)" by (rule filter_sort [symmetric])
  moreover have "take (nat n) (filter p (sort_key newest ?zs)) = take (nat n) (sort_key newest ?zs)"
    using assms unfolding top_n_def by (rule take_filter_all)
  ultimately show ?thesis unfolding top_n_def by (simp only:)
qed

lemma keeps_stable:
  assumes dist: "distinct (map e_id rows)" and p: "\<And>e. e \<in> set rows \<Longrightarrow> keeps cutoff n rows e \<Longrightarrow> p e"
    and e: "e \<in> set (filter p rows)"
  shows "keeps cutoff n (filter p rows) e \<longleftrightarrow> keeps cutoff n rows e"
proof -
  have "x \<in> set (top_n n rows i) \<Longrightarrow> x \<in> set rows \<and> e_feed_id x = i" for x i
    using set_take_sort_key [of "nat n" newest "filter (\<lambda>e. e_feed_id e = i) rows"] by (auto simp: top_n_def)
  then have "top_n n (filter p rows) i = top_n n rows i" for i
    using p keeps_iff [OF dist] by (intro top_n_filter) blast
  then show ?thesis
    using e keeps_iff [OF dist, of e] keeps_iff [OF distinct_map_filter [OF dist], of e p] by simp
qed

section \<open>Facts about deletion\<close>

lemma filter_notin_take:
  "distinct (map f xs) \<Longrightarrow> filter (\<lambda>x. f x \<notin> set (take k (map f xs))) xs = drop k xs"
proof (induction xs arbitrary: k)
  case (Cons x xs)
  show ?case
  proof (cases k)
    case 0
    then show ?thesis by simp
  next
    case (Suc m)
    have "filter (\<lambda>y. f y \<notin> set (take k (map f (x # xs)))) xs = filter (\<lambda>y. f y \<notin> set (take m (map f xs))) xs"
    proof (rule filter_cong [OF refl])
      fix y
      assume "y \<in> set xs"
      then have "f y \<noteq> f x" using Cons.prems by (auto simp: image_iff)
      then show "f y \<notin> set (take k (map f (x # xs))) \<longleftrightarrow> f y \<notin> set (take m (map f xs))" by (simp add: Suc)
    qed
    then show ?thesis using Cons Suc by simp
  qed
qed simp

lemma victims_of_rest:
  assumes dist: "distinct (map e_id rows)"
    and r: "rows' = filter (\<lambda>e. e_id e \<notin> set (take k (map e_id (victims cutoff n rows)))) rows"
  shows "victims cutoff n rows' = drop k (victims cutoff n rows)"
    "filter (keeps cutoff n rows') rows' = filter (keeps cutoff n rows) rows"
proof -
  let ?v = "victims cutoff n rows"
  let ?p = "\<lambda>e. e_id e \<notin> set (take k (map e_id ?v))"
  have kept: "?p e" if "e \<in> set rows" "keeps cutoff n rows e" for e
  proof
    assume "e_id e \<in> set (take k (map e_id ?v))"
    then obtain x where "x \<in> set ?v" "e_id x = e_id e" by (metis in_set_takeD imageE list.set_map)
    with that dist show False by (auto simp: victims_def dest: distinct_map_eq)
  qed
  have stable: "keeps cutoff n rows' e \<longleftrightarrow> keeps cutoff n rows e" if "e \<in> set rows'" for e
    unfolding r by (rule keeps_stable [OF dist kept]) (use that in \<open>simp_all add: r\<close>)
  have "victims cutoff n rows' = filter (\<lambda>e. \<not> keeps cutoff n rows e) rows'"
    unfolding victims_def by (rule filter_cong [OF refl]) (simp add: stable)
  also have "\<dots> = filter ?p ?v" by (simp add: r victims_def conj_commute)
  also have "\<dots> = drop k ?v"
    by (rule filter_notin_take) (simp add: victims_def distinct_map_filter [OF dist])
  finally show "victims cutoff n rows' = drop k ?v" .
  have "filter (keeps cutoff n rows') rows' = filter (keeps cutoff n rows) rows'"
    by (rule filter_cong [OF refl]) (simp add: stable)
  also have "\<dots> = filter (keeps cutoff n rows) rows"
    unfolding r filter_filter by (rule filter_cong [OF refl]) (use kept in auto)
  finally show "filter (keeps cutoff n rows') rows' = filter (keeps cutoff n rows) rows" .
qed

definition batch_length :: "int \<Rightarrow> entry list \<Rightarrow> nat" where
  "batch_length b vs = (if b > 0 then nat b else length vs)"

lemma swept_rows:
  fixes d :: db and cutoff n :: int
  defines "vs \<equiv> victims cutoff n (entries_tbl d)"
  shows "fst (swept cutoff n b d) =
      d\<lparr>entries_tbl := filter (\<lambda>e. e_id e \<notin> set (take (batch_length b vs) (map e_id vs))) (entries_tbl d)\<rparr>"
    "snd (swept cutoff n b d) = int (min (batch_length b vs) (length vs))"
  by (simp_all add: swept_def delete_rows_def batch_length_def vs_def Let_def min.commute)

lemma swept_next:
  assumes "distinct (map e_id (entries_tbl d))"
  shows "victims cutoff n (entries_tbl (fst (swept cutoff n b d))) =
      drop (batch_length b (victims cutoff n (entries_tbl d))) (victims cutoff n (entries_tbl d))"
    "filter (keeps cutoff n (entries_tbl (fst (swept cutoff n b d)))) (entries_tbl (fst (swept cutoff n b d))) =
      filter (keeps cutoff n (entries_tbl d)) (entries_tbl d)"
    "distinct (map e_id (entries_tbl (fst (swept cutoff n b d))))"
  using victims_of_rest [OF assms refl, where k = "batch_length b (victims cutoff n (entries_tbl d))" and cutoff = cutoff and n = n]
    distinct_map_filter [OF assms]
  by (simp_all add: swept_rows(1))

lemma keeps_all: "victims cutoff n rows = [] \<Longrightarrow> filter (keeps cutoff n rows) rows = rows"
  by (simp add: victims_def filter_empty_conv filter_id_conv)

lemma swept_all:
  assumes "distinct (map e_id (entries_tbl d))" "b \<le> 0"
  shows "entries_tbl (fst (swept cutoff n b d)) = filter (keeps cutoff n (entries_tbl d)) (entries_tbl d)"
  using swept_next [OF assms(1), of cutoff n b] assms(2) keeps_all
  by (metis batch_length_def drop_all dual_order.refl not_le)

lemma db_ok_filter_entries: "db_ok d \<Longrightarrow> db_ok (d\<lparr>entries_tbl := filter p (entries_tbl d)\<rparr>)"
  by (auto simp: db_ok_def feeds_ok_def entries_ok_def fk_ok_def list_all_iff distinct_map_filter)

lemma swept_db_ok: "db_ok d \<Longrightarrow> db_ok (fst (swept cutoff n b d))"
  unfolding swept_rows by (rule db_ok_filter_entries)

text \<open>A tick leaves either what was there or what one sweep leaves.\<close>

lemma tick_once_db:
  "w_db (fst (tick_once cfg env w)) = w_db w \<or>
   (\<exists>cutoff. w_db (fst (tick_once cfg env w)) = fst (swept cutoff (rc_min_per_feed cfg) (rc_batch_size cfg) (w_db w)))"
  by (auto simp: tick_once_def sweep_def and_then_def lift_result_def Let_def case_prod_unfold split: sum.splits)

lemma tick_once_ok:
  assumes "tick_once cfg env w = (w', Inr n)"
  shows "\<exists>cutoff. cutoff = se_now env - rc_days cfg * us_per_day \<and>
    (w_db w', n) = swept cutoff (rc_min_per_feed cfg) (rc_batch_size cfg) (w_db w) \<and>
    w_events w' = w_events w @ (if n > 0 then [RetentionDeleted n] else [])"
proof -
  have c: "try_bind (timedelta_days p) (\<lambda>days. dt_add now (- days)) = Inr c \<Longrightarrow> c = now - p * us_per_day" for p now c
    by (auto simp: try_bind_eq_Inr timedelta_days_def dt_add_eq dest!: check_timedelta_eq)
  obtain d m where "swept (se_now env - rc_days cfg * us_per_day) (rc_min_per_feed cfg) (rc_batch_size cfg) (w_db w) = (d, m)"
    by fastforce
  then show ?thesis using assms
    by (auto simp: tick_once_def sweep_def and_then_def lift_result_def Let_def split: sum.splits if_splits dest!: c)
qed

interpretation retention_task: background_task "\<lambda>n. run_tick cfg (envs n)" "\<lambda>w. db_ok (w_db w)" for cfg envs
proof
  fix w :: world and n
  assume ok: "db_ok (w_db w)"
  then have "db_ok (w_db (fst (tick_once cfg (envs n) w)))"
    using tick_once_db [of cfg "envs n" w] swept_db_ok by metis
  then show "db_ok (w_db (fst (run_tick cfg (envs n) w)))"
    by (auto simp: run_tick_def split: prod.splits sum.splits)
qed

section \<open>Properties\<close>

definition old_entry :: "int \<Rightarrow> entry" where
  "old_entry i = sample_entry\<lparr>e_id := i, e_guid := str_of_int i, e_fetched_at := i\<rparr>"

definition sample_sweep_world :: world where
  "sample_sweep_world = \<lparr>w_db = sample_db\<lparr>entries_tbl := map old_entry [2, 1, 3], entries_seq := 4\<rparr>, w_domains = {}, w_events = []\<rparr>"

definition sample_sweep_env :: sweep_env where
  "sample_sweep_env = \<lparr>se_now = 1000000000000000, se_execute = Inr (), se_commit_batch = Inr (), se_commit = Inr ()\<rparr>"

definition sample_retention :: "int \<Rightarrow> retention_config" where
  "sample_retention b = \<lparr>rc_days = 90, rc_min_per_feed = 1, rc_batch_size = b, rc_interval_seconds = 3600\<rparr>"

lemma sample_sweep_ok: "entries_ok (w_db sample_sweep_world)"
  by code_simp

text \<open>
  C9: Without a batch size, one sweep leaves exactly the documented set, in the order it was
  stored: an entry stays if and only if it was fetched at or after the cutoff or is among the
  \<open>min_per_feed\<close> newest entries of its feed by \<open>(fetched_at, id)\<close>. The number returned and
  added to the metric is the number of rows that are gone, and feeds are untouched.
\<close>

theorem sweep_keeps_exactly:
  assumes "tick_once cfg env w = (w', Inr n)" "rc_batch_size cfg \<le> 0" "entries_ok (w_db w)"
    and "rows = entries_tbl (w_db w)" "cutoff = se_now env - rc_days cfg * us_per_day"
  shows "entries_tbl (w_db w') = filter (\<lambda>e. cutoff \<le> e_fetched_at e \<or>
      e \<in> set (take (nat (rc_min_per_feed cfg)) (sort_key (\<lambda>e. (- e_fetched_at e, - e_id e))
        (filter (\<lambda>x. e_feed_id x = e_feed_id e) rows)))) rows \<and>
    n = int (length rows) - int (length (entries_tbl (w_db w'))) \<and> feeds_tbl (w_db w') = feeds_tbl (w_db w)"
proof -
  have dist: "distinct (map e_id rows)" using assms(3,4) by (simp add: entries_ok_def)
  let ?m = "rc_min_per_feed cfg"
  from tick_once_ok [OF assms(1)] have s: "w_db w' = fst (swept cutoff ?m (rc_batch_size cfg) (w_db w))"
    "n = snd (swept cutoff ?m (rc_batch_size cfg) (w_db w))"
    by (auto simp: assms(5)) (metis fst_conv snd_conv)+
  have newest: "newest = (\<lambda>e. (- e_fetched_at e, - e_id e))" by (simp add: fun_eq_iff newest_def)
  have kept: "entries_tbl (w_db w') = filter (keeps cutoff ?m rows) rows"
    using swept_all [of "w_db w" "rc_batch_size cfg" cutoff ?m] assms(2) dist by (simp add: s(1) assms(4))
  also have "\<dots> = filter (\<lambda>e. cutoff \<le> e_fetched_at e \<or> e \<in> set (top_n ?m rows (e_feed_id e))) rows"
    by (rule filter_cong [OF refl]) (rule keeps_iff [OF dist])
  finally have "entries_tbl (w_db w') = filter (\<lambda>e. cutoff \<le> e_fetched_at e \<or> e \<in> set (top_n ?m rows (e_feed_id e))) rows" .
  moreover have "n = int (length rows) - int (length (entries_tbl (w_db w')))"
    using assms(2) length_filter_partition [of "keeps cutoff ?m rows" rows]
    unfolding s(2) swept_rows(2) kept by (simp add: batch_length_def victims_def assms(4))
  moreover have "feeds_tbl (w_db w') = feeds_tbl (w_db w)" by (simp add: s(1) swept_rows(1))
  ultimately show ?thesis by (simp add: top_n_def newest)
qed

theorem sweep_keeps_exactly_witness:
  "\<exists>w'. tick_once (sample_retention 0) sample_sweep_env sample_sweep_world = (w', Inr 2) \<and>
     entries_tbl (w_db w') = [old_entry 3] \<and> feeds_tbl (w_db w') = feeds_tbl sample_db"
proof -
  let ?t = "tick_once (sample_retention 0) sample_sweep_env sample_sweep_world"
  have "snd ?t = Inr 2" "entries_tbl (w_db (fst ?t)) = [old_entry 3]" by code_simp+
  then have t: "?t = (fst ?t, Inr 2)" by (metis prod.collapse)
  have "rc_batch_size (sample_retention 0) \<le> 0" by (simp add: sample_retention_def)
  from sweep_keeps_exactly [OF t this sample_sweep_ok refl refl]
  have "feeds_tbl (w_db (fst ?t)) = feeds_tbl sample_db" by (simp add: sample_sweep_world_def)
  with t \<open>entries_tbl (w_db (fst ?t)) = [old_entry 3]\<close> show ?thesis by blast
qed

lemma top_n_survives:
  assumes "distinct (map e_id (entries_tbl d))" "e \<in> set (top_n n (entries_tbl d) i)"
  shows "e \<in> set (entries_of (fst (swept cutoff n b d)) i)"
proof -
  let ?rows = "entries_tbl d"
  have e: "e \<in> set ?rows" "e_feed_id e = i"
    using assms(2) set_take_sort_key [of "nat n" newest "filter (\<lambda>e. e_feed_id e = i) ?rows"] by (auto simp: top_n_def)
  then have "e \<in> set (filter (keeps cutoff n ?rows) ?rows)" using assms by (simp add: keeps_iff)
  with swept_next(2) [OF assms(1), of cutoff n b] have "e \<in> set (entries_tbl (fst (swept cutoff n b d)))"
    by (metis filter_is_subset subsetD)
  with e(2) show ?thesis by (simp add: entries_of_def)
qed

text \<open>
  No tick, complete or not, batched or not, takes a feed below its minimum: afterwards every
  feed has at least \<open>min_per_feed\<close> entries, or all it had if they were fewer.
\<close>

theorem sweep_keeps_minimum_per_feed:
  assumes "entries_ok (w_db w)"
  shows "min (rc_min_per_feed cfg) (int (length (entries_of (w_db w) i))) \<le>
    int (length (entries_of (w_db (fst (tick_once cfg env w))) i))"
proof (cases "w_db (fst (tick_once cfg env w)) = w_db w")
  case False
  let ?d = "w_db w" and ?m = "rc_min_per_feed cfg"
  from False obtain cutoff where s: "w_db (fst (tick_once cfg env w)) = fst (swept cutoff ?m (rc_batch_size cfg) ?d)"
    using tick_once_db [of cfg env w] by auto
  have dist: "distinct (map e_id (entries_tbl ?d))" using assms by (simp add: entries_ok_def)
  let ?top = "top_n ?m (entries_tbl ?d) i"
  have "distinct (map e_id (filter (\<lambda>e. e_feed_id e = i) (entries_tbl ?d)))" using dist by (rule distinct_map_filter)
  then have "distinct ?top" unfolding top_n_def by (intro distinct_take) (simp add: distinct_map)
  then have "length ?top = card (set ?top)" by (simp add: distinct_card)
  also have "\<dots> \<le> card (set (entries_of (w_db (fst (tick_once cfg env w))) i))"
    using top_n_survives [OF dist] by (intro card_mono) (auto simp: s)
  also have "\<dots> \<le> length (entries_of (w_db (fst (tick_once cfg env w))) i)" by (rule card_length)
  finally show ?thesis by (simp add: top_n_def entries_of_def)
qed simp

theorem sweep_keeps_minimum_per_feed_witness:
  "min 1 (int (length (entries_of (w_db sample_sweep_world) 1))) \<le>
     int (length (entries_of (w_db (fst (tick_once (sample_retention 2) sample_sweep_env sample_sweep_world))) 1))"
  using sweep_keeps_minimum_per_feed [OF sample_sweep_ok, of "sample_retention 2" 1 sample_sweep_env]
  by (simp add: sample_retention_def)

text \<open>
  C30: Sweeping in batches is sweeping: repeated batched sweeps with the same cutoff, as many as
  are needed to cover the entries to delete, leave the same entries as one sweep without
  batches, and so does every further one.
\<close>

theorem batched_sweeps_converge:
  assumes "entries_ok d" "0 < b" "int (length (victims cutoff n (entries_tbl d))) \<le> int k * b"
  shows "entries_tbl (((\<lambda>d. fst (swept cutoff n b d)) ^^ k) d) = entries_tbl (fst (swept cutoff n 0 d))"
proof -
  let ?f = "\<lambda>d. fst (swept cutoff n b d)" and ?v = "victims cutoff n (entries_tbl d)"
  have dist: "distinct (map e_id (entries_tbl d))" using assms(1) by (simp add: entries_ok_def)
  have iter: "distinct (map e_id (entries_tbl ((?f ^^ j) d))) \<and>
      victims cutoff n (entries_tbl ((?f ^^ j) d)) = drop (j * nat b) ?v \<and>
      filter (keeps cutoff n (entries_tbl ((?f ^^ j) d))) (entries_tbl ((?f ^^ j) d)) = filter (keeps cutoff n (entries_tbl d)) (entries_tbl d)" for j
  proof (induction j)
    case (Suc j)
    then show ?case
      using swept_next [of "(?f ^^ j) d" cutoff n b] assms(2)
      by (simp add: batch_length_def add.commute)
  qed (simp add: dist)
  have "int (length ?v) \<le> int (k * nat b)" using assms(2,3) by simp
  then have "length ?v \<le> k * nat b" by linarith
  then have "victims cutoff n (entries_tbl ((?f ^^ k) d)) = []" using iter [of k] by simp
  then have "entries_tbl ((?f ^^ k) d) = filter (keeps cutoff n (entries_tbl d)) (entries_tbl d)"
    using iter [of k] keeps_all by metis
  then show ?thesis using swept_all [OF dist] by simp
qed

theorem batched_sweeps_converge_witness:
  "entries_tbl (((\<lambda>d. fst (swept 1000 1 1 d)) ^^ 2) (w_db sample_sweep_world)) =
     entries_tbl (fst (swept 1000 1 0 (w_db sample_sweep_world)))"
proof (rule batched_sweeps_converge [OF sample_sweep_ok])
  show "int (length (victims 1000 1 (entries_tbl (w_db sample_sweep_world)))) \<le> int 2 * 1" by code_simp
qed simp

text \<open>
  When sweeps fail the retention loop does not slow down but speeds up if its interval is
  longer than five minutes, as the default of one hour is: the backoff is capped at 300 seconds,
  below the interval it waits after a good sweep.
\<close>

theorem failing_sweeps_run_more_often:
  assumes "300 < interval" "0 < errors"
  shows "loop_timeout interval errors = 300 \<and> loop_timeout interval errors < loop_timeout interval 0"
proof -
  have "interval * 1 \<le> interval * 2 ^ nat (min (errors - 1) 5)" using assms(1) by (intro mult_left_mono) simp_all
  then have "300 < interval * 2 ^ nat (min (errors - 1) 5)" using assms(1) by linarith
  then show ?thesis using assms by (simp add: loop_timeout_def)
qed

theorem failing_sweeps_run_more_often_witness: "loop_timeout 3600 1 < loop_timeout 3600 0"
  using failing_sweeps_run_more_often [of 3600 1] by simp

end
