(* ===== verification/Collector.thy ===== *)
theory Collector
  imports Feed_State Background_Loop
begin

text \<open>
  \<open>metrics.py\<close>, the state gauges: \<open>_collect_state\<close> and the loop \<open>run_collector\<close>. A collection issues
  nine statements; each sees the database of its own moment (\<open>READ COMMITTED\<close>) and may fail, so
  both are arguments by the number of the statement. Gauges set before a failure keep their new
  values. The registry is the record \<open>gauges\<close>; the labelled ones are functions of the label.
\<close>

record gauges =
  g_feeds_by_status :: "feed_status \<Rightarrow> int"
  g_entries_total :: int
  g_due_feeds :: int
  g_max_age :: float_val
  g_stale :: "int \<Rightarrow> int"
  g_pool_checkedout :: int
  g_pool_overflow :: int
  g_last_success :: "instant option"
  g_errors :: int

record collect_env =
  ce_db :: "nat \<Rightarrow> db"
  ce_fails :: "nat \<Rightarrow> exn option"
  ce_now :: instant
  ce_done_at :: instant
  ce_checkedout :: int
  ce_pool_size :: int

definition run_query :: "collect_env \<Rightarrow> nat \<Rightarrow> (db \<Rightarrow> 'a) \<Rightarrow> exn + 'a" where
  "run_query env k q = (case ce_fails env k of Some e \<Rightarrow> Inl e | None \<Rightarrow> Inr (q (ce_db env k)))"

section \<open>Queries\<close>

definition count_status :: "feed_status \<Rightarrow> db \<Rightarrow> int" where
  "count_status s d = int (length (filter (\<lambda>f. f_status f = s) (feeds_tbl d)))"

definition count_entries :: "db \<Rightarrow> int" where
  "count_entries d = int (length (entries_tbl d))"

definition count_due :: "instant \<Rightarrow> db \<Rightarrow> int" where
  "count_due now d = int (length (filter (\<lambda>f. f_status f \<noteq> DEAD \<and> f_next_fetch_at f \<le> now) (feeds_tbl d)))"

definition active_reference :: "feed \<Rightarrow> instant" where
  "active_reference f = (case f_last_successful_fetch_at f of Some t \<Rightarrow> t | None \<Rightarrow> f_created_at f)"

text \<open>\<open>min\<close> of no rows is \<open>NULL\<close>.\<close>

definition oldest_active :: "db \<Rightarrow> instant option" where
  "oldest_active d = (case map active_reference (filter (\<lambda>f. f_status f = ACTIVE) (feeds_tbl d)) of
     [] \<Rightarrow> None | t # ts \<Rightarrow> Some (foldl min t ts))"

definition count_stale :: "instant \<Rightarrow> db \<Rightarrow> int" where
  "count_stale limit d =
     int (length (filter (\<lambda>f. f_status f = ACTIVE \<and> active_reference f < limit) (feeds_tbl d)))"

definition max_age_of_active :: "instant \<Rightarrow> instant option \<Rightarrow> float_val" where
  "max_age_of_active now oldest = (case oldest of None \<Rightarrow> 0 | Some t \<Rightarrow> max 0 (total_seconds (now - t)))"

section \<open>One collection\<close>

definition collect_status :: "collect_env \<Rightarrow> nat \<Rightarrow> feed_status \<Rightarrow> gauges \<Rightarrow> (gauges, exn, unit) outcome" where
  "collect_status env k s g =
     and_then (lift_result g (run_query env k (count_status s))) (\<lambda>g n.
       (g\<lparr>g_feeds_by_status := (g_feeds_by_status g)(s := n)\<rparr>, Inr ()))"

definition collect_stale :: "collect_env \<Rightarrow> nat \<Rightarrow> int \<Rightarrow> gauges \<Rightarrow> (gauges, exn, unit) outcome" where
  "collect_stale env k threshold_seconds g =
     and_then (lift_result g (try_bind (dt_add (ce_now env) (- (threshold_seconds * US)))
         (\<lambda>limit. run_query env k (count_stale limit)))) (\<lambda>g n.
       (g\<lparr>g_stale := (g_stale g)(threshold_seconds := n)\<rparr>, Inr ()))"

definition collect_state :: "collect_env \<Rightarrow> gauges \<Rightarrow> (gauges, exn, unit) outcome" where
  "collect_state env g =
     and_then (collect_status env 0 ACTIVE g) (\<lambda>g _.
     and_then (collect_status env 1 BROKEN g) (\<lambda>g _.
     and_then (collect_status env 2 DEAD g) (\<lambda>g _.
     and_then (lift_result g (run_query env 3 count_entries)) (\<lambda>g entry_count.
     let g = g\<lparr>g_entries_total := entry_count\<rparr> in
     and_then (lift_result g (run_query env 4 (count_due (ce_now env)))) (\<lambda>g due_count.
     let g = g\<lparr>g_due_feeds := due_count\<rparr> in
     and_then (lift_result g (run_query env 5 oldest_active)) (\<lambda>g oldest.
     let g = g\<lparr>g_max_age := max_age_of_active (ce_now env) oldest\<rparr> in
     and_then (collect_stale env 6 1800 g) (\<lambda>g _.
     and_then (collect_stale env 7 3600 g) (\<lambda>g _.
     and_then (collect_stale env 8 86400 g) (\<lambda>g _.
       (g\<lparr>g_pool_checkedout := ce_checkedout env,
          g_pool_overflow := max 0 (ce_checkedout env - ce_pool_size env)\<rparr>, Inr ()))))))))))"

section \<open>The loop\<close>

definition collector_tick :: "collect_env \<Rightarrow> gauges \<Rightarrow> (gauges, exn, unit) outcome" where
  "collector_tick env g = (case collect_state env g of
     (g', Inr _) \<Rightarrow> (g'\<lparr>g_last_success := Some (ce_done_at env)\<rparr>, Inr ())
   | (g', Inl e) \<Rightarrow> if caught e then (g'\<lparr>g_errors := g_errors g' + 1\<rparr>, Inr ()) else (g', Inl e))"

text \<open>
  \<open>run_collector\<close>: the stop event is looked at before a collection; the wait between two
  collections always takes the interval. One unit of fuel per collection.
\<close>

fun run_collector ::
  "(nat \<Rightarrow> collect_env) \<Rightarrow> (nat \<Rightarrow> bool) \<Rightarrow> nat \<Rightarrow> nat \<Rightarrow> gauges \<Rightarrow> gauges \<times> nat \<times> loop_status" where
  "run_collector envs stop 0 n g = (g, n, Running)"
| "run_collector envs stop (Suc fuel) n g =
     (if stop n then (g, n, Stopped)
      else case collector_tick (envs n) g of
        (g', Inr _) \<Rightarrow> run_collector envs stop fuel (Suc n) g'
      | (g', Inl e) \<Rightarrow> (g', n, Raised e))"

section \<open>Facts\<close>

lemma foldl_min_le: "x \<in> set (t # ts) \<Longrightarrow> foldl min t ts \<le> x" for t :: int
proof (induction ts arbitrary: t x)
  case (Cons u us)
  have "foldl min (min t u) us \<le> min t u" by (rule Cons.IH) simp
  then show ?case using Cons.prems Cons.IH [of x "min t u"] by auto
qed simp

lemma length_filter_mono:
  assumes "\<And>x. p x \<Longrightarrow> q x"
  shows "length (filter p xs) \<le> length (filter q xs)"
  by (induction xs) (auto dest: assms)

lemma oldest_active_le:
  assumes "f \<in> set (feeds_tbl d)" "f_status f = ACTIVE"
  shows "\<exists>t. oldest_active d = Some t \<and> t \<le> active_reference f"
proof -
  let ?xs = "map active_reference (filter (\<lambda>f. f_status f = ACTIVE) (feeds_tbl d))"
  have x: "active_reference f \<in> set ?xs" using assms by auto
  then obtain t ts where e: "?xs = t # ts" by (cases ?xs) auto
  have "foldl min t ts \<le> active_reference f" by (rule foldl_min_le) (use x in \<open>simp only: e\<close>)
  with e show ?thesis by (simp add: oldest_active_def)
qed

lemma count_stale_mono: "t \<le> u \<Longrightarrow> count_stale t d \<le> count_stale u d"
  unfolding count_stale_def of_nat_le_iff by (rule length_filter_mono) simp

lemma count_stale_le_active: "count_stale t d \<le> count_status ACTIVE d"
  unfolding count_stale_def count_status_def of_nat_le_iff by (rule length_filter_mono) simp

lemma count_status_total:
  "count_status ACTIVE d + count_status BROKEN d + count_status DEAD d = int (length (feeds_tbl d))"
proof -
  have "length (filter (\<lambda>f. f_status f = ACTIVE) fs) + length (filter (\<lambda>f. f_status f = BROKEN) fs) +
      length (filter (\<lambda>f. f_status f = DEAD) fs) = length fs" for fs
  proof (induction fs)
    case (Cons f fs)
    then show ?case by (cases "f_status f") simp_all
  qed simp
  from this [of "feeds_tbl d"] show ?thesis unfolding count_status_def by linarith
qed

text \<open>A collection that nothing disturbs sets every gauge from its snapshots.\<close>

lemma collect_state_succeeds:
  assumes "\<And>k. ce_fails env k = None" "valid_instant (ce_now env)" "valid_instant (ce_now env - 86400 * US)"
  shows "\<exists>g'. collect_state env g = (g', Inr ()) \<and>
    g_feeds_by_status g' ACTIVE = count_status ACTIVE (ce_db env 0) \<and>
    g_feeds_by_status g' BROKEN = count_status BROKEN (ce_db env 1) \<and>
    g_feeds_by_status g' DEAD = count_status DEAD (ce_db env 2) \<and>
    g_entries_total g' = count_entries (ce_db env 3) \<and> g_due_feeds g' = count_due (ce_now env) (ce_db env 4) \<and>
    g_max_age g' = max_age_of_active (ce_now env) (oldest_active (ce_db env 5)) \<and>
    g_stale g' 1800 = count_stale (ce_now env - 1800 * US) (ce_db env 6) \<and>
    g_stale g' 3600 = count_stale (ce_now env - 3600 * US) (ce_db env 7) \<and>
    g_stale g' 86400 = count_stale (ce_now env - 86400 * US) (ce_db env 8) \<and>
    g_pool_checkedout g' = ce_checkedout env \<and> g_pool_overflow g' = max 0 (ce_checkedout env - ce_pool_size env) \<and>
    g_errors g' = g_errors g \<and> g_last_success g' = g_last_success g"
proof -
  have q: "run_query env k f = Inr (f (ce_db env k))" for k and f :: "db \<Rightarrow> 'b"
    by (simp add: run_query_def assms(1))
  have v: "valid_instant (ce_now env - t * US)" if "0 \<le> t" "t \<le> 86400" for t
    using that assms(2,3) by (simp add: valid_instant_def US_def)
  have a: "dt_add (ce_now env) (- (1800 * US)) = Inr (ce_now env - 1800 * US)"
    "dt_add (ce_now env) (- (3600 * US)) = Inr (ce_now env - 3600 * US)"
    "dt_add (ce_now env) (- (86400 * US)) = Inr (ce_now env - 86400 * US)"
    using v by (simp_all add: dt_add_def)
  show ?thesis
    by (simp add: collect_state_def collect_status_def collect_stale_def lift_result_def q a Let_def)
qed

text \<open>Time thresholds and the age gauge agree: a stale feed shows in the age.\<close>

lemma stale_shows_in_age:
  assumes "0 < count_stale (now - n * US) d" "0 \<le> n" "n < 2 ^ 53"
  shows "of_int n \<le> max_age_of_active now (oldest_active d)"
proof -
  from assms(1) obtain f where f: "f \<in> set (feeds_tbl d)" "f_status f = ACTIVE" "active_reference f < now - n * US"
    by (auto simp: count_stale_def filter_empty_conv)
  then obtain t where t: "oldest_active d = Some t" "t \<le> active_reference f" using oldest_active_le by blast
  with f(3) have "n * US \<le> now - t" by simp
  then have "of_int (n * US) \<le> (of_int (now - t) :: rat)" by (simp only: of_int_le_iff)
  then have "of_int n \<le> (of_int (now - t) / 1000000 :: rat)" by (simp add: US_def pos_le_divide_eq)
  then have "of_int n \<le> total_seconds (now - t)"
    unfolding total_seconds_def by (rule fl_ge_of_int) (use assms in simp)
  with t show ?thesis by (simp add: max_age_of_active_def)
qed

text \<open>A collection, finished or not, leaves the bookkeeping of the loop alone.\<close>

definition same_bookkeeping :: "gauges \<Rightarrow> gauges \<Rightarrow> bool" where
  "same_bookkeeping g g' \<longleftrightarrow> g_errors g' = g_errors g \<and> g_last_success g' = g_last_success g"

interpretation bookkeeping: state_evolution same_bookkeeping
  by unfold_locales (auto simp: same_bookkeeping_def)

lemma collect_state_bookkeeping: "same_bookkeeping g (fst (collect_state env g))"
proof -
  have st: "same_bookkeeping g (fst (collect_status env k s g))" for k s g
    unfolding collect_status_def by (rule bookkeeping.evolve_lift) (simp add: same_bookkeeping_def)
  have sl: "same_bookkeeping g (fst (collect_stale env k s g))" for k s g
    unfolding collect_stale_def by (rule bookkeeping.evolve_lift) (simp add: same_bookkeeping_def)
  have sl': "same_bookkeeping g h \<Longrightarrow> same_bookkeeping g (fst (collect_stale env k s h))" for g h k s
    using sl bookkeeping.evolve_trans by blast
  show ?thesis
    unfolding collect_state_def Let_def
    by (intro bookkeeping.evolve_and_then st sl') (simp_all add: lift_result_def same_bookkeeping_def)
qed

section \<open>Properties\<close>

lemma foldl_min: "foldl min t ts = Min (insert t (set ts))" for t :: int
proof (induction ts arbitrary: t)
  case (Cons u us)
  have "foldl min t (u # us) = Min (insert (min t u) (set us))" by (simp add: Cons.IH)
  also have "\<dots> = Min (insert t (insert u (set us)))" by (cases "us = []") (auto simp: min.assoc)
  finally show ?case by simp
qed simp

lemma oldest_active_eq:
  "oldest_active d = (let A = {f \<in> set (feeds_tbl d). f_status f = ACTIVE} in
     if A = {} then None else Some (Min (reference_time ` A)))"
proof -
  have ref: "active_reference = reference_time" by (simp add: fun_eq_iff active_reference_def reference_time_def)
  let ?A = "{f \<in> set (feeds_tbl d). f_status f = ACTIVE}"
  let ?xs = "map reference_time (filter (\<lambda>f. f_status f = ACTIVE) (feeds_tbl d))"
  have A: "set ?xs = reference_time ` ?A" by auto
  show ?thesis
  proof (cases ?xs)
    case Nil
    then have "?A = {}" using A by auto
    then show ?thesis using Nil by (simp add: oldest_active_def ref)
  next
    case (Cons t ts)
    then have "insert t (set ts) = reference_time ` ?A" "?A \<noteq> {}" using A by auto
    then show ?thesis using Cons by (simp add: oldest_active_def ref foldl_min)
  qed
qed

text \<open>
  C36: A collection over a database that does not change meanwhile sets every gauge to what the tables
  hold: for each status the number of feeds in it; the number of entries; the number of feeds
  that are due, that is not dead and with \<open>next_fetch_at\<close> reached; for each threshold the number of
  active feeds whose last success (or creation) is longer ago; the age of the oldest of these in
  seconds, zero without active feeds; and for the connection pool the connections in use and
  those beyond its size. A stale feed shows in the age gauge. The error counter stays and the time
  of the last success is set.
\<close>

theorem gauges_describe_database:
  assumes "\<forall>k. ce_fails env k = None \<and> ce_db env k = d" "feeds_ok d" "now = ce_now env"
    and "valid_instant now" "valid_instant (now - 86400 * US)"
    and "A = {f \<in> set (feeds_tbl d). f_status f = ACTIVE}"
  shows "\<exists>g'. collector_tick env g = (g', Inr ()) \<and>
    (\<forall>s. g_feeds_by_status g' s = int (card {f \<in> set (feeds_tbl d). f_status f = s})) \<and>
    g_entries_total g' = int (length (entries_tbl d)) \<and>
    g_due_feeds g' = int (card {f \<in> set (feeds_tbl d). f_status f \<noteq> DEAD \<and> f_next_fetch_at f \<le> now}) \<and>
    (\<forall>n \<in> {1800, 3600, 86400}. g_stale g' n = int (card {f \<in> A. reference_time f < now - n * US}) \<and>
       (0 < g_stale g' n \<longrightarrow> of_int n \<le> g_max_age g')) \<and>
    g_max_age g' = (if A = {} then 0 else max 0 (total_seconds (now - Min (reference_time ` A)))) \<and>
    g_pool_checkedout g' = ce_checkedout env \<and> g_pool_overflow g' = max 0 (ce_checkedout env - ce_pool_size env) \<and>
    g_errors g' = g_errors g \<and> g_last_success g' = Some (ce_done_at env)"
proof -
  have f: "\<And>k. ce_fails env k = None" and d: "\<And>k. ce_db env k = d" using assms(1) by auto
  obtain h where h: "collect_state env g = (h, Inr ())"
    and c: "g_feeds_by_status h ACTIVE = count_status ACTIVE d" "g_feeds_by_status h BROKEN = count_status BROKEN d"
      "g_feeds_by_status h DEAD = count_status DEAD d" "g_entries_total h = count_entries d" "g_due_feeds h = count_due now d"
      "g_max_age h = max_age_of_active now (oldest_active d)"
      "g_stale h 1800 = count_stale (now - 1800 * US) d" "g_stale h 3600 = count_stale (now - 3600 * US) d"
      "g_stale h 86400 = count_stale (now - 86400 * US) d"
      "g_pool_checkedout h = ce_checkedout env" "g_pool_overflow h = max 0 (ce_checkedout env - ce_pool_size env)"
      "g_errors h = g_errors g"
    using collect_state_succeeds [OF f assms(4,5) [unfolded assms(3)], of g] unfolding d assms(3) by blast
  have dist: "distinct (map f_id (feeds_tbl d))" using assms(2) by (simp add: feeds_ok_def)
  have card: "length (filter P (feeds_tbl d)) = card {f \<in> set (feeds_tbl d). P f}" for P
    using distinct_card [of "filter P (feeds_tbl d)"] dist by (simp add: distinct_map)
  have "g_feeds_by_status h s = int (card {f \<in> set (feeds_tbl d). f_status f = s})" for s
    by (cases s) (simp_all add: c count_status_def card)
  moreover have "g_stale h n = int (card {f \<in> A. reference_time f < now - n * US}) \<and> (0 < g_stale h n \<longrightarrow> of_int n \<le> g_max_age h)"
    if "n \<in> {1800, 3600, 86400}" for n
  proof -
    have s: "g_stale h n = count_stale (now - n * US) d" using that c by auto
    have "{f \<in> set (feeds_tbl d). f_status f = ACTIVE \<and> active_reference f < now - n * US} = {f \<in> A. reference_time f < now - n * US}"
      by (auto simp: assms(6) active_reference_def reference_time_def)
    then have "g_stale h n = int (card {f \<in> A. reference_time f < now - n * US})" by (simp add: s count_stale_def card)
    then show ?thesis using stale_shows_in_age [of now n d] that s c(6) by auto
  qed
  moreover have "g_max_age h = (if A = {} then 0 else max 0 (total_seconds (now - Min (reference_time ` A))))"
    using oldest_active_eq [of d, folded assms(6)] by (simp add: c(6) max_age_of_active_def Let_def)
  ultimately show ?thesis
    by (intro exI [of _ "h\<lparr>g_last_success := Some (ce_done_at env)\<rparr>"])
      (simp add: collector_tick_def h c(4,5,10-12) count_entries_def count_due_def card)
qed

definition zero_gauges :: gauges where
  "zero_gauges = \<lparr>g_feeds_by_status = (\<lambda>_. 0), g_entries_total = 0, g_due_feeds = 0, g_max_age = 0, g_stale = (\<lambda>_. 0),
     g_pool_checkedout = 0, g_pool_overflow = 0, g_last_success = None, g_errors = 0\<rparr>"

definition sample_collect_env :: collect_env where
  "sample_collect_env = \<lparr>ce_db = (\<lambda>_. sample_db), ce_fails = (\<lambda>_. None), ce_now = 100000000000, ce_done_at = 100000000001,
     ce_checkedout = 9, ce_pool_size = 8\<rparr>"

theorem gauges_describe_database_witness:
  "\<exists>g'. collector_tick sample_collect_env zero_gauges = (g', Inr ()) \<and> g_entries_total g' = 1 \<and>
     g_feeds_by_status g' ACTIVE = 1 \<and> g_feeds_by_status g' BROKEN = 0 \<and> g_due_feeds g' = 1 \<and> g_pool_overflow g' = 1"
proof -
  have a: "\<forall>k. ce_fails sample_collect_env k = None \<and> ce_db sample_collect_env k = sample_db"
    by (simp add: sample_collect_env_def)
  have v: "valid_instant (ce_now sample_collect_env)" "valid_instant (ce_now sample_collect_env - 86400 * US)"
    by (simp_all add: sample_collect_env_def valid_instant_def dt_min_def dt_max_def US_def)
  have ok: "feeds_ok sample_db" using sample_db_ok(1) by (simp add: db_ok_def)
  have rows: "{f \<in> set (feeds_tbl sample_db). f_status f = s} = (if s = ACTIVE then {sample_feed} else {})"
    "{f \<in> set (feeds_tbl sample_db). f_status f \<noteq> DEAD \<and> f_next_fetch_at f \<le> ce_now sample_collect_env} = {sample_feed}" for s
    by (auto simp: sample_db_def sample_feed_def sample_collect_env_def)
  show ?thesis
    using gauges_describe_database [OF a ok refl v refl, of zero_gauges] unfolding rows
    by (elim exE conjE) (simp add: sample_db_def sample_collect_env_def)
qed

text \<open>
  The collector loop survives every failing collection: as long as nothing but an
  \<open>Exception\<close> is raised and the stop event is not set, it performs one collection per unit of
  fuel and adds at most one error for each; once the event is set it stops.
\<close>

theorem collector_survives:
  assumes "\<forall>k < fuel. \<forall>g e. snd (collect_state (envs (n + k)) g) = Inl e \<longrightarrow> caught e"
    and "\<forall>k < fuel. \<not> stop (n + k)"
  shows "\<exists>g'. run_collector envs stop fuel n g = (g', n + fuel, Running) \<and>
    g_errors g \<le> g_errors g' \<and> g_errors g' \<le> g_errors g + int fuel \<and>
    (stop (n + fuel) \<longrightarrow> run_collector envs stop (Suc fuel) n g = (g', n + fuel, Stopped))"
  using assms
proof (induction fuel arbitrary: n g)
  case (Suc fuel)
  obtain h r where c: "collect_state (envs n) g = (h, r)" by fastforce
  have stop: "\<not> stop n" using Suc.prems(2) by fastforce
  have e: "g_errors h = g_errors g" using collect_state_bookkeeping [of g "envs n"] c by (simp add: same_bookkeeping_def)
  have "\<forall>x. snd (collect_state (envs (n + 0)) g) = Inl x \<longrightarrow> caught x" using Suc.prems(1) by blast
  then have "r = Inl x \<Longrightarrow> caught x" for x using c by simp
  then obtain g1 where t: "collector_tick (envs n) g = (g1, Inr ())"
    and ge: "g_errors g \<le> g_errors g1" "g_errors g1 \<le> g_errors g + 1"
    using c e by (cases r) (auto simp: collector_tick_def)
  have p1: "\<forall>k < fuel. \<forall>g e. snd (collect_state (envs (Suc n + k)) g) = Inl e \<longrightarrow> caught e"
    using Suc.prems(1) by (metis Suc_less_eq add_Suc_shift)
  have p2: "\<forall>k < fuel. \<not> stop (Suc n + k)" using Suc.prems(2) by (metis Suc_less_eq add_Suc_shift)
  obtain g' where g': "run_collector envs stop fuel (Suc n) g1 = (g', Suc n + fuel, Running)"
      "g_errors g1 \<le> g_errors g'" "g_errors g' \<le> g_errors g1 + int fuel"
      "stop (Suc n + fuel) \<longrightarrow> run_collector envs stop (Suc fuel) (Suc n) g1 = (g', Suc n + fuel, Stopped)"
    using Suc.IH [of "Suc n" g1, OF p1 p2] by blast
  have step: "run_collector envs stop (Suc k) n g = run_collector envs stop k (Suc n) g1" for k
    using stop t by simp
  show ?case
    using g' ge unfolding step by (intro exI [of _ g']) auto
qed simp

theorem collector_survives_witness:
  "\<exists>g'. run_collector (\<lambda>_. sample_collect_env\<lparr>ce_fails := (\<lambda>k. if k = 4 then Some (raise_exn DBAPIError) else None)\<rparr>)
     (\<lambda>n. n = 2) 3 0 zero_gauges = (g', 2, Stopped) \<and> g_errors g' \<le> 2"
proof -
  let ?env = "sample_collect_env\<lparr>ce_fails := (\<lambda>k. if k = 4 then Some (raise_exn DBAPIError) else None)\<rparr>"
  let ?run = "run_collector (\<lambda>_. ?env) (\<lambda>n. n = 2)"
  have "caught e" if "snd (collect_state ?env g) = Inl e" for g e
    using that by (simp add: collect_state_def collect_status_def lift_result_def run_query_def Let_def is_Exception_def
        split: if_splits) (auto simp: is_Exception_def)
  then have a: "\<forall>k < 2. \<forall>g e. snd (collect_state ?env g) = Inl e \<longrightarrow> caught e" by blast
  have b: "\<forall>k < (2::nat). \<not> 0 + k = 2" by simp
  have "g_errors zero_gauges = 0" by (simp add: zero_gauges_def)
  with collector_survives [of 2 "\<lambda>_. ?env" 0 "\<lambda>n. n = 2" zero_gauges, OF a b]
  obtain g' where "?run (Suc 2) 0 zero_gauges = (g', 2, Stopped)" "g_errors g' \<le> 2" by auto
  then show ?thesis unfolding eval_nat_numeral by blast
qed

end
