(* ===== verification/Api_Errors.thy ===== *)
theory Api_Errors
  imports PyExn PyText
begin

text \<open>
  \<open>api/errors.py\<close>: how an error of a request becomes a response. The errors a handler can end
  with are those the application registers a handler for (\<open>HTTPException\<close>,
  \<open>RequestValidationError\<close>, and slowapi's \<open>RateLimitExceeded\<close> in \<open>main.py\<close>) and every other
  exception, which the server turns into a plain 500. \<open>http.HTTPStatus\<close> is the table of the
  standard library (Python 3.12).
\<close>

record validation_error =
  ve_loc :: "string option"
  ve_msg :: "string option"

datatype api_error =
    HTTPException int "string option"
  | RequestValidationError "validation_error list"
  | RateLimitExceeded
  | Unhandled exn

definition HTTP_PHRASES :: "(int \<times> string) list" where
  "HTTP_PHRASES =
     [(100, ''Continue''), (101, ''Switching Protocols''), (102, ''Processing''),
      (103, ''Early Hints''), (200, ''OK''), (201, ''Created''), (202, ''Accepted''),
      (203, ''Non-Authoritative Information''), (204, ''No Content''), (205, ''Reset Content''),
      (206, ''Partial Content''), (207, ''Multi-Status''), (208, ''Already Reported''),
      (226, ''IM Used''), (300, ''Multiple Choices''), (301, ''Moved Permanently''), (302, ''Found''),
      (303, ''See Other''), (304, ''Not Modified''), (305, ''Use Proxy''),
      (307, ''Temporary Redirect''), (308, ''Permanent Redirect''), (400, ''Bad Request''),
      (401, ''Unauthorized''), (402, ''Payment Required''), (403, ''Forbidden''), (404, ''Not Found''),
      (405, ''Method Not Allowed''), (406, ''Not Acceptable''),
      (407, ''Proxy Authentication Required''), (408, ''Request Timeout''), (409, ''Conflict''),
      (410, ''Gone''), (411, ''Length Required''), (412, ''Precondition Failed''),
      (413, ''Request Entity Too Large''), (414, ''Request-URI Too Long''),
      (415, ''Unsupported Media Type''), (416, ''Requested Range Not Satisfiable''),
      (417, ''Expectation Failed''), (418, ''I'' @ CHR 0x27 # ''m a Teapot''),
      (421, ''Misdirected Request''), (422, ''Unprocessable Entity''), (423, ''Locked''),
      (424, ''Failed Dependency''), (425, ''Too Early''), (426, ''Upgrade Required''),
      (428, ''Precondition Required''), (429, ''Too Many Requests''),
      (431, ''Request Header Fields Too Large''), (451, ''Unavailable For Legal Reasons''),
      (500, ''Internal Server Error''), (501, ''Not Implemented''), (502, ''Bad Gateway''),
      (503, ''Service Unavailable''), (504, ''Gateway Timeout''),
      (505, ''HTTP Version Not Supported''), (506, ''Variant Also Negotiates''),
      (507, ''Insufficient Storage''), (508, ''Loop Detected''), (510, ''Not Extended''),
      (511, ''Network Authentication Required'')]"

definition PROBLEM_JSON_MEDIA_TYPE :: string where
  "PROBLEM_JSON_MEDIA_TYPE = ''application/problem+json''"

record problem =
  p_type :: string
  p_title :: string
  p_status :: int
  p_detail :: string
  p_instance :: string

record problem_response =
  pr_status :: int
  pr_media_type :: string
  pr_body :: problem

definition status_title :: "int \<Rightarrow> string" where
  "status_title status_code = (case map_of HTTP_PHRASES status_code of Some phrase \<Rightarrow> phrase | None \<Rightarrow> ''Error'')"

definition make_problem :: "string \<Rightarrow> int \<Rightarrow> string \<Rightarrow> string \<Rightarrow> problem" where
  "make_problem path status_code title detail =
     \<lparr>p_type = ''about:blank'', p_title = title, p_status = status_code, p_detail = detail, p_instance = path\<rparr>"

definition http_exception_handler :: "string \<Rightarrow> int \<Rightarrow> string option \<Rightarrow> problem_response" where
  "http_exception_handler path status_code exc_detail =
     (let title = status_title status_code;
          detail = (case exc_detail of None \<Rightarrow> title | Some d \<Rightarrow> d)
      in \<lparr>pr_status = status_code, pr_media_type = PROBLEM_JSON_MEDIA_TYPE,
          pr_body = make_problem path status_code title detail\<rparr>)"

definition validation_exception_handler :: "string \<Rightarrow> validation_error list \<Rightarrow> problem_response" where
  "validation_exception_handler path errors =
     (let detail = (case errors of
            first # _ \<Rightarrow>
              (case ve_loc first of Some l \<Rightarrow> l | None \<Rightarrow> ''()'') @ '': '' @
              (case ve_msg first of Some m \<Rightarrow> m | None \<Rightarrow> ''validation error'')
          | [] \<Rightarrow> ''validation error'')
      in \<lparr>pr_status = 422, pr_media_type = PROBLEM_JSON_MEDIA_TYPE,
          pr_body = make_problem path 422 ''Unprocessable Entity'' detail\<rparr>)"

text \<open>The registered handlers; \<open>None\<close> is an error none of them takes.\<close>

definition exception_handlers :: "string \<Rightarrow> api_error \<Rightarrow> problem_response option" where
  "exception_handlers path e = (case e of
     HTTPException status_code detail \<Rightarrow> Some (http_exception_handler path status_code detail)
   | RequestValidationError errors \<Rightarrow> Some (validation_exception_handler path errors)
   | _ \<Rightarrow> None)"

lemma status_title_422: "status_title 422 = ''Unprocessable Entity''"
  by (simp add: status_title_def HTTP_PHRASES_def)

text \<open>
  Every problem document is a response whose status line and body agree, whose title is the
  standard phrase of that status, whose instance is the path of the request and whose media type
  is \<open>application/problem+json\<close>.
\<close>

theorem problem_documents_consistent:
  assumes "exception_handlers path e = Some r"
  shows "p_status (pr_body r) = pr_status r \<and> p_title (pr_body r) = status_title (pr_status r) \<and>
    p_instance (pr_body r) = path \<and> p_type (pr_body r) = ''about:blank'' \<and>
    pr_media_type r = PROBLEM_JSON_MEDIA_TYPE"
  using assms status_title_422
  by (auto simp: exception_handlers_def http_exception_handler_def validation_exception_handler_def
      make_problem_def Let_def split: api_error.splits)

theorem problem_documents_consistent_witness:
  "p_title (pr_body (http_exception_handler ''/v1/feeds/7'' 404 (Some ''feed not found''))) = ''Not Found''"
proof -
  have "exception_handlers ''/v1/feeds/7'' (HTTPException 404 (Some ''feed not found'')) =
      Some (http_exception_handler ''/v1/feeds/7'' 404 (Some ''feed not found''))"
    by (simp add: exception_handlers_def)
  from problem_documents_consistent [OF this] show ?thesis
    by (simp add: http_exception_handler_def Let_def status_title_def HTTP_PHRASES_def)
qed

end
