(* ===== verification/Schemas.thy ===== *)
theory Schemas
  imports Models Api_Errors
begin

text \<open>
  \<open>schemas.py\<close>: the request and response models of the API. \<open>FeedCreate\<close> checks its URL in two
  steps: the validator of the repository, then pydantic's \<open>HttpUrl\<close>, which is the argument
  \<open>http_url\<close> (the text of the accepted URL, or the message of the rejection). The response models
  read the attributes of a row.
\<close>

text \<open>The JSON value of the field \<open>url\<close>: a string or something else.\<close>

datatype url_field = UrlText string | UrlOther | UrlMissing

definition reject_internal_whitespace :: "string \<Rightarrow> bool" where
  "reject_internal_whitespace value \<longleftrightarrow> list_ex is_space (strip value)"

definition url_error :: "string \<Rightarrow> api_error" where
  "url_error msg = RequestValidationError
     [\<lparr>ve_loc = Some ([CHR ''('', CHR 0x27] @ ''body'' @ [CHR 0x27] @ '', '' @ [CHR 0x27] @ ''url'' @ [CHR 0x27, CHR '')'']),
       ve_msg = Some msg\<rparr>]"

definition feed_create :: "(url_field \<Rightarrow> string + string) \<Rightarrow> url_field \<Rightarrow> api_error + string" where
  "feed_create http_url field =
     (case field of
        UrlText value \<Rightarrow>
          if reject_internal_whitespace value then Inl (url_error ''Value error, url must not contain whitespace'')
          else (case http_url field of Inl msg \<Rightarrow> Inl (url_error msg) | Inr url \<Rightarrow> Inr url)
      | _ \<Rightarrow> (case http_url field of Inl msg \<Rightarrow> Inl (url_error msg) | Inr url \<Rightarrow> Inr url))"

record feed_response =
  fr_id :: int
  fr_url :: string
  fr_effective_url :: string
  fr_title :: "string option"
  fr_status :: feed_status
  fr_last_successful_fetch_at :: "instant option"
  fr_last_attempt_at :: "instant option"
  fr_last_error_code :: "error_code option"
  fr_created_at :: instant

definition feed_response_of :: "feed \<Rightarrow> feed_response" where
  "feed_response_of f = \<lparr>fr_id = f_id f, fr_url = f_url f, fr_effective_url = f_effective_url f,
     fr_title = f_title f, fr_status = f_status f, fr_last_successful_fetch_at = f_last_successful_fetch_at f,
     fr_last_attempt_at = f_last_attempt_at f, fr_last_error_code = f_last_error_code f,
     fr_created_at = f_created_at f\<rparr>"

record entry_response =
  er_id :: int
  er_guid :: string
  er_feed_id :: int
  er_url :: string
  er_title :: "string option"
  er_content :: "string option"
  er_author :: "string option"
  er_published_at :: "instant option"
  er_fetched_at :: instant
  er_content_updated_at :: instant

definition entry_response_of :: "entry \<Rightarrow> entry_response" where
  "entry_response_of e = \<lparr>er_id = e_id e, er_guid = e_guid e, er_feed_id = e_feed_id e, er_url = e_url e,
     er_title = e_title e, er_content = e_content e, er_author = e_author e,
     er_published_at = e_published_at e, er_fetched_at = e_fetched_at e,
     er_content_updated_at = e_content_updated_at e\<rparr>"

record paginated_feeds =
  pf_items :: "feed_response list"
  pf_next_cursor :: "string option"

record paginated_entries =
  pe_items :: "entry_response list"
  pe_next_cursor :: "string option"

end
