(* ===== verification/PyJson.thy ===== *)
theory PyJson
  imports PyFloat PyText
begin

text \<open>
  The parts of the standard library behind the API's opaque cursors: \<open>base64.urlsafe_b64encode\<close>
  and \<open>urlsafe_b64decode\<close> (the lenient decoder of \<open>binascii\<close>, which skips foreign characters and
  stops at padding), strict UTF-8 decoding, and \<open>json.dumps\<close> and \<open>json.loads\<close>. A byte string is
  a \<open>string\<close>; decoded text is the list of its code points, so that every Unicode text has a
  value. \<open>json.loads\<close> is a scanner into tokens and a machine with an explicit stack; Python's
  bound on the nesting of containers is its argument \<open>depth\<close>. Malformed input is a
  \<open>ValueError\<close> (\<open>binascii.Error\<close>, \<open>UnicodeDecodeError\<close> and \<open>JSONDecodeError\<close> are subclasses), and
  nesting beyond the bound an exception of another class (\<open>RecursionError\<close>).
\<close>

type_synonym text_pts = "int list"

definition cp :: "char \<Rightarrow> int" where
  "cp c = int (ord c)"

definition pts :: "string \<Rightarrow> text_pts" where
  "pts s = map cp s"

section \<open>Base64\<close>

definition b64_char :: "int \<Rightarrow> char" where
  "b64_char n = char_of (nat
     (if n < 26 then 65 + n else if n < 52 then 71 + n else if n < 62 then n - 4
      else if n = 62 then 45 else 95))"

definition b64_val :: "char \<Rightarrow> int option" where
  "b64_val c = (let n = cp c in
     if 65 \<le> n \<and> n \<le> 90 then Some (n - 65)
     else if 97 \<le> n \<and> n \<le> 122 then Some (n - 71)
     else if 48 \<le> n \<and> n \<le> 57 then Some (n + 4)
     else if n = 45 \<or> n = 43 then Some 62
     else if n = 95 \<or> n = 47 then Some 63
     else None)"

definition byte :: "int \<Rightarrow> char" where
  "byte n = char_of (nat (n mod 256))"

fun urlsafe_b64encode :: "string \<Rightarrow> string" where
  "urlsafe_b64encode [] = []"
| "urlsafe_b64encode [a] = [b64_char (cp a div 4), b64_char (cp a mod 4 * 16), CHR ''='', CHR ''='']"
| "urlsafe_b64encode [a, b] =
     [b64_char (cp a div 4), b64_char (cp a mod 4 * 16 + cp b div 16), b64_char (cp b mod 16 * 4), CHR ''='']"
| "urlsafe_b64encode (a # b # c # cs) =
     b64_char (cp a div 4) # b64_char (cp a mod 4 * 16 + cp b div 16) #
     b64_char (cp b mod 16 * 4 + cp c div 64) # b64_char (cp c mod 64) # urlsafe_b64encode cs"

text \<open>
  The decoder's loop: the position in the group of four, the padding seen, the bits left over
  and the bytes written so far (in reverse).
\<close>

fun a2b_base64 :: "int \<Rightarrow> int \<Rightarrow> int \<Rightarrow> string \<Rightarrow> string \<Rightarrow> string option" where
  "a2b_base64 quad pads left acc [] = (if quad = 0 then Some (rev acc) else None)"
| "a2b_base64 quad pads left acc (c # cs) =
     (if c = CHR ''='' then
        (if 2 \<le> quad then
           (if quad + (pads + 1) \<ge> 4 then Some (rev acc) else a2b_base64 quad (pads + 1) left acc cs)
         else a2b_base64 quad pads left acc cs)
      else (case b64_val c of
        None \<Rightarrow> a2b_base64 quad pads left acc cs
      | Some v \<Rightarrow>
          if quad = 0 then a2b_base64 1 0 v acc cs
          else if quad = 1 then a2b_base64 2 0 (v mod 16) (byte (left * 4 + v div 16) # acc) cs
          else if quad = 2 then a2b_base64 3 0 (v mod 4) (byte (left * 16 + v div 4) # acc) cs
          else a2b_base64 0 0 0 (byte (left * 64 + v) # acc) cs))"

definition urlsafe_b64decode :: "string \<Rightarrow> exn + string" where
  "urlsafe_b64decode s =
     (if \<not> is_ascii s then Inl (raise_exn ValueError)
      else case a2b_base64 0 0 0 [] s of None \<Rightarrow> Inl (raise_exn ValueError) | Some b \<Rightarrow> Inr b)"

section \<open>UTF-8\<close>

definition is_cont :: "int \<Rightarrow> bool" where
  "is_cont b = (128 \<le> b \<and> b < 192)"

fun utf8_decode :: "int list \<Rightarrow> text_pts option" where
  "utf8_decode [] = Some []"
| "utf8_decode (a # as) =
     (if a < 128 then map_option ((#) a) (utf8_decode as)
      else case as of
        [] \<Rightarrow> None
      | b # bs \<Rightarrow>
          if 194 \<le> a \<and> a < 224 \<and> is_cont b
          then map_option ((#) ((a - 192) * 64 + (b - 128))) (utf8_decode bs)
          else (case bs of
            [] \<Rightarrow> None
          | c # cs \<Rightarrow>
              if 224 \<le> a \<and> a < 240 \<and> is_cont b \<and> is_cont c \<and> (a = 224 \<longrightarrow> 160 \<le> b) \<and> (a = 237 \<longrightarrow> b < 160)
              then map_option ((#) (((a - 224) * 64 + (b - 128)) * 64 + (c - 128))) (utf8_decode cs)
              else (case cs of
                [] \<Rightarrow> None
              | d # ds \<Rightarrow>
                  if 240 \<le> a \<and> a < 245 \<and> is_cont b \<and> is_cont c \<and> is_cont d \<and>
                     (a = 240 \<longrightarrow> 144 \<le> b) \<and> (a = 244 \<longrightarrow> b < 144)
                  then map_option ((#) ((((a - 240) * 64 + (b - 128)) * 64 + (c - 128)) * 64 + (d - 128)))
                         (utf8_decode ds)
                  else None)))"

definition bytes_decode :: "string \<Rightarrow> exn + text_pts" where
  "bytes_decode b = (case utf8_decode (pts b) of None \<Rightarrow> Inl (raise_exn ValueError) | Some t \<Rightarrow> Inr t)"

section \<open>Writing JSON\<close>

datatype payload_value = PNone | PStr string | PInt int

definition hex4_char :: "int \<Rightarrow> char" where
  "hex4_char d = char_of (nat (if d < 10 then 48 + d else 87 + d))"

definition escape_char :: "char \<Rightarrow> string" where
  "escape_char c = (let n = cp c in
     if c = CHR 0x22 then [CHR 0x5C, CHR 0x22]
     else if c = CHR 0x5C then [CHR 0x5C, CHR 0x5C]
     else if n = 8 then [CHR 0x5C, CHR ''b'']
     else if n = 9 then [CHR 0x5C, CHR ''t'']
     else if n = 10 then [CHR 0x5C, CHR ''n'']
     else if n = 12 then [CHR 0x5C, CHR ''f'']
     else if n = 13 then [CHR 0x5C, CHR ''r'']
     else if 32 \<le> n \<and> n \<le> 126 then [c]
     else [CHR 0x5C, CHR ''u'', CHR ''0'', CHR ''0'', hex4_char (n div 16), hex4_char (n mod 16)])"

definition dumps_str :: "string \<Rightarrow> string" where
  "dumps_str s = CHR 0x22 # concat (map escape_char s) @ [CHR 0x22]"

fun dumps_value :: "payload_value \<Rightarrow> string" where
  "dumps_value PNone = ''null''"
| "dumps_value (PStr s) = dumps_str s"
| "dumps_value (PInt n) = str_of_int n"

text \<open>\<open>json.dumps(payload, separators=(",", ":"))\<close> for a flat dictionary.\<close>

definition json_dumps :: "(string \<times> payload_value) list \<Rightarrow> string" where
  "json_dumps kvs = CHR ''{'' #
     join_on CHR '','' (map (\<lambda>(k, v). dumps_str k @ CHR '':'' # dumps_value v) kvs) @ [CHR ''}'']"

section \<open>Scanning JSON\<close>

datatype token =
    TLBrace | TRBrace | TLBracket | TRBracket | TColon | TComma
  | TNull | TBool bool | TInt int | TFloat rat | TInf bool | TNaN | TStr text_pts
  | TErr

definition is_dig :: "int \<Rightarrow> bool" where
  "is_dig n = (48 \<le> n \<and> n \<le> 57)"

definition json_space :: "int \<Rightarrow> bool" where
  "json_space n = (n = 32 \<or> n = 9 \<or> n = 10 \<or> n = 13)"

definition digits_value :: "int list \<Rightarrow> int" where
  "digits_value ds = foldl (\<lambda>a d. a * 10 + (d - 48)) 0 ds"

definition hex_pt :: "int \<Rightarrow> int option" where
  "hex_pt n = (if is_dig n then Some (n - 48)
     else if 97 \<le> n \<and> n \<le> 102 then Some (n - 87)
     else if 65 \<le> n \<and> n \<le> 70 then Some (n - 55) else None)"

fun hex4 :: "int list \<Rightarrow> (int \<times> int list) option" where
  "hex4 (a # b # c # d # r) =
     (case (hex_pt a, hex_pt b, hex_pt c, hex_pt d) of
        (Some a', Some b', Some c', Some d') \<Rightarrow> Some (((a' * 16 + b') * 16 + c') * 16 + d', r)
      | _ \<Rightarrow> None)"
| "hex4 _ = None"

definition simple_escape :: "int \<Rightarrow> int option" where
  "simple_escape n = (if n = 34 \<or> n = 92 \<or> n = 47 then Some n
     else if n = 98 then Some 8 else if n = 102 then Some 12 else if n = 110 then Some 10
     else if n = 114 then Some 13 else if n = 116 then Some 9 else None)"

text \<open>
  The text after a backslash: one decoded character and the rest. A high surrogate takes a
  following low surrogate with it; two escapes that do not pair are two characters.
\<close>

definition scan_escape :: "int list \<Rightarrow> (int \<times> int list) option" where
  "scan_escape s = (case s of
     [] \<Rightarrow> None
   | c # r \<Rightarrow>
       if c \<noteq> 117 then map_option (\<lambda>x. (x, r)) (simple_escape c)
       else (case hex4 r of
         None \<Rightarrow> None
       | Some (u, r1) \<Rightarrow>
           if 55296 \<le> u \<and> u < 56320 \<and> take 2 r1 = [92, 117]
           then (case hex4 (drop 2 r1) of
                   None \<Rightarrow> None
                 | Some (v, r2) \<Rightarrow>
                     if 56320 \<le> v \<and> v < 57344 then Some (65536 + (u - 55296) * 1024 + (v - 56320), r2)
                     else Some (u, r1))
           else Some (u, r1)))"

lemma hex4_length: "hex4 s = Some (u, r) \<Longrightarrow> length r < length s"
  by (cases s rule: hex4.cases) (auto split: option.splits)

lemma scan_escape_length: "scan_escape s = Some (u, r) \<Longrightarrow> length r < length s"
  unfolding scan_escape_def
  by (auto split: list.splits if_splits option.splits prod.splits dest!: hex4_length)

text \<open>The text after an opening quote: the string and what follows the closing quote.\<close>

function scan_string :: "int list \<Rightarrow> int list \<Rightarrow> (text_pts \<times> int list) option" where
  "scan_string acc [] = None"
| "scan_string acc (c # r) =
     (if c = 34 then Some (rev acc, r)
      else if c = 92 then (case scan_escape r of None \<Rightarrow> None | Some (x, r') \<Rightarrow> scan_string (x # acc) r')
      else if c < 32 then None
      else scan_string (c # acc) r)"
  by pat_completeness auto
termination
  by (relation "measure (length \<circ> snd)") (auto dest: scan_escape_length)

lemma scan_string_length: "scan_string acc s = Some (t, r) \<Longrightarrow> length r < length s"
proof (induction acc s rule: scan_string.induct)
  case (2 acc c s)
  show ?case
  proof (cases "c = 92")
    case True
    with "2.prems" obtain x r' where e: "scan_escape s = Some (x, r')"
      and s: "scan_string (x # acc) r' = Some (t, r)"
      by (auto split: option.splits)
    have "length r < length r'" by (rule "2.IH"(1)) (use True e s in auto)
    with scan_escape_length [OF e] show ?thesis by simp
  next
    case False
    with "2.prems" "2.IH"(2) show ?thesis by (auto split: if_splits)
  qed
qed simp

section \<open>Numbers\<close>

text \<open>The double nearest to a rational number, with overflow to infinity and subnormals.\<close>

definition float_token :: "rat \<Rightarrow> token" where
  "float_token x =
     (if x \<ge> 2 ^ 1024 - 2 ^ 970 then TInf False
      else if - x \<ge> 2 ^ 1024 - 2 ^ 970 then TInf True
      else if \<bar>x\<bar> < two_pow (- 1022) then TFloat (of_int (round_half_even (x / two_pow (- 1074))) * two_pow (- 1074))
      else TFloat (fl x))"

definition scale10 :: "int \<Rightarrow> int \<Rightarrow> rat" where
  "scale10 m e = (if 0 \<le> e then of_int m * 10 ^ nat e else of_int m / 10 ^ nat (- e))"

definition scan_int_part :: "int list \<Rightarrow> int list \<times> int list" where
  "scan_int_part s = (case s of
     [] \<Rightarrow> ([], [])
   | c # r \<Rightarrow> if c = 48 then ([c], r) else (takeWhile is_dig s, dropWhile is_dig s))"

definition scan_fraction :: "int list \<Rightarrow> int list \<times> int list" where
  "scan_fraction s = (case s of
     [] \<Rightarrow> ([], s)
   | c # r \<Rightarrow> if c = 46 \<and> takeWhile is_dig r \<noteq> [] then (takeWhile is_dig r, dropWhile is_dig r) else ([], s))"

definition scan_exponent :: "int list \<Rightarrow> int option \<times> int list" where
  "scan_exponent s = (case s of
     [] \<Rightarrow> (None, s)
   | c # r \<Rightarrow>
       if c = 101 \<or> c = 69 then
         (let neg = (take 1 r = [45]);
              r' = (if take 1 r = [45] \<or> take 1 r = [43] then drop 1 r else r);
              ds = takeWhile is_dig r'
          in if ds = [] then (None, s)
             else (Some (if neg then - digits_value ds else digits_value ds), dropWhile is_dig r'))
       else (None, s))"

definition number_token :: "bool \<Rightarrow> int list \<Rightarrow> int list \<Rightarrow> int option \<Rightarrow> token" where
  "number_token neg ip fp ex =
     (let sg = (\<lambda>m. if neg then - m else m)
      in if fp = [] \<and> ex = None
         then (if int (length ip) > MAX_STR_DIGITS then TErr else TInt (sg (digits_value ip)))
         else float_token (scale10 (sg (digits_value (ip @ fp)))
                (case ex of None \<Rightarrow> - int (length fp) | Some e \<Rightarrow> e - int (length fp))))"

definition scan_number :: "int list \<Rightarrow> token \<times> int list" where
  "scan_number s =
     (let neg = (take 1 s = [45]);
          (ip, s1) = scan_int_part (if neg then drop 1 s else s)
      in if ip = [] then (TErr, [])
         else (let (fp, s2) = scan_fraction s1; (ex, s3) = scan_exponent s2
               in (number_token neg ip fp ex, s3)))"

definition word_at :: "string \<Rightarrow> int list \<Rightarrow> bool" where
  "word_at w s = (take (length w) s = pts w)"

text \<open>One token; after an error nothing more is read.\<close>

definition next_token :: "int list \<Rightarrow> token \<times> int list" where
  "next_token s = (case s of
     [] \<Rightarrow> (TErr, [])
   | c # r \<Rightarrow>
       if c = 123 then (TLBrace, r)
       else if c = 125 then (TRBrace, r)
       else if c = 91 then (TLBracket, r)
       else if c = 93 then (TRBracket, r)
       else if c = 58 then (TColon, r)
       else if c = 44 then (TComma, r)
       else if c = 34 then (case scan_string [] r of None \<Rightarrow> (TErr, []) | Some (t, r') \<Rightarrow> (TStr t, r'))
       else if word_at ''null'' s then (TNull, drop 4 s)
       else if word_at ''true'' s then (TBool True, drop 4 s)
       else if word_at ''false'' s then (TBool False, drop 5 s)
       else if word_at ''NaN'' s then (TNaN, drop 3 s)
       else if word_at ''Infinity'' s then (TInf False, drop 8 s)
       else if word_at ''-Infinity'' s then (TInf True, drop 9 s)
       else scan_number s)"

lemma scan_int_part_length:
  "scan_int_part s = (ip, r) \<Longrightarrow> ip \<noteq> [] \<Longrightarrow> length r < length s"
  by (cases s) (auto simp: scan_int_part_def split: if_splits intro!: le_imp_less_Suc length_dropWhile_le)

lemma scan_fraction_length: "scan_fraction s = (fp, r) \<Longrightarrow> length r \<le> length s"
  by (cases s) (auto simp: scan_fraction_def split: if_splits intro: le_SucI length_dropWhile_le)

lemma scan_exponent_length:
  assumes "scan_exponent s = (ex, r)"
  shows "length r \<le> length s"
proof (cases s)
  case (Cons c t)
  have "length (dropWhile is_dig (drop n t)) \<le> length t" for n
    using length_dropWhile_le [of is_dig "drop n t"] by simp
  note len = this [of 0] this [of 1]
  from assms Cons len show ?thesis
    by (auto simp: scan_exponent_def Let_def split: if_splits intro: le_SucI)
qed (use assms in \<open>simp add: scan_exponent_def\<close>)

lemma scan_number_length:
  assumes "scan_number s = (t, r)" "s \<noteq> []"
  shows "length r < length s"
proof -
  let ?s0 = "if take 1 s = [45] then drop 1 s else s"
  obtain ip s1 where i: "scan_int_part ?s0 = (ip, s1)" by fastforce
  obtain fp s2 where f: "scan_fraction s1 = (fp, s2)" by fastforce
  obtain ex s3 where e: "scan_exponent s2 = (ex, s3)" by fastforce
  show ?thesis
  proof (cases "ip = []")
    case True
    with assms i show ?thesis by (auto simp: scan_number_def Let_def)
  next
    case False
    have "length ?s0 \<le> length s" by simp
    moreover have "r = s3" using assms(1) i f e False by (auto simp: scan_number_def Let_def)
    ultimately show ?thesis
      using scan_int_part_length [OF i False] scan_fraction_length [OF f] scan_exponent_length [OF e] by simp
  qed
qed

lemma next_token_length: "s \<noteq> [] \<Longrightarrow> next_token s = (t, r) \<Longrightarrow> length r < length s"
  unfolding next_token_def
  by (cases s) (auto split: if_splits option.splits dest: scan_string_length scan_number_length)

function tokens :: "int list \<Rightarrow> token list" where
  "tokens s = (case dropWhile json_space s of
     [] \<Rightarrow> []
   | c # r \<Rightarrow> (let (t, r') = next_token (c # r) in t # tokens r'))"
  by pat_completeness auto
termination
proof (relation "measure length")
  fix s c r p t r'
  assume d: "dropWhile json_space s = c # r" and p: "p = next_token (c # r)" "(t, r') = p"
  from p have "next_token (c # r) = (t, r')" by simp
  then have "length r' < length (c # r)" by (intro next_token_length) auto
  also have "\<dots> \<le> length s" using length_dropWhile_le [of json_space s] d by simp
  finally show "(r', s) \<in> measure length" by simp
qed simp

declare tokens.simps [simp del]

section \<open>Parsing JSON\<close>

datatype json =
    JNull | JBool bool | JInt int | JFloat rat | JInf bool | JNaN
  | JStr text_pts | JArr "json list" | JObj "(text_pts \<times> json) list"

text \<open>
  The machine reads a token in one of its modes. The stack holds the open containers: the
  elements so far, or the members so far with the key whose value is being read.
\<close>

datatype json_frame = FArr "json list" | FObj "(text_pts \<times> json) list" text_pts

datatype json_mode =
    WantValue | ArrFirst | ObjFirst | ObjKey "(text_pts \<times> json) list"
  | ObjColon "(text_pts \<times> json) list" text_pts | AfterValue json

definition token_scalar :: "token \<Rightarrow> json option" where
  "token_scalar t = (case t of
     TNull \<Rightarrow> Some JNull | TBool b \<Rightarrow> Some (JBool b) | TInt n \<Rightarrow> Some (JInt n)
   | TFloat x \<Rightarrow> Some (JFloat x) | TInf b \<Rightarrow> Some (JInf b) | TNaN \<Rightarrow> Some JNaN
   | TStr s \<Rightarrow> Some (JStr s) | _ \<Rightarrow> None)"

definition step_value ::
  "int \<Rightarrow> json_frame list \<Rightarrow> token \<Rightarrow> exn + json_mode \<times> json_frame list" where
  "step_value depth st t =
     (if t = TLBrace \<or> t = TLBracket then
        (if int (length st) \<ge> depth then Inl (raise_exn OtherException)
         else Inr (if t = TLBrace then ObjFirst else ArrFirst, st))
      else case token_scalar t of
        Some v \<Rightarrow> Inr (AfterValue v, st)
      | None \<Rightarrow> Inl (raise_exn ValueError))"

fun json_step ::
  "int \<Rightarrow> json_mode \<Rightarrow> json_frame list \<Rightarrow> token \<Rightarrow> exn + json_mode \<times> json_frame list" where
  "json_step depth WantValue st t = step_value depth st t"
| "json_step depth ArrFirst st t =
     (if t = TRBracket then Inr (AfterValue (JArr []), st) else step_value depth (FArr [] # st) t)"
| "json_step depth ObjFirst st t =
     (if t = TRBrace then Inr (AfterValue (JObj []), st)
      else case t of TStr k \<Rightarrow> Inr (ObjColon [] k, st) | _ \<Rightarrow> Inl (raise_exn ValueError))"
| "json_step depth (ObjKey kvs) st t =
     (case t of TStr k \<Rightarrow> Inr (ObjColon kvs k, st) | _ \<Rightarrow> Inl (raise_exn ValueError))"
| "json_step depth (ObjColon kvs k) st t =
     (if t = TColon then Inr (WantValue, FObj kvs k # st) else Inl (raise_exn ValueError))"
| "json_step depth (AfterValue v) [] t = Inl (raise_exn ValueError)"
| "json_step depth (AfterValue v) (FArr vs # st) t =
     (if t = TComma then Inr (WantValue, FArr (vs @ [v]) # st)
      else if t = TRBracket then Inr (AfterValue (JArr (vs @ [v])), st)
      else Inl (raise_exn ValueError))"
| "json_step depth (AfterValue v) (FObj kvs k # st) t =
     (if t = TComma then Inr (ObjKey (kvs @ [(k, v)]), st)
      else if t = TRBrace then Inr (AfterValue (JObj (kvs @ [(k, v)])), st)
      else Inl (raise_exn ValueError))"

fun json_run :: "int \<Rightarrow> json_mode \<Rightarrow> json_frame list \<Rightarrow> token list \<Rightarrow> exn + json" where
  "json_run depth m st [] =
     (case (m, st) of (AfterValue v, []) \<Rightarrow> Inr v | _ \<Rightarrow> Inl (raise_exn ValueError))"
| "json_run depth m st (t # ts) =
     try_bind (json_step depth m st t) (\<lambda>(m', st'). json_run depth m' st' ts)"

definition json_loads :: "int \<Rightarrow> text_pts \<Rightarrow> exn + json" where
  "json_loads depth s = json_run depth WantValue [] (tokens s)"

text \<open>A dictionary keeps the last value of a repeated key.\<close>

definition member :: "(text_pts \<times> json) list \<Rightarrow> string \<Rightarrow> json option" where
  "member kvs k = map_of (rev kvs) (pts k)"

section \<open>Facts: base64\<close>

lemma cp_bounds: "0 \<le> cp c" "cp c < 256"
  using of_char_of [of "nat_of_char c"] unfolding cp_def ord_def by (auto simp: less_imp_of_nat_less)

lemma byte_cp [simp]: "byte (cp c) = c"
  using cp_bounds [of c] by (simp add: byte_def cp_def ord_def)

lemma cp_char_of: "0 \<le> n \<Longrightarrow> n < 256 \<Longrightarrow> cp (char_of (nat n)) = n"
  by (simp add: cp_def ord_char_of)

lemma cp_b64_char:
  "0 \<le> n \<Longrightarrow> n < 64 \<Longrightarrow> cp (b64_char n) =
     (if n < 26 then 65 + n else if n < 52 then 71 + n else if n < 62 then n - 4
      else if n = 62 then 45 else 95)"
  unfolding b64_char_def by (subst cp_char_of) auto

lemma b64_val_char [simp]: "0 \<le> n \<Longrightarrow> n < 64 \<Longrightarrow> b64_val (b64_char n) = Some n"
  by (auto simp: b64_val_def cp_b64_char Let_def)

lemma b64_char_not_pad:
  assumes "0 \<le> n" "n < 64"
  shows "b64_char n \<noteq> CHR ''=''"
proof
  assume "b64_char n = CHR ''=''"
  then have "cp (b64_char n) = 61" by (simp add: cp_def ord_def)
  with assms show False by (simp add: cp_b64_char split: if_splits)
qed

lemma pad_not_b64_char [simp]:
  assumes "0 \<le> n" "n < 64"
  shows "b64_char n \<noteq> CHR ''=''" "CHR ''='' \<noteq> b64_char n"
  using b64_char_not_pad [OF assms] by auto

lemma sextet_bounds:
  fixes a b :: int
  assumes "0 \<le> a" "a < 256" "0 \<le> b" "b < 256"
  shows "a div 4 < 64" "0 \<le> a div 4" "a mod 4 * 16 + b div 16 < 64" "0 \<le> a mod 4 * 16 + b div 16"
    "a mod 16 * 4 + b div 64 < 64" "0 \<le> a mod 16 * 4 + b div 64" "a mod 64 < 64" "0 \<le> a mod 64"
    "a mod 4 * 16 < 64" "a mod 16 * 4 < 64"
  using assms by auto

lemmas cp_sextets [simp] = sextet_bounds [OF cp_bounds cp_bounds]

lemma a2b_data:
  assumes "0 \<le> v" "v < 64"
  shows "a2b_base64 0 p l acc (b64_char v # cs) = a2b_base64 1 0 v acc cs"
    "a2b_base64 1 p l acc (b64_char v # cs) = a2b_base64 2 0 (v mod 16) (byte (l * 4 + v div 16) # acc) cs"
    "a2b_base64 2 p l acc (b64_char v # cs) = a2b_base64 3 0 (v mod 4) (byte (l * 16 + v div 4) # acc) cs"
    "a2b_base64 3 p l acc (b64_char v # cs) = a2b_base64 0 0 0 (byte (l * 64 + v) # acc) cs"
  using assms by simp_all

text \<open>The bit groups of two neighbouring bytes, put together again.\<close>

lemma regroup_high:
  fixes a b :: int
  assumes "0 \<le> b" "b < 256"
  shows "a div 4 * 4 + (a mod 4 * 16 + b div 16) div 16 = a" "(a mod 4 * 16 + b div 16) mod 16 = b div 16"
proof -
  have q: "0 \<le> b div 16" "b div 16 < 16" using assms by auto
  then have "(a mod 4 * 16 + b div 16) div 16 = a mod 4" by simp
  then show "a div 4 * 4 + (a mod 4 * 16 + b div 16) div 16 = a" by simp
  from q show "(a mod 4 * 16 + b div 16) mod 16 = b div 16" by (simp only: mod_mult_self3 mod_pos_pos_trivial)
qed

lemma regroup_low:
  fixes b c :: int
  assumes "0 \<le> c" "c < 256"
  shows "b div 16 * 16 + (b mod 16 * 4 + c div 64) div 4 = b" "(b mod 16 * 4 + c div 64) mod 4 * 64 + c mod 64 = c"
proof -
  have q: "0 \<le> c div 64" "c div 64 < 4" using assms by auto
  then have "(b mod 16 * 4 + c div 64) div 4 = b mod 16" by simp
  then show "b div 16 * 16 + (b mod 16 * 4 + c div 64) div 4 = b" by simp
  from q have "(b mod 16 * 4 + c div 64) mod 4 = c div 64" by (simp only: mod_mult_self3 mod_pos_pos_trivial)
  then show "(b mod 16 * 4 + c div 64) mod 4 * 64 + c mod 64 = c" by simp
qed

lemma a2b_group:
  "a2b_base64 0 0 0 acc (b64_char (cp a div 4) # b64_char (cp a mod 4 * 16 + cp b div 16) #
     b64_char (cp b mod 16 * 4 + cp c div 64) # b64_char (cp c mod 64) # cs) =
   a2b_base64 0 0 0 (c # b # a # acc) cs"
proof -
  note h = regroup_high [OF cp_bounds [of b], of "cp a"] and l = regroup_low [OF cp_bounds [of c], of "cp b"]
  show ?thesis
    by (simp only: a2b_data cp_sextets h l byte_cp)
qed

lemma a2b_encode: "a2b_base64 0 0 0 acc (urlsafe_b64encode s) = Some (rev acc @ s)"
proof (induction s arbitrary: acc rule: urlsafe_b64encode.induct)
  case (2 a)
  have "byte (cp a div 4 * 4 + cp a mod 4 * 16 div 16) = a" by simp
  moreover have "0 \<le> cp a mod 4 * 16" by simp
  ultimately have "a2b_base64 0 0 0 acc (urlsafe_b64encode [a]) =
      a2b_base64 2 0 (cp a mod 4 * 16 mod 16) (a # acc) [CHR ''='', CHR ''='']"
    by (simp only: urlsafe_b64encode.simps a2b_data cp_sextets)
  then show ?case by simp
next
  case (3 a b)
  note h = regroup_high [OF cp_bounds [of b], of "cp a"] and l = regroup_low(1) [of 0 "cp b"]
  have "0 \<le> cp b mod 16 * 4" "cp b div 16 * 16 + cp b mod 16 * 4 div 4 = cp b" using l by simp_all
  then have "a2b_base64 0 0 0 acc (urlsafe_b64encode [a, b]) =
      a2b_base64 3 0 (cp b mod 16 * 4 mod 4) (b # a # acc) [CHR ''='']"
    by (simp only: urlsafe_b64encode.simps a2b_data cp_sextets h byte_cp)
  then show ?case by simp
next
  case (4 a b c cs)
  then show ?case by (simp only: urlsafe_b64encode.simps a2b_group) simp
qed simp

text \<open>An encoding is data characters followed by the padding that makes groups of four.\<close>

lemma b64_shape:
  "\<exists>d k. urlsafe_b64encode s = d @ replicate k CHR ''='' \<and> CHR ''='' \<notin> set d \<and>
     (- int (length d)) mod 4 = int k"
proof (induction s rule: urlsafe_b64encode.induct)
  case 1
  then show ?case by (intro exI [of _ "[]"] exI [of _ 0]) simp
next
  case (2 a)
  show ?case
    by (intro exI [of _ "[b64_char (cp a div 4), b64_char (cp a mod 4 * 16)]"] exI [of _ 2])
      (simp add: numeral_2_eq_2 cp_bounds)
next
  case (3 a b)
  show ?case
    by (intro exI [of _ "[b64_char (cp a div 4), b64_char (cp a mod 4 * 16 + cp b div 16),
        b64_char (cp b mod 16 * 4)]"] exI [of _ 1]) (simp add: cp_bounds)
next
  case (4 a b c cs)
  then obtain d k where d: "urlsafe_b64encode cs = d @ replicate k CHR ''=''" "CHR ''='' \<notin> set d"
    and k: "(- int (length d)) mod 4 = int k" by blast
  let ?q = "[b64_char (cp a div 4), b64_char (cp a mod 4 * 16 + cp b div 16),
    b64_char (cp b mod 16 * 4 + cp c div 64), b64_char (cp c mod 64)]"
  have "(- int (length (?q @ d))) mod 4 = (- 4 + - int (length d)) mod 4" by simp
  also have "\<dots> = int k" using k by presburger
  finally show ?case using d by (intro exI [of _ "?q @ d"] exI [of _ k]) simp
qed

lemma rstrip_replicate:
  assumes "c \<notin> set d"
  shows "rstrip_by (\<lambda>x. x = c) (d @ replicate k c) = d"
proof -
  have "dropWhile (\<lambda>x. x = c) (replicate k c @ rev d) = dropWhile (\<lambda>x. x = c) (rev d)"
    by (rule dropWhile_append2) simp
  also have "\<dots> = rev d" using assms by (cases "rev d") (auto dest: arg_cong [where f = set])
  finally show ?thesis by (simp add: rstrip_by_def)
qed

definition unpadded :: "string \<Rightarrow> string" where
  "unpadded b = rstrip_by (\<lambda>c. c = CHR ''='') (urlsafe_b64encode b)"

definition repad :: "string \<Rightarrow> string" where
  "repad s = s @ replicate (nat ((- int (length s)) mod 4)) CHR ''=''"

lemma repad_unpadded: "repad (unpadded b) = urlsafe_b64encode b"
proof -
  obtain d k where "urlsafe_b64encode b = d @ replicate k CHR ''=''" "CHR ''='' \<notin> set d"
    "(- int (length d)) mod 4 = int k" using b64_shape by blast
  then show ?thesis by (simp add: unpadded_def repad_def rstrip_replicate)
qed

lemma is_ascii_b64: "is_ascii (urlsafe_b64encode s)"
proof -
  have "ord (b64_char n) < 128" if "0 \<le> n" "n < 64" for n
    using that cp_b64_char [of n] by (simp add: cp_def split: if_splits)
  then show ?thesis
    by (induction s rule: urlsafe_b64encode.induct) (simp_all add: is_ascii_def ord_def cp_bounds)
qed

lemma b64_roundtrip: "urlsafe_b64decode (repad (unpadded b)) = Inr b"
  by (simp add: repad_unpadded urlsafe_b64decode_def is_ascii_b64 a2b_encode)

section \<open>Facts: text\<close>

lemma pts_append [simp]: "pts (a @ b) = pts a @ pts b"
  by (simp add: pts_def)

lemma pts_Cons [simp]: "pts (c # s) = cp c # pts s" "pts [] = []"
  by (simp_all add: pts_def)

lemma utf8_decode_ascii: "(\<And>n. n \<in> set s \<Longrightarrow> n < 128) \<Longrightarrow> utf8_decode s = Some s"
  by (induction s) auto

lemma bytes_decode_ascii: "is_ascii s \<Longrightarrow> bytes_decode s = Inr (pts s)"
  unfolding bytes_decode_def
  by (subst utf8_decode_ascii) (auto simp: is_ascii_def list_all_iff pts_def cp_def)

definition plain_char :: "char \<Rightarrow> bool" where
  "plain_char c = (32 \<le> cp c \<and> cp c \<le> 126 \<and> c \<noteq> CHR 0x22 \<and> c \<noteq> CHR 0x5C)"

lemma escape_plain: "plain_char c \<Longrightarrow> escape_char c = [c]"
  by (auto simp: plain_char_def escape_char_def Let_def)

lemma dumps_plain: "list_all plain_char s \<Longrightarrow> dumps_str s = CHR 0x22 # s @ [CHR 0x22]"
  unfolding dumps_str_def by (induction s) (auto simp: escape_plain)

lemma cp_eq_iff: "cp c = cp d \<longleftrightarrow> c = d"
  by (metis byte_cp)

lemma scan_string_plain:
  assumes "list_all plain_char s"
  shows "scan_string acc (pts s @ 34 # r) = Some (rev acc @ pts s, r)"
  using assms
proof (induction s arbitrary: acc)
  case (Cons c s)
  have "cp CHR 0x22 = 34" "cp CHR 0x5C = 92" by (simp_all add: cp_def ord_def)
  with Cons have "cp c \<noteq> 34" "cp c \<noteq> 92" "\<not> cp c < 32"
    by (simp_all add: plain_char_def) (metis cp_eq_iff)+
  with Cons show ?case by simp
qed simp

section \<open>Facts: numbers\<close>

lemma is_dig_cp: "is_dig (cp c) \<longleftrightarrow> is_digit c"
  by (auto simp: is_dig_def is_digit_def cp_def)

lemma digits_value_snoc: "digits_value (ds @ [d]) = digits_value ds * 10 + (d - 48)"
  by (simp add: digits_value_def)

lemma cp_digit_char: "0 \<le> d \<Longrightarrow> d < 10 \<Longrightarrow> cp (digit_char d) = 48 + d"
  by (simp add: cp_def ord_digit_char)

lemma digits_value_decimal: "0 \<le> n \<Longrightarrow> digits_value (pts (decimal n)) = n"
proof (induction n rule: decimal.induct)
  case (1 n)
  show ?case
  proof (cases "n < 10")
    case True
    with "1.prems" show ?thesis by (simp add: decimal.simps [of n] digits_value_def cp_digit_char)
  next
    case False
    with 1 show ?thesis by (simp add: decimal.simps [of n] digits_value_snoc cp_digit_char)
  qed
qed

lemma hd_decimal_zero: "0 \<le> n \<Longrightarrow> hd (pts (decimal n)) = 48 \<Longrightarrow> n = 0"
proof (induction n rule: decimal.induct)
  case (1 n)
  show ?case
  proof (cases "n < 10")
    case True
    with "1.prems" show ?thesis by (simp add: decimal.simps [of n] cp_digit_char)
  next
    case False
    then have "pts (decimal (n div 10)) \<noteq> []" using decimal_not_Nil by (simp add: pts_def)
    with 1 False have "n div 10 = 0" by (simp add: decimal.simps [of n])
    with False "1.prems" show ?thesis by simp
  qed
qed

definition stops_number :: "int list \<Rightarrow> bool" where
  "stops_number r = (case r of [] \<Rightarrow> True | c # _ \<Rightarrow> \<not> is_dig c \<and> c \<noteq> 46 \<and> c \<noteq> 101 \<and> c \<noteq> 69)"

lemma scan_int_part_decimal:
  assumes "0 \<le> n" "stops_number r"
  shows "scan_int_part (pts (decimal n) @ r) = (pts (decimal n), r)"
proof (cases "n = 0")
  case True
  then show ?thesis by (simp add: decimal.simps [of 0] scan_int_part_def cp_digit_char)
next
  case False
  let ?ds = "pts (decimal n)"
  have all: "\<forall>d \<in> set ?ds. is_dig d"
    using decimal_digits [OF assms(1)] by (auto simp: pts_def is_dig_cp list_all_iff)
  obtain d ds where ds: "?ds = d # ds" using decimal_not_Nil [of n] by (cases ?ds) (auto simp: pts_def)
  with hd_decimal_zero [OF assms(1)] False have "d \<noteq> 48" by auto
  moreover have "takeWhile is_dig (?ds @ r) = ?ds" "dropWhile is_dig (?ds @ r) = r"
    using all assms(2) by (cases r; simp add: stops_number_def)+
  ultimately show ?thesis using ds by (simp add: scan_int_part_def)
qed

lemma scan_number_decimal:
  assumes "\<bar>n\<bar> < 10 ^ nat MAX_STR_DIGITS" "stops_number r"
  shows "scan_number (pts (str_of_int n) @ r) = (TInt n, r)"
proof -
  let ?ds = "pts (decimal \<bar>n\<bar>)"
  have ne: "?ds \<noteq> []" using decimal_not_Nil by (simp add: pts_def)
  have dig: "is_dig (hd ?ds)"
    using list_all_hd_last [OF decimal_digits decimal_not_Nil, of "\<bar>n\<bar>"] decimal_not_Nil [of "\<bar>n\<bar>"]
    by (cases "decimal \<bar>n\<bar>") (auto simp: is_dig_cp)
  then have h: "hd ?ds \<noteq> 45" by (auto simp: is_dig_def)
  have "length (decimal \<bar>n\<bar>) \<le> nat MAX_STR_DIGITS"
    by (rule length_decimal_le [OF assms(1)]) (simp add: MAX_STR_DIGITS_def)
  then have len: "\<not> MAX_STR_DIGITS < int (length ?ds)" by (simp add: MAX_STR_DIGITS_def pts_def)
  have s1: "scan_fraction r = ([], r)" "scan_exponent r = (None, r)"
    using assms(2) by (cases r; simp add: scan_fraction_def scan_exponent_def stops_number_def)+
  have s2: "scan_int_part (?ds @ r) = (?ds, r)" by (rule scan_int_part_decimal) (use assms in auto)
  have v: "digits_value ?ds = \<bar>n\<bar>" by (rule digits_value_decimal) simp
  have m: "cp CHR ''-'' = 45" by (simp add: cp_def ord_def)
  show ?thesis
  proof (cases "n < 0")
    case True
    then have "str_of_int n = CHR ''-'' # decimal \<bar>n\<bar>" by (simp add: str_of_int_def)
    with s1 s2 v len ne m True show ?thesis by (simp add: scan_number_def number_token_def)
  next
    case False
    then have e: "str_of_int n = decimal \<bar>n\<bar>" by (simp add: str_of_int_def)
    obtain d ds where "?ds = d # ds" using ne by (cases ?ds) auto
    with e h s1 s2 v len False show ?thesis by (simp add: scan_number_def number_token_def)
  qed
qed

lemma cp_literals: "cp CHR ''-'' = 45" "cp CHR 0x22 = 34" "cp CHR '','' = 44" "cp CHR '':'' = 58"
  "cp CHR ''{'' = 123" "cp CHR ''}'' = 125"
  by (simp_all add: cp_def ord_def)

lemma next_token_decimal:
  assumes "\<bar>n\<bar> < 10 ^ nat MAX_STR_DIGITS" "stops_number r"
  shows "next_token (pts (str_of_int n) @ r) = (TInt n, r)"
proof -
  let ?s = "pts (str_of_int n) @ r"
  have ne: "decimal \<bar>n\<bar> \<noteq> []" by (rule decimal_not_Nil)
  then obtain c cs where c: "decimal \<bar>n\<bar> = c # cs" by (cases "decimal \<bar>n\<bar>") auto
  have dig: "is_dig (cp c)"
    using list_all_hd_last [OF decimal_digits ne] c by (simp add: is_dig_cp)
  have head: "?s = (if n < 0 then 45 # cp c # pts cs @ r else cp c # pts cs @ r)"
    using c by (cases "n < 0") (simp_all add: str_of_int_def cp_literals)
  have "next_token ?s = scan_number ?s"
    unfolding head using dig
    by (auto simp: next_token_def is_dig_def word_at_def pts_def cp_def ord_def)
  with scan_number_decimal [OF assms] show ?thesis by simp
qed

section \<open>Facts: token streams\<close>

lemma tokens_step:
  "\<not> json_space c \<Longrightarrow> next_token (c # s) = (t, r) \<Longrightarrow> tokens (c # s) = t # tokens r"
  by (subst tokens.simps) simp

lemma tokens_Nil [simp]: "tokens [] = []"
  by (simp add: tokens.simps [of "[]"])

lemma tokens_punctuation:
  "tokens (123 # s) = TLBrace # tokens s" "tokens (125 # s) = TRBrace # tokens s"
  "tokens (58 # s) = TColon # tokens s" "tokens (44 # s) = TComma # tokens s"
  by (rule tokens_step, simp add: json_space_def, simp add: next_token_def)+

lemma tokens_null: "tokens (pts ''null'' @ s) = TNull # tokens s"
  unfolding pts_def list.map append.simps
  by (rule tokens_step) (simp_all add: json_space_def next_token_def word_at_def pts_def cp_def ord_def)

lemma tokens_plain:
  assumes "list_all plain_char k"
  shows "tokens (pts (dumps_str k) @ s) = TStr (pts k) # tokens s"
proof -
  have "tokens (34 # pts k @ 34 # s) = TStr (pts k) # tokens s"
    by (rule tokens_step) (simp_all add: json_space_def next_token_def scan_string_plain [OF assms])
  then show ?thesis by (simp add: dumps_plain [OF assms] cp_literals)
qed

lemma tokens_decimal:
  assumes "\<bar>n\<bar> < 10 ^ nat MAX_STR_DIGITS" "stops_number r"
  shows "tokens (pts (str_of_int n) @ r) = TInt n # tokens r"
proof -
  obtain c cs where c: "decimal \<bar>n\<bar> = c # cs" using decimal_not_Nil [of "\<bar>n\<bar>"] by (cases "decimal \<bar>n\<bar>") auto
  have dig: "is_dig (cp c)"
    using list_all_hd_last [OF decimal_digits decimal_not_Nil, of "\<bar>n\<bar>"] c by (simp add: is_dig_cp)
  obtain h t where h: "pts (str_of_int n) @ r = h # t" "h = 45 \<or> is_dig h"
    using c dig by (cases "n < 0") (auto simp: str_of_int_def cp_literals)
  then have "\<not> json_space h" by (auto simp: is_dig_def json_space_def)
  then show ?thesis unfolding h(1) by (rule tokens_step) (metis h(1) next_token_decimal [OF assms])
qed

end
