(* ===== verification/Iso_Date.thy ===== *)
theory Iso_Date
  imports Feed_Parser PyJson
begin

text \<open>
  \<open>datetime.isoformat\<close> of an aware UTC date and time, and \<open>datetime.fromisoformat\<close>. Splitting
  an instant into calendar fields inverts the calendar of \<open>Feed_Parser\<close>.
  \<open>fromisoformat\<close> is defined on texts of the shape \<open>isoformat\<close> writes; what it makes of the many
  other ISO 8601 shapes is the argument \<open>iso_other\<close>.
\<close>

section \<open>Calendar fields of an instant\<close>

fun split_month :: "int list \<Rightarrow> int \<Rightarrow> int \<Rightarrow> int \<times> int" where
  "split_month [] m n = (m, n + 1)"
| "split_month (l # ls) m n = (if n < l then (m, n + 1) else split_month ls (m + 1) (n - l))"

definition ord_to_ymd :: "int \<Rightarrow> int \<times> int \<times> int" where
  "ord_to_ymd ordinal =
     (let n = ordinal - 1;
          n400 = n div 146097; r400 = n mod 146097;
          n100 = r400 div 36524; r100 = r400 mod 36524;
          n4 = r100 div 1461; r4 = r100 mod 1461;
          n1 = r4 div 365; r1 = r4 mod 365;
          y = n400 * 400 + 1 + n100 * 100 + n4 * 4 + n1
      in if n1 = 4 \<or> n100 = 4 then (y - 1, 12, 31)
         else (let (mo, d) = split_month (month_lengths y) 1 r1 in (y, mo, d)))"

record civil =
  c_year :: int
  c_month :: int
  c_day :: int
  c_hour :: int
  c_minute :: int
  c_second :: int
  c_us :: int

definition civil_of :: "instant \<Rightarrow> civil" where
  "civil_of t =
     (let (y, mo, d) = ord_to_ymd (t div us_per_day + EPOCH_ORDINAL);
          us = t mod us_per_day; sec = us div US
      in \<lparr>c_year = y, c_month = mo, c_day = d, c_hour = sec div 3600, c_minute = sec mod 3600 div 60,
          c_second = sec mod 60, c_us = us mod US\<rparr>)"

section \<open>Text\<close>

text \<open>\<open>%0kd\<close> for a number of at most \<open>k\<close> digits.\<close>

fun zpad :: "nat \<Rightarrow> int \<Rightarrow> string" where
  "zpad 0 n = []"
| "zpad (Suc k) n = zpad k (n div 10) @ [digit_char (n mod 10)]"

definition isoformat :: "instant \<Rightarrow> string" where
  "isoformat t = (let c = civil_of t in
     zpad 4 (c_year c) @ ''-'' @ zpad 2 (c_month c) @ ''-'' @ zpad 2 (c_day c) @ ''T'' @
     zpad 2 (c_hour c) @ '':'' @ zpad 2 (c_minute c) @ '':'' @ zpad 2 (c_second c) @
     (if c_us c = 0 then [] else ''.'' @ zpad 6 (c_us c)) @ ''+00:00'')"

datatype datetime_val = Aware instant | Naive instant

definition iso_shape :: "text_pts \<Rightarrow> text_pts" where
  "iso_shape s = map (\<lambda>c. if is_dig c then 48 else c) s"

definition field_at :: "nat \<Rightarrow> nat \<Rightarrow> text_pts \<Rightarrow> int" where
  "field_at i k s = digits_value (take k (drop i s))"

definition iso_fields :: "text_pts \<Rightarrow> int \<Rightarrow> exn + datetime_val" where
  "iso_fields s us =
     (let y = field_at 0 4 s; mo = field_at 5 2 s; d = field_at 8 2 s;
          h = field_at 11 2 s; mi = field_at 14 2 s; sec = field_at 17 2 s
      in if valid_civil y mo d h mi sec then Inr (Aware (civil_instant y mo d h mi sec + us))
         else Inl (raise_exn ValueError))"

definition fromisoformat :: "(text_pts \<Rightarrow> exn + datetime_val) \<Rightarrow> text_pts \<Rightarrow> exn + datetime_val" where
  "fromisoformat iso_other s =
     (if iso_shape s = pts ''0000-00-00T00:00:00+00:00'' then iso_fields s 0
      else if iso_shape s = pts ''0000-00-00T00:00:00.000000+00:00'' then iso_fields s (field_at 20 6 s)
      else iso_other s)"

section \<open>Facts: calendar\<close>

lemma split_month_spec:
  assumes "0 \<le> n" "n < sum_list ls" "\<And>l. l \<in> set ls \<Longrightarrow> 0 \<le> l"
  shows "\<exists>k < length ls. split_month ls m n = (m + int k, n - sum_list (take k ls) + 1) \<and>
    0 \<le> n - sum_list (take k ls) \<and> n - sum_list (take k ls) < ls ! k"
  using assms
proof (induction ls m n rule: split_month.induct)
  case (2 l ls m n)
  show ?case
  proof (cases "n < l")
    case True
    with 2 show ?thesis by (intro exI [of _ 0]) simp
  next
    case False
    with 2 obtain k where "k < length ls"
      "split_month ls (m + 1) (n - l) = (m + 1 + int k, n - l - sum_list (take k ls) + 1)"
      "0 \<le> n - l - sum_list (take k ls)" "n - l - sum_list (take k ls) < ls ! k" by auto
    with False show ?thesis by (intro exI [of _ "Suc k"]) simp
  qed
qed simp

lemma month_lengths_facts:
  "length (month_lengths y) = 12" "l \<in> set (month_lengths y) \<Longrightarrow> 0 \<le> l"
  "sum_list (month_lengths y) = (if is_leap y then 366 else 365)"
  by (auto simp: month_lengths_def)

lemma day_of_year:
  assumes "0 \<le> n" "n < 365" "split_month (month_lengths y) 1 n = (mo, d)"
  shows "1 \<le> mo \<and> mo \<le> 12 \<and> 1 \<le> d \<and> d \<le> days_in_month y mo \<and> days_before_month y mo + d = n + 1"
proof -
  have lt: "n < sum_list (month_lengths y)" using assms(2) by (simp add: month_lengths_facts(3))
  have nn: "0 \<le> l" if "l \<in> set (month_lengths y)" for l using that by (rule month_lengths_facts(2))
  obtain k where "k < 12" "mo = 1 + int k" "d = n - sum_list (take k (month_lengths y)) + 1"
    "0 \<le> n - sum_list (take k (month_lengths y))" "n - sum_list (take k (month_lengths y)) < month_lengths y ! k"
    using split_month_spec [where m = 1, OF assms(1) lt nn] assms(3)
    by (auto simp: month_lengths_facts(1))
  then show ?thesis by (simp add: days_in_month_def days_before_month_def)
qed

lemma year_position:
  assumes "0 \<le> b" "b \<le> 3" "0 \<le> c" "c \<le> 24" "0 \<le> d" "d \<le> (3::int)"
  shows "days_before_year (a * 400 + 1 + b * 100 + c * 4 + d) = a * 146097 + b * 36524 + c * 1461 + d * 365"
proof -
  let ?z = "a * 400 + b * 100 + c * 4 + d"
  have "?z div 4 = a * 100 + b * 25 + c" by (rule int_div_pos_eq [of _ _ _ d]) (use assms in simp_all)
  moreover have "?z div 100 = a * 4 + b" by (rule int_div_pos_eq [of _ _ _ "c * 4 + d"]) (use assms in simp_all)
  moreover have "?z div 400 = a" by (rule int_div_pos_eq [of _ _ _ "b * 100 + c * 4 + d"]) (use assms in simp_all)
  ultimately show ?thesis by (simp add: days_before_year_def Let_def algebra_simps)
qed

lemma fourth_year_leap:
  assumes "0 \<le> b" "b \<le> 3" "0 \<le> c" "c \<le> (24::int)" "c = 24 \<longrightarrow> b = 3"
  shows "is_leap (a * 400 + 1 + b * 100 + c * 4 + 3)"
proof -
  let ?w = "a * 400 + 1 + b * 100 + c * 4 + 3"
  have "?w mod 4 = 0" by (rule int_mod_pos_eq [of _ _ "a * 100 + b * 25 + c + 1"]) simp_all
  moreover have "?w mod 100 = c * 4 + 4" if "c \<noteq> 24"
    by (rule int_mod_pos_eq [of _ _ "a * 4 + b"]) (use assms that in simp_all)
  moreover have "?w mod 400 = 0" if "c = 24"
    by (rule int_mod_pos_eq [of _ _ "a + 1"]) (use assms that in simp_all)
  ultimately show ?thesis using assms by (cases "c = 24") (simp_all add: is_leap_def)
qed

lemma year_bound: "days_before_year y < 3652059 \<Longrightarrow> y \<le> 9999"
  using days_before_year_mono [of 10000 y] by (cases "y \<le> 9999") (simp_all add: days_before_year_def)

lemma december_31: "is_leap y \<Longrightarrow> ymd_ordinal y 12 31 = days_before_year y + 366 \<and> days_in_month y 12 = 31"
  by (simp add: ymd_ordinal_def days_before_month_def days_in_month_def month_lengths_def)

text \<open>Splitting an ordinal into a date is the inverse of numbering the days.\<close>

lemma divmod_split:
  fixes x m :: int
  assumes "0 < m"
  shows "x = x div m * m + x mod m" "0 \<le> x mod m" "x mod m < m"
  using assms by simp_all

lemma ord_to_ymd_parts:
  assumes "1 \<le> n" "n \<le> 3652059"
  obtains n400 n100 n4 n1 r1 where
    "n - 1 = n400 * 146097 + n100 * 36524 + n4 * 1461 + n1 * 365 + r1"
    "0 \<le> n400" "n400 \<le> 24" "0 \<le> n100" "n100 \<le> 4" "0 \<le> n4" "n4 \<le> 24" "0 \<le> n1" "n1 \<le> 4" "0 \<le> r1" "r1 < 365"
    "n100 = 4 \<Longrightarrow> n4 = 0 \<and> n1 = 0 \<and> r1 = 0" "n1 = 4 \<Longrightarrow> r1 = 0 \<and> n4 < 24"
    "ord_to_ymd n = (let y = n400 * 400 + 1 + n100 * 100 + n4 * 4 + n1 in
       if n1 = 4 \<or> n100 = 4 then (y - 1, 12, 31)
       else (let (mo, d) = split_month (month_lengths y) 1 r1 in (y, mo, d)))"
proof -
  define r400 r100 r4 where "r400 = (n - 1) mod 146097" and "r100 = r400 mod 36524" and "r4 = r100 mod 1461"
  note rs = this
  define n400 n100 n4 n1 r1 where "n400 = (n - 1) div 146097" and "n100 = r400 div 36524"
    and "n4 = r100 div 1461" and "n1 = r4 div 365" and "r1 = r4 mod 365"
  note ns = this
  have l: "n - 1 = n400 * 146097 + r400" "0 \<le> r400" "r400 < 146097"
    "r400 = n100 * 36524 + r100" "0 \<le> r100" "r100 < 36524"
    "r100 = n4 * 1461 + r4" "0 \<le> r4" "r4 < 1461" "r4 = n1 * 365 + r1" "0 \<le> r1" "r1 < 365"
    unfolding ns rs using divmod_split by simp_all
  have b: "0 \<le> n400" "n400 \<le> 24" "0 \<le> n100" "n100 \<le> 4" "0 \<le> n4" "n4 \<le> 24" "0 \<le> n1" "n1 \<le> 4"
    using l assms by linarith+
  have z: "n4 = 0" "n1 = 0" "r1 = 0" if "n100 = 4" using that l b by linarith+
  have f: "r1 = 0" "n4 < 24" if "n1 = 4" using that l b by linarith+
  have o: "ord_to_ymd n = (let y = n400 * 400 + 1 + n100 * 100 + n4 * 4 + n1 in
       if n1 = 4 \<or> n100 = 4 then (y - 1, 12, 31)
       else (let (mo, d) = split_month (month_lengths y) 1 r1 in (y, mo, d)))"
    unfolding ord_to_ymd_def ns rs by (simp only: Let_def)
  show thesis by (rule that [OF _ b l(11,12) _ _ o]) (use l z f in linarith)+
qed

lemma ord_to_ymd:
  assumes "1 \<le> n" "n \<le> 3652059" "ord_to_ymd n = (y, mo, d)"
  shows "1 \<le> y \<and> y \<le> 9999 \<and> 1 \<le> mo \<and> mo \<le> 12 \<and> 1 \<le> d \<and> d \<le> days_in_month y mo \<and> ymd_ordinal y mo d = n"
proof (rule ord_to_ymd_parts [OF assms(1,2)])
  fix n400 n100 n4 n1 r1
  assume split: "n - 1 = n400 * 146097 + n100 * 36524 + n4 * 1461 + n1 * 365 + r1"
    and b: "0 \<le> n400" "n400 \<le> 24" "0 \<le> n100" "n100 \<le> 4" "0 \<le> n4" "n4 \<le> 24" "0 \<le> n1" "n1 \<le> 4"
    and r1: "0 \<le> r1" "r1 < 365"
    and z: "n100 = 4 \<Longrightarrow> n4 = 0 \<and> n1 = 0 \<and> r1 = 0" and f: "n1 = 4 \<Longrightarrow> r1 = 0 \<and> n4 < 24"
    and o: "ord_to_ymd n = (let y = n400 * 400 + 1 + n100 * 100 + n4 * 4 + n1 in
       if n1 = 4 \<or> n100 = 4 then (y - 1, 12, 31)
       else (let (mo, d) = split_month (month_lengths y) 1 r1 in (y, mo, d)))"
  let ?y = "n400 * 400 + 1 + n100 * 100 + n4 * 4 + n1"
  show ?thesis
  proof (cases "n1 = 4 \<or> n100 = 4")
    case False
    with b have c: "n100 \<le> 3" "n1 \<le> 3" by auto
    from False o assms(3) have y: "y = ?y" and s: "split_month (month_lengths y) 1 r1 = (mo, d)"
      by (auto simp: Let_def split: prod.splits)
    have dy: "days_before_year y = n - 1 - r1"
      unfolding y using split year_position [of n100 n4 n1 n400] b c by simp
    moreover have "y \<le> 9999" by (rule year_bound) (use dy assms(2) r1 in simp)
    moreover have "1 \<le> y" using y b by linarith
    ultimately show ?thesis using day_of_year [OF r1 s] by (simp add: ymd_ordinal_def)
  next
    case True
    with o assms(3) have y: "y = ?y - 1" "mo = 12" "d = 31" by (auto simp: Let_def)
    obtain b' c' where b': "0 \<le> b'" "b' \<le> 3" "0 \<le> c'" "c' \<le> 24" "c' = 24 \<longrightarrow> b' = 3"
      and y': "y = n400 * 400 + 1 + b' * 100 + c' * 4 + 3"
      and n': "n - 366 = n400 * 146097 + b' * 36524 + c' * 1461 + 3 * 365"
    proof (cases "n100 = 4")
      case True
      with that [of 3 24] z split y(1) show ?thesis by simp
    next
      case False
      with True that [of n100 n4] f split y(1) b show ?thesis by simp
    qed
    have "is_leap y" unfolding y' by (rule fourth_year_leap) (use b' in auto)
    moreover have dy: "days_before_year y = n - 366"
      unfolding y' using n' year_position [of b' c' 3 n400] b' by simp
    moreover have "y \<le> 9999" by (rule year_bound) (use dy assms(2) in simp)
    moreover have "1 \<le> y" using y' b b' by linarith
    ultimately show ?thesis using december_31 y(2,3) by simp
  qed
qed

text \<open>The fields of an instant are a valid date and time that denotes the instant.\<close>

lemma civil_of_valid:
  assumes "valid_instant t"
  shows "valid_civil (c_year (civil_of t)) (c_month (civil_of t)) (c_day (civil_of t))
      (c_hour (civil_of t)) (c_minute (civil_of t)) (c_second (civil_of t))" (is ?valid)
    and "civil_instant (c_year (civil_of t)) (c_month (civil_of t)) (c_day (civil_of t))
      (c_hour (civil_of t)) (c_minute (civil_of t)) (c_second (civil_of t)) + c_us (civil_of t) = t" (is ?same)
    and "0 \<le> c_us (civil_of t)" "c_us (civil_of t) < 1000000"
proof -
  define day us sec where "day = t div us_per_day" and "us = t mod us_per_day" and "sec = us div US"
  obtain y mo d where o: "ord_to_ymd (day + EPOCH_ORDINAL) = (y, mo, d)" by (metis prod_cases3)
  have c: "civil_of t = \<lparr>c_year = y, c_month = mo, c_day = d, c_hour = sec div 3600,
      c_minute = sec mod 3600 div 60, c_second = sec mod 60, c_us = us mod US\<rparr>"
    using o by (simp add: civil_of_def day_def us_def sec_def Let_def)
  have t: "t = day * 86400000000 + us" "0 \<le> us" "us < 86400000000"
    by (simp_all add: day_def us_def us_per_day_def)
  have u: "us = sec * 1000000 + us mod US" "0 \<le> us mod US" "us mod US < 1000000"
    by (simp_all add: sec_def US_def)
  with t have sec: "0 \<le> sec" "sec < 86400" by linarith+
  define h m s where "h = sec div 3600" and "m = sec mod 3600 div 60" and "s = sec mod 60"
  note c' = c [folded h_def m_def s_def]
  have "sec mod 3600 mod 60 = s" unfolding s_def by (rule mod_mod_cancel) simp
  then have "sec mod 3600 = m * 60 + s" using divmod_split(1) [of 60 "sec mod 3600"] by (simp add: m_def)
  moreover have "sec = h * 3600 + sec mod 3600" using divmod_split(1) [of 3600 sec] by (simp only: h_def)
  ultimately have hms: "sec = h * 3600 + m * 60 + s" "0 \<le> s" "s < 60" "0 \<le> m * 60 + s" "m * 60 + s < 3600"
    using divmod_split(2,3) [of 3600 sec] by (simp_all add: s_def)
  with sec have b: "0 \<le> h" "h \<le> 23" "0 \<le> m" "m \<le> 59" by linarith+
  have dr: "1 \<le> day + EPOCH_ORDINAL" "day + EPOCH_ORDINAL \<le> 3652059"
    using assms t by (simp_all add: valid_instant_def dt_min_def dt_max_def EPOCH_ORDINAL_def)
  note ymd = ord_to_ymd [OF dr o]
  show ?valid using ymd b hms(2,3) by (simp add: valid_civil_def c')
  have "civil_instant y mo d h m s = (day * 86400 + sec) * 1000000"
    using ymd hms by (simp add: civil_instant_def US_def algebra_simps)
  moreover have "t = day * 86400000000 + (sec * 1000000 + us mod US)" using t(1) u(1) by metis
  ultimately have "civil_instant y mo d h m s + us mod US = t" by simp
  then show ?same by (simp add: c')
  show "0 \<le> c_us (civil_of t)" "c_us (civil_of t) < 1000000" using u by (simp_all add: c)
qed

section \<open>Facts: text\<close>

lemma length_zpad [simp]: "length (zpad k n) = k"
  by (induction k n rule: zpad.induct) simp_all

lemma iso_shape_append [simp]: "iso_shape (a @ b) = iso_shape a @ iso_shape b"
  by (simp add: iso_shape_def)

lemma iso_shape_zpad: "iso_shape (pts (zpad k n)) = replicate k 48"
proof (induction k n rule: zpad.induct)
  case (2 k n)
  have "iso_shape (pts [digit_char (n mod 10)]) = [48]"
    by (simp add: iso_shape_def is_dig_cp)
  with 2 show ?case by (simp add: replicate_append_same)
qed (simp add: iso_shape_def)

lemma digits_value_zpad: "0 \<le> n \<Longrightarrow> n < 10 ^ k \<Longrightarrow> digits_value (pts (zpad k n)) = n"
proof (induction k n rule: zpad.induct)
  case (1 n)
  then show ?case by (simp add: digits_value_def)
next
  case (2 k n)
  then have "digits_value (pts (zpad k (n div 10))) = n div 10" by simp
  then show ?case by (simp add: digits_value_snoc cp_digit_char)
qed

lemma plain_zpad: "list_all plain_char (zpad k n)"
proof (induction k n rule: zpad.induct)
  case (2 k n)
  have "plain_char (digit_char (n mod 10))"
    using cp_digit_char [of "n mod 10"] by (auto simp: plain_char_def cp_def ord_def)
  with 2 show ?case by simp
qed simp

lemma length_pts [simp]: "length (pts s) = length s"
  by (simp add: pts_def)

lemma field_at_append: "length a = i \<Longrightarrow> length b = k \<Longrightarrow> field_at i k (a @ b @ c) = digits_value b"
  by (simp add: field_at_def)

text \<open>The text as the concatenation of its pieces, with or without the fraction.\<close>

definition iso_text :: "civil \<Rightarrow> string \<Rightarrow> string" where
  "iso_text c tail = zpad 4 (c_year c) @ ''-'' @ zpad 2 (c_month c) @ ''-'' @ zpad 2 (c_day c) @ ''T'' @
     zpad 2 (c_hour c) @ '':'' @ zpad 2 (c_minute c) @ '':'' @ zpad 2 (c_second c) @ tail"

lemma iso_text_fields:
  assumes "valid_civil (c_year c) (c_month c) (c_day c) (c_hour c) (c_minute c) (c_second c)"
  shows "field_at 0 4 (pts (iso_text c r)) = c_year c" "field_at 5 2 (pts (iso_text c r)) = c_month c"
    "field_at 8 2 (pts (iso_text c r)) = c_day c" "field_at 11 2 (pts (iso_text c r)) = c_hour c"
    "field_at 14 2 (pts (iso_text c r)) = c_minute c" "field_at 17 2 (pts (iso_text c r)) = c_second c"
proof -
  have dim: "c_day c < 100"
  proof -
    have "nat (c_month c - 1) < 12" using assms by (auto simp: valid_civil_def)
    then have "days_in_month (c_year c) (c_month c) \<in> set (month_lengths (c_year c))"
      unfolding days_in_month_def using month_lengths_facts(1) by (metis nth_mem)
    then have "days_in_month (c_year c) (c_month c) \<le> 31" by (auto simp: month_lengths_def split: if_splits)
    with assms show ?thesis by (simp add: valid_civil_def)
  qed
  have v: "digits_value (pts (zpad 4 (c_year c))) = c_year c" "digits_value (pts (zpad 2 (c_month c))) = c_month c"
    "digits_value (pts (zpad 2 (c_day c))) = c_day c" "digits_value (pts (zpad 2 (c_hour c))) = c_hour c"
    "digits_value (pts (zpad 2 (c_minute c))) = c_minute c" "digits_value (pts (zpad 2 (c_second c))) = c_second c"
    using assms dim by (simp_all add: valid_civil_def digits_value_zpad)
  show "field_at 0 4 (pts (iso_text c r)) = c_year c" "field_at 5 2 (pts (iso_text c r)) = c_month c"
    "field_at 8 2 (pts (iso_text c r)) = c_day c" "field_at 11 2 (pts (iso_text c r)) = c_hour c"
    "field_at 14 2 (pts (iso_text c r)) = c_minute c" "field_at 17 2 (pts (iso_text c r)) = c_second c"
    using v by (simp_all add: iso_text_def field_at_def)
qed

lemma iso_text_shape:
  "iso_shape (pts (iso_text c r)) = pts ''0000-00-00T00:00:00'' @ iso_shape (pts r)"
proof -
  have "iso_shape (pts ''-'') = pts ''-''" "iso_shape (pts '':'') = pts '':''" "iso_shape (pts ''T'') = pts ''T''"
    by (simp_all add: iso_shape_def is_dig_def cp_def ord_def)
  then show ?thesis
    unfolding iso_text_def pts_append iso_shape_append iso_shape_zpad
    by (simp add: numeral_eq_Suc cp_def ord_def)
qed

lemma isoformat_text:
  "isoformat t = iso_text (civil_of t)
     ((if c_us (civil_of t) = 0 then [] else ''.'' @ zpad 6 (c_us (civil_of t))) @ ''+00:00'')"
  by (simp add: isoformat_def iso_text_def Let_def)

lemma iso_offset_shape: "iso_shape (pts ''+00:00'') = pts ''+00:00''" "iso_shape (pts ''.'') = pts ''.''"
  by (simp_all add: iso_shape_def is_dig_def cp_def ord_def)

text \<open>Reading back what \<open>isoformat\<close> wrote gives the instant, to the microsecond.\<close>

lemma fromisoformat_isoformat:
  assumes "valid_instant t"
  shows "fromisoformat iso_other (pts (isoformat t)) = Inr (Aware t)"
proof -
  let ?c = "civil_of t"
  note v = civil_of_valid [OF assms]
  have fields: "iso_fields (pts (iso_text ?c r)) us = Inr (Aware (t - c_us ?c + us))" for r us
    using v(1,2) by (simp add: iso_fields_def iso_text_fields [OF v(1)] Let_def)
  show ?thesis
  proof (cases "c_us ?c = 0")
    case True
    have "iso_shape (pts (isoformat t)) = pts ''0000-00-00T00:00:00+00:00''"
      using True by (simp add: isoformat_text iso_text_shape iso_offset_shape del: pts_Cons) simp
    then show ?thesis using True fields [of "''+00:00''" 0] by (simp add: fromisoformat_def isoformat_text)
  next
    case False
    let ?r = "''.'' @ zpad 6 (c_us ?c) @ ''+00:00''"
    have i: "isoformat t = iso_text ?c ?r" using False by (simp add: isoformat_text)
    have sh: "iso_shape (pts (isoformat t)) = pts ''0000-00-00T00:00:00.000000+00:00''"
      unfolding i iso_text_shape pts_append iso_shape_append iso_shape_zpad iso_offset_shape
      by (simp add: numeral_eq_Suc cp_def ord_def)
    have "length (pts ''0000-00-00T00:00:00.000000+00:00'') \<noteq> length (pts ''0000-00-00T00:00:00+00:00'')" by simp
    with sh have ne: "iso_shape (pts (isoformat t)) \<noteq> pts ''0000-00-00T00:00:00+00:00''" by metis
    have "field_at 20 6 (pts (isoformat t)) = digits_value (pts (zpad 6 (c_us ?c)))"
      unfolding i iso_text_def by (simp add: field_at_def)
    also have "\<dots> = c_us ?c" using v(3,4) by (simp add: digits_value_zpad)
    finally show ?thesis
      using sh ne fields [of ?r "c_us ?c"] by (simp add: fromisoformat_def i)
  qed
qed

lemma isoformat_plain: "list_all plain_char (isoformat t)"
proof -
  have "list_all plain_char ''-''" "list_all plain_char ''T''" "list_all plain_char '':''"
    "list_all plain_char ''.''" "list_all plain_char ''+00:00''"
    by (simp_all add: plain_char_def cp_def ord_def)
  then show ?thesis by (simp add: isoformat_def Let_def plain_zpad)
qed

lemma isoformat_not_Nil: "isoformat t \<noteq> []"
  by (simp add: isoformat_def Let_def)

end
