(* ===== verification/Api_Cursor.thy ===== *)
theory Api_Cursor
  imports Iso_Date Api_Errors
begin

text \<open>
  What the two list endpoints share about cursors: decoding the text to a JSON value, reading an
  integer out of it, and which exceptions become \<open>400 invalid cursor\<close>. The interpreter's
  environment is an argument: the bound on nested JSON containers, the character
  database that \<open>int(s)\<close> consults for code points from 256 on (a digit, a blank or \<open>?\<close>), and
  \<open>fromisoformat\<close> on texts of a shape that \<open>isoformat\<close> does not write.
\<close>

record py_env =
  py_depth :: int
  py_decimal :: "int \<Rightarrow> char"
  py_iso :: "text_pts \<Rightarrow> exn + datetime_val"

definition decode_payload :: "py_env \<Rightarrow> string \<Rightarrow> exn + json" where
  "decode_payload env cursor =
     try_bind (urlsafe_b64decode (repad cursor)) (\<lambda>raw.
       try_bind (bytes_decode raw) (\<lambda>text. json_loads (py_depth env) text))"

text \<open>\<open>payload[k]\<close>\<close>

definition json_subscript :: "json \<Rightarrow> string \<Rightarrow> exn + json" where
  "json_subscript j k = (case j of
     JObj kvs \<Rightarrow> (case member kvs k of None \<Rightarrow> Inl (raise_exn KeyError) | Some v \<Rightarrow> Inr v)
   | _ \<Rightarrow> Inl (raise_exn TypeError))"

definition py_int_text :: "py_env \<Rightarrow> text_pts \<Rightarrow> int option" where
  "py_int_text env s = py_int (map (\<lambda>p. if p < 256 then char_of (nat p) else py_decimal env p) s)"

text \<open>\<open>int(value)\<close>\<close>

definition json_int :: "py_env \<Rightarrow> json \<Rightarrow> exn + int" where
  "json_int env j = (case j of
     JInt n \<Rightarrow> Inr n
   | JBool b \<Rightarrow> Inr (if b then 1 else 0)
   | JFloat x \<Rightarrow> Inr (py_trunc x)
   | JInf _ \<Rightarrow> Inl (raise_exn OverflowError)
   | JNaN \<Rightarrow> Inl (raise_exn ValueError)
   | JStr s \<Rightarrow> (case py_int_text env s of None \<Rightarrow> Inl (raise_exn ValueError) | Some n \<Rightarrow> Inr n)
   | _ \<Rightarrow> Inl (raise_exn TypeError))"

text \<open>\<open>except (ValueError, KeyError, TypeError)\<close>\<close>

definition bad_cursor :: "exn \<Rightarrow> api_error" where
  "bad_cursor e =
     (if is_ValueError (exn_cls e) \<or> exn_cls e = KeyError \<or> exn_cls e = TypeError
      then HTTPException 400 (Some ''invalid cursor'') else Unhandled e)"

definition invalid_cursor :: "exn + 'a \<Rightarrow> api_error + 'a" where
  "invalid_cursor r = (case r of Inr a \<Rightarrow> Inr a | Inl e \<Rightarrow> Inl (bad_cursor e))"

text \<open>A value bound to an \<open>INTEGER\<close> parameter: outside 32 bits the driver raises.\<close>

definition int4 :: "int \<Rightarrow> bool" where
  "int4 n = (- 2147483648 \<le> n \<and> n \<le> 2147483647)"

definition bind_int4 :: "int \<Rightarrow> api_error + unit" where
  "bind_int4 n = (if int4 n then Inr () else Inl (Unhandled (raise_exn DBAPIError)))"

section \<open>Facts\<close>

lemma invalid_cursor_simps [simp]:
  "invalid_cursor (Inr a) = Inr a" "invalid_cursor (Inl e) = Inl (bad_cursor e)"
  by (simp_all add: invalid_cursor_def)

lemma int4_printable: "int4 n \<Longrightarrow> \<bar>n\<bar> < 10 ^ nat MAX_STR_DIGITS"
proof -
  assume "int4 n"
  then have "\<bar>n\<bar> < 10 ^ 10" by (auto simp: int4_def)
  also have "(10::int) ^ 10 \<le> 10 ^ nat MAX_STR_DIGITS"
    by (rule power_increasing) (simp_all add: MAX_STR_DIGITS_def)
  finally show ?thesis .
qed

lemma is_ascii_append [simp]: "is_ascii (a @ b) \<longleftrightarrow> is_ascii a \<and> is_ascii b"
  by (simp add: is_ascii_def)

lemma is_ascii_Cons [simp]: "is_ascii (c # s) \<longleftrightarrow> ord c < 128 \<and> is_ascii s" "is_ascii []"
  by (simp_all add: is_ascii_def)

lemma is_ascii_str_of_int: "is_ascii (str_of_int n)"
proof -
  have "is_ascii (decimal \<bar>n\<bar>)"
    using decimal_digits [of "\<bar>n\<bar>"] by (auto simp: is_ascii_def list_all_iff is_digit_def)
  then show ?thesis by (auto simp: str_of_int_def abs_if ord_def split: if_splits)
qed

lemma is_ascii_plain:
  assumes "list_all plain_char s"
  shows "is_ascii (dumps_str s)"
proof -
  have "ord c < 128" if "plain_char c" for c using that by (simp add: plain_char_def cp_def)
  with assms have "is_ascii s" by (simp add: is_ascii_def list_all_iff)
  moreover have "ord CHR 0x22 < 128" by (simp add: ord_def)
  ultimately show ?thesis by (simp add: dumps_plain [OF assms])
qed

lemma stops_number_punctuation: "stops_number (125 # r)" "stops_number (44 # r)"
  by (simp_all add: stops_number_def is_dig_def)

lemma member_simps: "member [] k = None"
  "member (kvs @ [(pts k', v)]) k = (if k = k' then Some v else member kvs k)"
proof -
  have "inj cp" by (rule injI) (simp add: cp_eq_iff)
  then have "inj pts" unfolding pts_def by (rule inj_mapI)
  then show "member (kvs @ [(pts k', v)]) k = (if k = k' then Some v else member kvs k)"
    by (auto simp: member_def inj_def)
qed (simp add: member_def)

text \<open>Decoding what \<open>json.dumps\<close> and base64 produced parses the text again.\<close>

lemma decode_payload_unpadded:
  "is_ascii raw \<Longrightarrow> decode_payload env (unpadded raw) = json_loads (py_depth env) (pts raw)"
  by (simp add: decode_payload_def b64_roundtrip bytes_decode_ascii)

definition sample_py_env :: py_env where
  "sample_py_env = \<lparr>py_depth = 1000, py_decimal = (\<lambda>_. CHR ''?''), py_iso = (\<lambda>_. Inl (raise_exn ValueError))\<rparr>"

end
