(* ===== verification/Keyset.thy ===== *)
theory Keyset
  imports Prelude
begin

text \<open>
  Keyset pagination as both list endpoints use it: fetch one row more than the page holds, hand
  out the page, and name its last row in the cursor if there was a row more. The locale
  \<open>keyset_pagination\<close> is the contract of such an endpoint: the first request answers with the
  first page, and a request with the cursor of a row answers with the first page of the rows
  after it. What a client that follows the cursors receives is proved once from the contract,
  for a table that does not change and for one that changes between the requests.
\<close>

section \<open>Pages and walks\<close>

definition page :: "('r \<Rightarrow> 'k::linorder) \<Rightarrow> ('r \<Rightarrow> 'c) \<Rightarrow> nat \<Rightarrow> 'r list \<Rightarrow> 'r list \<times> 'c option" where
  "page key enc n rows =
     (let rs = take (n + 1) (sort_key key rows); items = take n rs
      in (items, if length rs > n \<and> items \<noteq> [] then Some (enc (last items)) else None))"

text \<open>
  A client follows the cursors, one request per snapshot of the database. The flag tells
  whether it saw the end (a page without a cursor).
\<close>

fun walk :: "('s \<Rightarrow> 'c option \<Rightarrow> 'e + 'r list \<times> 'c option) \<Rightarrow> 's list \<Rightarrow> 'c option \<Rightarrow> 'e + 'r list \<times> bool" where
  "walk request [] c = Inr ([], False)"
| "walk request (s # ss) c =
     try_bind (request s c) (\<lambda>(items, nxt). case nxt of
         None \<Rightarrow> Inr (items, True)
       | Some c' \<Rightarrow> try_bind (walk request ss (Some c')) (\<lambda>(rest, fin). Inr (items @ rest, fin)))"

section \<open>Facts\<close>

definition ascending :: "('r \<Rightarrow> 'k::linorder) \<Rightarrow> 'r list \<Rightarrow> bool" where
  "ascending key xs = sorted_wrt (<) (map key xs)"

lemma ascending_append:
  "ascending key (xs @ ys) \<longleftrightarrow> ascending key xs \<and> ascending key ys \<and>
     (\<forall>x \<in> set xs. \<forall>y \<in> set ys. key x < key y)"
  by (auto simp: ascending_def sorted_wrt_append)

lemma ascending_distinct: "ascending key xs \<Longrightarrow> distinct (map key xs)"
  by (simp add: ascending_def strict_sorted_iff)

lemma ascending_sort_key:
  assumes "distinct (map key rows)"
  shows "ascending key (sort_key key rows)"
  using assms unfolding ascending_def
  by (metis distinct_map distinct_sort set_sort sorted_sort_key strict_sorted_iff)

lemma ascending_last:
  assumes "ascending key xs" "x \<in> set xs"
  shows "key x \<le> key (last xs)"
proof -
  from assms(2) have "xs = butlast xs @ [last xs]" by (cases xs) auto
  with assms show ?thesis
    by (metis UnE ascending_append list.set_intros(1) order_less_imp_le order_refl set_ConsD set_append empty_iff empty_set)
qed

lemma filter_after_prefix:
  assumes "ascending key (xs @ ys)" "xs \<noteq> []"
  shows "filter (\<lambda>x. key (last xs) < key x) (xs @ ys) = ys"
proof -
  have "\<not> key (last xs) < key x" if "x \<in> set xs" for x
    using assms(1) that ascending_last [of key xs x] by (auto simp: ascending_append)
  moreover have "key (last xs) < key y" if "y \<in> set ys" for y
    using assms that by (auto simp: ascending_append)
  ultimately show ?thesis by (simp add: filter_id_conv filter_empty_conv)
qed

lemma page_items: "fst (page key enc n rows) = take n (sort_key key rows)"
  by (simp add: page_def Let_def min_def)

lemma take_sort_not_Nil:
  assumes "0 < n" "n < length rows"
  shows "take n (sort_key key rows) \<noteq> []"
proof -
  have "length (take n (sort_key key rows)) = n" using assms by simp
  with assms show ?thesis by (metis length_0_conv less_irrefl)
qed

lemma page_next:
  assumes "0 < n"
  shows "snd (page key enc n rows) =
    (if length rows \<le> n then None else Some (enc (last (take n (sort_key key rows)))))"
proof -
  have "take n (sort_key key rows) \<noteq> []" if "n < length rows" using that assms by (rule take_sort_not_Nil [rotated])
  then show ?thesis by (auto simp: page_def Let_def min_def)
qed

lemma insort_key_map: "insort_key k (h x) (map h xs) = map h (insort_key (k \<circ> h) x xs)"
  by (induction xs) auto

lemma sort_key_map: "sort_key k (map h xs) = map h (sort_key (k \<circ> h) xs)"
  by (induction xs) (simp_all add: insort_key_map o_def)

lemma slice_to_nat: "slice_to (int n) xs = take n xs"
  by (simp add: slice_to_def)

section \<open>The contract of a paged endpoint\<close>

locale keyset_pagination =
  fixes key :: "'r \<Rightarrow> 'k::linorder"
    and rows :: "'s \<Rightarrow> 'r list"
    and enc :: "'r \<Rightarrow> 'c"
    and n :: nat
    and snapshot :: "'s \<Rightarrow> bool"
    and request :: "'s \<Rightarrow> 'c option \<Rightarrow> 'e + 'r list \<times> 'c option"
  assumes page_size: "0 < n"
    and keys_distinct: "snapshot s \<Longrightarrow> distinct (map key (rows s))"
    and first_page: "snapshot s \<Longrightarrow> request s None = Inr (page key enc n (rows s))"
    and next_page: "snapshot s \<Longrightarrow> snapshot s' \<Longrightarrow> r \<in> set (rows s') \<Longrightarrow>
      request s (Some (enc r)) = Inr (page key enc n (filter (\<lambda>x. key r < key x) (rows s)))"
begin

text \<open>The rows a request has to page through: those after the cursor's row.\<close>

definition pending :: "'s \<Rightarrow> 'r option \<Rightarrow> 'r list" where
  "pending s c = (case c of None \<Rightarrow> rows s | Some r \<Rightarrow> filter (\<lambda>x. key r < key x) (rows s))"

definition issued :: "'r option \<Rightarrow> bool" where
  "issued c \<longleftrightarrow> (\<forall>r. c = Some r \<longrightarrow> (\<exists>s. snapshot s \<and> r \<in> set (rows s)))"

lemma request_pending:
  "snapshot s \<Longrightarrow> issued c \<Longrightarrow> request s (map_option enc c) = Inr (page key enc n (pending s c))"
  by (cases c) (auto simp: pending_def issued_def first_page next_page)

lemma ascending_pending: "snapshot s \<Longrightarrow> ascending key (sort_key key (pending s c))"
  by (rule ascending_sort_key) (auto simp: pending_def keys_distinct distinct_map_filter split: option.splits)

lemma pending_subset: "set (pending s c) \<subseteq> set (rows s)"
  by (auto simp: pending_def split: option.splits)

text \<open>One request of a walk: the page, and where the walk goes on.\<close>

lemma walk_step:
  assumes "snapshot s" "issued c"
  defines "xs \<equiv> sort_key key (pending s c)"
  shows "walk request (s # ss) (map_option enc c) =
     (if length xs \<le> n then Inr (xs, True)
      else try_bind (walk request ss (map_option enc (Some (last (take n xs)))))
             (\<lambda>(rest, fin). Inr (take n xs @ rest, fin)))"
proof -
  have p: "page key enc n (pending s c) =
      (take n xs, if length xs \<le> n then None else Some (enc (last (take n xs))))"
    unfolding xs_def using page_items [of key enc n "pending s c"] page_next [OF page_size, of key enc "pending s c"]
    by (simp add: prod_eq_iff)
  show ?thesis by (simp add: request_pending assms(1,2) p)
qed

lemma walk_continues:
  assumes "snapshot s" "n < length (pending s c)"
  defines "xs \<equiv> sort_key key (pending s c)"
  shows "take n xs \<noteq> [] \<and> issued (Some (last (take n xs)))"
proof -
  have ne: "take n xs \<noteq> []" unfolding xs_def by (rule take_sort_not_Nil [OF page_size assms(2)])
  then have "last (take n xs) \<in> set xs" by (rule in_set_takeD [OF last_in_set])
  then show ?thesis using ne assms(1) pending_subset [of s c] by (auto simp: issued_def xs_def)
qed

lemma pending_after:
  assumes "snapshot s" "n < length (pending s c)"
  defines "xs \<equiv> sort_key key (pending s c)"
  shows "sort_key key (pending s (Some (last (take n xs)))) = drop n xs"
proof -
  have asc: "ascending key (take n xs @ drop n xs)" using ascending_pending [OF assms(1)] by (simp add: xs_def)
  have ne: "take n xs \<noteq> []" unfolding xs_def by (rule take_sort_not_Nil [OF page_size assms(2)])
  let ?l = "last (take n xs)"
  have l: "?l \<in> set (pending s c)" using in_set_takeD [OF last_in_set [OF ne]] by (simp add: xs_def)
  have "pending s (Some ?l) = filter (\<lambda>x. key ?l < key x) (pending s c)"
    using l by (auto simp: pending_def split: option.splits intro!: filter_cong)
  then have "sort_key key (pending s (Some ?l)) = filter (\<lambda>x. key ?l < key x) xs"
    by (simp add: xs_def filter_sort)
  also have "\<dots> = filter (\<lambda>x. key ?l < key x) (take n xs @ drop n xs)" by (simp only: append_take_drop_id)
  also have "\<dots> = drop n xs" by (rule filter_after_prefix [OF asc ne])
  finally show ?thesis .
qed

text \<open>On a table that does not change, enough requests return every row once, in order.\<close>

lemma walk_from_static:
  assumes "snapshot s" "issued c" "0 < m" "length (pending s c) \<le> m * n"
  shows "walk request (replicate m s) (map_option enc c) = Inr (sort_key key (pending s c), True)"
  using assms(2-4)
proof (induction m arbitrary: c)
  case (Suc m)
  let ?xs = "sort_key key (pending s c)"
  note st = walk_step [OF assms(1) Suc.prems(1), of "replicate m s"] and cont = walk_continues [OF assms(1), of c]
  show ?case
  proof (cases "length ?xs \<le> n")
    case True
    with st show ?thesis by simp
  next
    case False
    let ?l = "last (take n ?xs)"
    from False have p: "sort_key key (pending s (Some ?l)) = drop n ?xs" using pending_after [OF assms(1)] by simp
    then have "length (pending s (Some ?l)) = length ?xs - n" by (metis length_drop length_sort)
    with Suc.prems False have "length (pending s (Some ?l)) \<le> m * n" "0 < m" by (auto intro: Suc_leI gr0I)
    with Suc.IH [of "Some ?l"] cont False p
    have "walk request (replicate m s) (map_option enc (Some ?l)) = Inr (drop n ?xs, True)" by simp
    with st False show ?thesis by simp
  qed
qed simp

lemma walk_static:
  assumes "snapshot s" "0 < m" "length (rows s) \<le> m * n"
  shows "walk request (replicate m s) None = Inr (sort_key key (rows s), True)"
  using walk_from_static [OF assms(1), of None] assms(2,3) by (simp add: issued_def pending_def)

text \<open>
  On a table that changes between the requests: nothing is returned twice or out of order, and
  a walk that ends has returned every key that was there all the time.
\<close>

lemma walk_from_edits:
  assumes "list_all snapshot ss" "issued c" "walk request ss (map_option enc c) = Inr (items, fin)"
  shows "ascending key items \<and> (\<forall>x \<in> set items. \<forall>r. c = Some r \<longrightarrow> key r < key x) \<and>
    (\<forall>x \<in> set items. \<exists>s \<in> set ss. x \<in> set (rows s)) \<and>
    (fin \<longrightarrow> (\<forall>k. (\<forall>s \<in> set ss. k \<in> key ` set (rows s)) \<longrightarrow> (\<forall>r. c = Some r \<longrightarrow> key r < k) \<longrightarrow>
       k \<in> key ` set items))"
  using assms
proof (induction ss arbitrary: c items)
  case Nil
  then show ?case by (simp add: ascending_def)
next
  case (Cons s ss)
  let ?xs = "sort_key key (pending s c)"
  from Cons.prems have s: "snapshot s" and ss: "list_all snapshot ss" by simp_all
  note st = walk_step [OF s Cons.prems(2), of ss] and cont = walk_continues [OF s, of c]
  have "ascending key (take n ?xs @ drop n ?xs)" using ascending_pending [OF s] by simp
  note asc = this [unfolded ascending_append]
  have mem: "x \<in> set ?xs \<longleftrightarrow> x \<in> set (rows s) \<and> (\<forall>r. c = Some r \<longrightarrow> key r < key x)" for x
    by (auto simp: pending_def split: option.splits)
  show ?case
  proof (cases "length ?xs \<le> n")
    case True
    with st Cons.prems(3) have "items = ?xs" by simp
    with ascending_pending [OF s] mem show ?thesis by auto
  next
    case False
    let ?l = "last (take n ?xs)"
    from False cont have ne: "take n ?xs \<noteq> []" and l: "issued (Some ?l)" by auto
    from st False Cons.prems(3) obtain rest where
      rest: "walk request ss (map_option enc (Some ?l)) = Inr (rest, fin)" and items: "items = take n ?xs @ rest"
      by (auto simp: try_bind_eq_Inr)
    note IH = Cons.IH [OF ss l rest]
    have below: "key x \<le> key ?l" if "x \<in> set (take n ?xs)" for x
      using that asc by (blast intro: ascending_last)
    have "ascending key items" using IH asc below by (force simp: items ascending_append)
    moreover have "\<forall>r. c = Some r \<longrightarrow> key r < key x" if "x \<in> set items" for x
    proof -
      have "?l \<in> set ?xs" by (rule in_set_takeD [OF last_in_set [OF ne]])
      with that IH mem [of ?l] mem [of x] show ?thesis
        by (auto simp: items dest: in_set_takeD intro: order.strict_trans)
    qed
    moreover have "k \<in> key ` set items" if fin and all: "\<forall>s \<in> set (s # ss). k \<in> key ` set (rows s)"
      and after: "\<forall>r. c = Some r \<longrightarrow> key r < k" for k
    proof (cases "key ?l < k")
      case True
      with IH \<open>fin\<close> all have "k \<in> key ` set rest" by auto
      then show ?thesis by (auto simp: items)
    next
      case False
      from all obtain x where x: "x \<in> set (rows s)" "key x = k" by auto
      with after mem have "x \<in> set (take n ?xs) \<or> x \<in> set (drop n ?xs)"
        by (metis Un_iff append_take_drop_id set_append)
      moreover have "x \<notin> set (drop n ?xs)" using False x asc last_in_set [OF ne] by auto
      ultimately have "x \<in> set items" by (simp add: items)
      with x show ?thesis by blast
    qed
    moreover have "\<exists>s' \<in> set (s # ss). x \<in> set (rows s')" if "x \<in> set items" for x
      using that IH mem by (auto simp: items dest: in_set_takeD)
    ultimately show ?thesis by blast
  qed
qed

lemma walk_edits:
  assumes "list_all snapshot ss" "walk request ss None = Inr (items, fin)"
  shows "ascending key items" "x \<in> set items \<Longrightarrow> \<exists>s \<in> set ss. x \<in> set (rows s)"
    "fin \<Longrightarrow> (\<And>s. s \<in> set ss \<Longrightarrow> k \<in> key ` set (rows s)) \<Longrightarrow> k \<in> key ` set items"
  using walk_from_edits [of ss None items fin] assms by (auto simp: issued_def)

text \<open>No request of a walk fails.\<close>

lemma walk_never_fails:
  assumes "list_all snapshot ss" "issued c"
  shows "\<exists>items fin. walk request ss (map_option enc c) = Inr (items, fin)"
  using assms
proof (induction ss arbitrary: c)
  case (Cons s ss)
  let ?xs = "sort_key key (pending s c)"
  from Cons.prems have s: "snapshot s" and ss: "list_all snapshot ss" by simp_all
  note st = walk_step [OF s Cons.prems(2), of ss] and cont = walk_continues [OF s, of c]
  show ?case
  proof (cases "length ?xs \<le> n")
    case False
    with cont have "issued (Some (last (take n ?xs)))" by simp
    from Cons.IH [OF ss this] st False show ?thesis by (auto split: prod.splits)
  qed (use st in \<open>auto simp del: walk.simps\<close>)
qed auto

lemma walk_returns: "list_all snapshot ss \<Longrightarrow> \<exists>items fin. walk request ss None = Inr (items, fin)"
  using walk_never_fails [of ss None] by (simp add: issued_def)

end

end
