(* ===== verification/PyUrl.thy ===== *)
theory PyUrl
  imports PyNet
begin

text \<open>
  What \<open>urlsplit\<close> promises of its parts, and that \<open>urlsplit\<close> inverts \<open>urlunsplit\<close> on parts of
  that form with a scheme and an authority.
\<close>

definition no_chars :: "char list \<Rightarrow> string \<Rightarrow> bool" where
  "no_chars cs s = list_all (\<lambda>c. c \<notin> set cs) s"

definition control_chars :: "char list" where
  "control_chars = [CHR 0x09, CHR 0x0D, CHR 0x0A]"

definition clean_scheme :: "string \<Rightarrow> bool" where
  "clean_scheme s = (s \<noteq> [] \<and> is_ascii_alpha (hd s) \<and> list_all is_scheme_char s \<and> lower s = s)"

definition clean_parts :: "split_result \<Rightarrow> bool" where
  "clean_parts p =
     ((u_scheme p = [] \<or> clean_scheme (u_scheme p)) \<and>
      no_chars (control_chars @ ''/?#'') (u_netloc p) \<and> netloc_ok (u_netloc p) \<and>
      no_chars (control_chars @ ''?#'') (u_path p) \<and> no_chars (control_chars @ ''#'') (u_query p) \<and>
      (u_netloc p = [] \<or> u_path p = [] \<or> hd (u_path p) = CHR ''/''))"

lemma no_chars_append [simp]: "no_chars cs (a @ b) \<longleftrightarrow> no_chars cs a \<and> no_chars cs b"
  by (simp add: no_chars_def)

lemma no_chars_Cons [simp]: "no_chars cs (c # s) \<longleftrightarrow> c \<notin> set cs \<and> no_chars cs s" "no_chars cs []"
  by (simp_all add: no_chars_def)

lemma no_chars_subset: "no_chars cs s \<Longrightarrow> set t \<subseteq> set s \<Longrightarrow> no_chars cs t"
  by (auto simp: no_chars_def list_all_iff)

lemma no_chars_union: "no_chars (a @ b) s \<longleftrightarrow> no_chars a s \<and> no_chars b s"
  by (auto simp: no_chars_def list_all_iff)

lemma partition_at_append:
  assumes "c \<notin> set h"
  shows "partition_at c (h @ c # t) = (h, True, t)"
proof -
  have "\<forall>x \<in> set h. x \<noteq> c" using assms by blast
  then have "takeWhile (\<lambda>x. x \<noteq> c) (h @ c # t) = h @ takeWhile (\<lambda>x. x \<noteq> c) (c # t)"
    "dropWhile (\<lambda>x. x \<noteq> c) (h @ c # t) = dropWhile (\<lambda>x. x \<noteq> c) (c # t)"
    by (simp_all add: takeWhile_append2 dropWhile_append2)
  then show ?thesis by (simp add: partition_at_def)
qed

lemma partition_at_none:
  assumes "c \<notin> set s"
  shows "partition_at c s = (s, False, [])"
proof -
  have d: "dropWhile (\<lambda>x. x \<noteq> c) s = []" using assms by (auto simp: dropWhile_eq_Nil_conv)
  then have "takeWhile (\<lambda>x. x \<noteq> c) s = s" by (metis append_Nil2 takeWhile_dropWhile_id)
  with d show ?thesis by (simp only: partition_at_def Let_def list.case)
qed

lemma partition_at_parts:
  assumes "partition_at c s = (h, sep, t)"
  shows "set h \<subseteq> set s" "set t \<subseteq> set s" "c \<notin> set h" "sep \<Longrightarrow> s = h @ c # t" "\<not> sep \<Longrightarrow> h = s \<and> t = []"
proof -
  have "c \<notin> set h \<and> (if sep then s = h @ c # t else h = s \<and> t = [])"
  proof (cases "c \<in> set s")
    case True
    then obtain a b where "s = a @ c # b" "c \<notin> set a" by (meson split_list_first)
    with assms show ?thesis by (simp add: partition_at_append)
  next
    case False
    with assms show ?thesis by (simp add: partition_at_none)
  qed
  then show "set h \<subseteq> set s" "set t \<subseteq> set s" "c \<notin> set h" "sep \<Longrightarrow> s = h @ c # t" "\<not> sep \<Longrightarrow> h = s \<and> t = []"
    by (auto split: if_splits)
qed

section \<open>Lower case of a scheme\<close>

lemma lower_char_scheme:
  assumes "is_scheme_char c"
  shows "is_scheme_char (lower_char c)" "lower_char (lower_char c) = lower_char c"
    "is_ascii_alpha c \<Longrightarrow> is_ascii_alpha (lower_char c)"
proof -
  have b: "ord c \<le> 122"
    using assms by (auto simp: is_scheme_char_def is_ascii_alpha_def is_digit_def ord_def)
  have l: "lower_char c = (if 65 \<le> ord c \<and> ord c \<le> 90 then char_of (ord c + 32) else c)"
    using b by (auto simp: lower_char_def Let_def)
  show "is_scheme_char (lower_char c)" "lower_char (lower_char c) = lower_char c"
    "is_ascii_alpha c \<Longrightarrow> is_ascii_alpha (lower_char c)"
    using assms b unfolding l
    by (auto simp: is_scheme_char_def is_ascii_alpha_def lower_char_def Let_def ord_char_of)
qed

lemma clean_scheme_lower:
  assumes "pre \<noteq> []" "is_ascii_alpha (hd pre)" "list_all is_scheme_char pre"
  shows "clean_scheme (lower pre)"
proof -
  obtain c cs where "pre = c # cs" using assms(1) by (cases pre) auto
  with assms show ?thesis
    by (auto simp: clean_scheme_def lower_def list_all_iff lower_char_scheme)
qed

section \<open>Splitting\<close>

lemma split_netloc_parts:
  assumes "split_netloc url = (n, r)"
  shows "set n \<subseteq> set url" "set r \<subseteq> set url" "no_chars ''/?#'' n" "r = [] \<or> hd r \<in> set ''/?#''"
proof -
  let ?p = "\<lambda>c. c \<notin> {CHR ''/'', CHR ''?'', CHR ''#''}"
  have n: "n = takeWhile ?p (drop 2 url)" and r: "r = dropWhile ?p (drop 2 url)"
    using assms by (auto simp: split_netloc_def Let_def)
  show "set n \<subseteq> set url" unfolding n by (auto dest!: set_takeWhileD in_set_dropD)
  show "set r \<subseteq> set url" unfolding r by (auto dest!: set_dropWhileD in_set_dropD)
  show "no_chars ''/?#'' n" unfolding n no_chars_def list_all_iff by (auto dest: set_takeWhileD)
  show "r = [] \<or> hd r \<in> set ''/?#''"
    using hd_dropWhile [of ?p "drop 2 url"] unfolding r by auto
qed

lemma urlsplit_cases:
  assumes "urlsplit url = Inr p"
  obtains u1 scheme u2 u3 u4 s1 s2 where
    "no_chars control_chars u1" "set u2 \<subseteq> set u1"
    "u_scheme p = [] \<or> clean_scheme (u_scheme p)"
    "(if take 2 u2 = ''//'' then split_netloc u2 else ([], u2)) = (u_netloc p, u3)" "netloc_ok (u_netloc p)"
    "partition_at CHR ''#'' u3 = (u4, s1, u_fragment p)" "partition_at CHR ''?'' u4 = (u_path p, s2, u_query p)"
proof -
  define u1 where "u1 = filter (\<lambda>c. c \<notin> {CHR 0x09, CHR 0x0D, CHR 0x0A}) (lstrip_by (\<lambda>c. ord c \<le> 32) url)"
  have c1: "no_chars control_chars u1" by (simp add: u1_def no_chars_def list_all_iff control_chars_def)
  obtain pre col post where pp: "partition_at CHR '':'' u1 = (pre, col, post)" by (metis prod_cases3)
  define ok where "ok = (col \<and> pre \<noteq> [] \<and> is_ascii_alpha (hd pre) \<and> list_all is_scheme_char pre)"
  define scheme u2 where "scheme = (if ok then lower pre else [])" and "u2 = (if ok then post else u1)"
  have s: "scheme = [] \<or> clean_scheme scheme" unfolding scheme_def ok_def using clean_scheme_lower by auto
  have u2: "set u2 \<subseteq> set u1" unfolding u2_def using partition_at_parts(2) [OF pp] by auto
  obtain netloc u3 where n: "(if take 2 u2 = ''//'' then split_netloc u2 else ([], u2)) = (netloc, u3)"
    by (metis surj_pair)
  obtain u4 s1 frag where f: "partition_at CHR ''#'' u3 = (u4, s1, frag)" by (metis prod_cases3)
  obtain path s2 query where q: "partition_at CHR ''?'' u4 = (path, s2, query)" by (metis prod_cases3)
  have split: "(if ok then (lower pre, post) else ([], u1)) = (scheme, u2)" by (simp add: scheme_def u2_def)
  have e: "urlsplit url = (if \<not> netloc_ok netloc then Inl (raise_exn ValueError)
      else Inr \<lparr>u_scheme = scheme, u_netloc = netloc, u_path = path, u_query = query, u_fragment = frag\<rparr>)"
    unfolding urlsplit_def Let_def u1_def [symmetric] pp prod.case ok_def [symmetric] split n f q by (rule refl)
  with assms have "netloc_ok netloc" and p: "p = \<lparr>u_scheme = scheme, u_netloc = netloc, u_path = path,
      u_query = query, u_fragment = frag\<rparr>" by (auto split: if_splits)
  then show thesis using that [OF c1 u2, of u3 u4 s1 s2] s n f q by simp
qed

lemma urlsplit_clean:
  assumes "urlsplit url = Inr p"
  shows "clean_parts p"
proof (rule urlsplit_cases [OF assms])
  fix u1 u2 u3 u4 s1 s2
  assume c1: "no_chars control_chars u1" and u2: "set u2 \<subseteq> set u1"
    and s: "u_scheme p = [] \<or> clean_scheme (u_scheme p)"
    and n: "(if take 2 u2 = ''//'' then split_netloc u2 else ([], u2)) = (u_netloc p, u3)"
    and ok: "netloc_ok (u_netloc p)"
    and f: "partition_at CHR ''#'' u3 = (u4, s1, u_fragment p)"
    and q: "partition_at CHR ''?'' u4 = (u_path p, s2, u_query p)"
  note pf = partition_at_parts [OF f] and pq = partition_at_parts [OF q]
  have nl: "no_chars ''/?#'' (u_netloc p)" "set (u_netloc p) \<subseteq> set u2" "set u3 \<subseteq> set u2"
    "u_netloc p = [] \<or> u3 = [] \<or> hd u3 \<in> set ''/?#''"
    using n split_netloc_parts [of u2 "u_netloc p" u3] by (auto split: if_splits)
  have c2: "no_chars control_chars u2" by (rule no_chars_subset [OF c1 u2])
  then have c3: "no_chars control_chars (u_netloc p)" "no_chars control_chars u3"
    using nl by (blast intro: no_chars_subset)+
  then have c4: "no_chars control_chars u4" using pf(1) by (blast intro: no_chars_subset)
  then have c5: "no_chars control_chars (u_path p)" "no_chars control_chars (u_query p)"
    using pq(1,2) by (blast intro: no_chars_subset)+
  have h: "CHR ''#'' \<notin> set (u_path p)" "CHR ''#'' \<notin> set (u_query p)" "CHR ''?'' \<notin> set (u_path p)"
    using pf(3) pq(1,2,3) by auto
  have "u_path p = [] \<or> hd (u_path p) = CHR ''/''" if "u_netloc p \<noteq> []"
  proof (cases "u_path p")
    case (Cons c cs)
    then obtain r4 where "u4 = c # r4" using pq(4,5) by (cases s2) auto
    then obtain r3 where "u3 = c # r3" using pf(4,5) by (cases s1) auto
    with that nl(4) have "c \<in> set ''/?#''" by auto
    with Cons h show ?thesis by auto
  qed simp
  then show ?thesis
    using s nl(1) ok c3(1) c5 h
    by (auto simp: clean_parts_def no_chars_union) (auto simp: no_chars_def list_all_iff)
qed

section \<open>Splitting what was put together\<close>

lemma scheme_char_not_special:
  "is_scheme_char c \<Longrightarrow> c \<noteq> CHR '':'' \<and> c \<notin> set control_chars"
  by (auto simp: is_scheme_char_def is_ascii_alpha_def is_digit_def control_chars_def ord_def)

lemma urlunsplit_parts:
  assumes "clean_parts p" "u_scheme p \<noteq> []" "u_netloc p \<noteq> []" "u_fragment p = []"
  shows "urlunsplit p = u_scheme p @ CHR '':'' # ''//'' @ u_netloc p @ u_path p @
    (if u_query p \<noteq> [] then CHR ''?'' # u_query p else [])"
proof -
  have "\<not> (u_path p \<noteq> [] \<and> take 1 (u_path p) \<noteq> ''/'')"
    using assms(1,3) by (cases "u_path p") (auto simp: clean_parts_def)
  then show ?thesis using assms by (simp add: urlunsplit_def Let_def)
qed

lemma split_netloc_append:
  assumes "no_chars ''/?#'' n" "r = [] \<or> hd r \<in> set ''/?#''"
  shows "split_netloc (''//'' @ n @ r) = (n, r)"
proof -
  let ?p = "\<lambda>c. c \<notin> {CHR ''/'', CHR ''?'', CHR ''#''}"
  have "\<forall>x \<in> set n. ?p x" using assms(1) by (auto simp: no_chars_def list_all_iff)
  then have "takeWhile ?p (n @ r) = n @ takeWhile ?p r" "dropWhile ?p (n @ r) = dropWhile ?p r"
    by (simp_all add: takeWhile_append2 dropWhile_append2)
  moreover have "takeWhile ?p r = [] \<and> dropWhile ?p r = r" using assms(2) by (cases r) auto
  ultimately show ?thesis by (simp add: split_netloc_def Let_def)
qed

lemma urlsplit_urlunsplit:
  assumes p: "clean_parts p" "u_scheme p \<noteq> []" "u_netloc p \<noteq> []" "u_fragment p = []"
  shows "urlsplit (urlunsplit p) = Inr p"
proof -
  let ?q = "if u_query p \<noteq> [] then CHR ''?'' # u_query p else []"
  let ?r = "u_path p @ ?q"
  let ?u = "u_scheme p @ CHR '':'' # ''//'' @ u_netloc p @ ?r"
  from p have cs: "clean_scheme (u_scheme p)" by (auto simp: clean_parts_def)
  have sc: "\<forall>c \<in> set (u_scheme p). c \<noteq> CHR '':'' \<and> c \<notin> set control_chars"
    using cs scheme_char_not_special by (auto simp: clean_scheme_def list_all_iff)
  have "\<not> ord (hd (u_scheme p)) \<le> 32" using cs by (auto simp: clean_scheme_def is_ascii_alpha_def)
  then have l: "lstrip_by (\<lambda>c. ord c \<le> 32) ?u = ?u" using p(2) by (cases "u_scheme p") (auto simp: lstrip_by_def)
  have cl: "no_chars control_chars (u_netloc p)" "no_chars ''/?#'' (u_netloc p)" "no_chars control_chars (u_path p)"
    "no_chars ''?#'' (u_path p)" "no_chars control_chars (u_query p)" "no_chars ''#'' (u_query p)"
    and ok: "netloc_ok (u_netloc p)" and hd: "u_path p = [] \<or> hd (u_path p) = CHR ''/''"
    using p(1,3) unfolding clean_parts_def no_chars_union by blast+
  have "no_chars control_chars (u_scheme p)" using sc by (simp add: no_chars_def list_all_iff)
  moreover have "CHR '':'' \<notin> set control_chars" "CHR ''/'' \<notin> set control_chars" "CHR ''?'' \<notin> set control_chars"
    by (simp_all add: control_chars_def)
  ultimately have "no_chars control_chars ?u" using cl by simp
  then have f: "filter (\<lambda>c. c \<notin> {CHR 0x09, CHR 0x0D, CHR 0x0A}) ?u = ?u"
    by (simp add: no_chars_def list_all_iff control_chars_def filter_id_conv)
  have pc: "partition_at CHR '':'' ?u = (u_scheme p, True, ''//'' @ u_netloc p @ ?r)"
    by (rule partition_at_append) (use sc in auto)
  have lo: "lower (u_scheme p) = u_scheme p" using cs by (simp add: clean_scheme_def)
  have r: "?r = [] \<or> hd ?r \<in> set ''/?#''"
    using hd by (cases "u_path p") auto
  have n: "split_netloc (''//'' @ u_netloc p @ ?r) = (u_netloc p, ?r)"
    by (rule split_netloc_append [OF cl(2) r])
  have qp: "CHR ''?'' \<notin> set (u_path p)" "CHR ''#'' \<notin> set (u_path p)" "CHR ''#'' \<notin> set (u_query p)"
    using cl(4,6) unfolding no_chars_def list_all_iff by auto
  then have h: "CHR ''#'' \<notin> set ?r" by simp
  have "\<exists>s. partition_at CHR ''?'' ?r = (u_path p, s, u_query p)"
    using partition_at_none [OF qp(1)] partition_at_append [OF qp(1)] by (cases "u_query p = []") auto
  then obtain s where q: "partition_at CHR ''?'' ?r = (u_path p, s, u_query p)" by blast
  have t2: "take 2 (''//'' @ u_netloc p @ ?r) = ''//''" by simp
  have sch: "(if True \<and> u_scheme p \<noteq> [] \<and> is_ascii_alpha (hd (u_scheme p)) \<and> list_all is_scheme_char (u_scheme p)
      then (lower (u_scheme p), ''//'' @ u_netloc p @ ?r) else ([], ?u)) = (u_scheme p, ''//'' @ u_netloc p @ ?r)"
    using cs lo by (simp add: clean_scheme_def)
  have "urlsplit ?u = Inr \<lparr>u_scheme = u_scheme p, u_netloc = u_netloc p, u_path = u_path p,
      u_query = u_query p, u_fragment = []\<rparr>"
    unfolding urlsplit_def Let_def l f pc prod.case sch
    by (simp only: t2 simp_thms if_True n prod.case partition_at_none [OF h] q ok not_True_eq_False if_False)
  then show ?thesis using p(4) by (simp add: urlunsplit_parts [OF p])
qed

end
