(* ===== verification/Api_Feeds.thy ===== *)
theory Api_Feeds
  imports Schemas Api_Cursor Keyset Feed_State Ssrf PyUrl
begin

text \<open>
  \<open>api/feeds.py\<close>: URL normalisation, registration, listing with a cursor, reading, deletion and
  manual reactivation of feeds. A handler works on the \<open>world\<close> (database and trace) of its session
  and returns a value or an error; committing or rolling back is the session's part. Arguments:
  the wall clock and the database clock, and the interpreter's environment for cursors.
\<close>

section \<open>Normalisation\<close>

definition normalize_url :: "string \<Rightarrow> exn + string" where
  "normalize_url raw =
     try_bind (urlsplit raw) (\<lambda>parts.
       let path0 = u_path parts;
           path1 = (if path0 \<noteq> ''/'' \<and> endswith path0 ''/'' then rstrip_by (\<lambda>c. c = CHR ''/'') path0 else path0);
           path2 = (if path1 = ''/'' then [] else path1)
       in Inr (urlunsplit (parts\<lparr>u_path := path2, u_fragment := []\<rparr>)))"

section \<open>Cursors\<close>

definition encode_feed_cursor :: "int \<Rightarrow> string" where
  "encode_feed_cursor feed_id = unpadded (json_dumps [(''i'', PInt feed_id)])"

definition decode_feed_cursor :: "py_env \<Rightarrow> string \<Rightarrow> api_error + int" where
  "decode_feed_cursor env cursor =
     invalid_cursor (try_bind (decode_payload env cursor) (\<lambda>payload.
       try_bind (json_subscript payload ''i'') (json_int env)))"

section \<open>Registration\<close>

text \<open>\<open>str(exc)\<close> of the \<open>BlockedURLError\<close> that \<open>validate_public_url(url, resolve=False)\<close> raises.\<close>

definition blocked_message :: "string \<Rightarrow> string" where
  "blocked_message url = (case urlsplit url of
     Inl _ \<Rightarrow> []
   | Inr parts \<Rightarrow>
       if lower (u_scheme parts) \<notin> set ALLOWED_SCHEMES
       then ''unsupported scheme: '' @ [CHR 0x27] @ lower (u_scheme parts) @ [CHR 0x27]
       else (case hostname parts of
         None \<Rightarrow> ''missing host''
       | Some host \<Rightarrow> ''blocked address: '' @ host))"

definition new_feed :: "int \<Rightarrow> string \<Rightarrow> instant \<Rightarrow> instant \<Rightarrow> feed" where
  "new_feed i url next_fetch_at created_at =
     \<lparr>f_id = i, f_url = url, f_effective_url = url, f_title = None, f_status = ACTIVE,
      f_last_successful_fetch_at = None, f_last_attempt_at = None, f_last_error_code = None,
      f_created_at = created_at, f_next_fetch_at = next_fetch_at, f_consecutive_failures = 0,
      f_etag = None, f_last_modified = None\<rparr>"

definition feed_by_url :: "db \<Rightarrow> string \<Rightarrow> feed option" where
  "feed_by_url d url = find (\<lambda>f. f_url f = url) (feeds_tbl d)"

text \<open>
  \<open>INSERT ... ON CONFLICT (url) DO NOTHING RETURNING id\<close>. The key's default is drawn from the
  sequence before the conflict is seen; the sequence of a 32-bit key ends.
\<close>

definition insert_feed :: "db \<Rightarrow> string \<Rightarrow> instant \<Rightarrow> instant \<Rightarrow> db \<times> (api_error + int option)" where
  "insert_feed d url next_fetch_at created_at =
     (let i = feeds_seq d in
      if \<not> int4 i then (d, Inl (Unhandled (raise_exn DBAPIError)))
      else let d1 = d\<lparr>feeds_seq := i + 1\<rparr> in
        case feed_by_url d url of
          Some _ \<Rightarrow> (d1, Inr None)
        | None \<Rightarrow> (d1\<lparr>feeds_tbl := feeds_tbl d @ [new_feed i url next_fetch_at created_at]\<rparr>, Inr (Some i)))"

definition create_feed ::
  "resolver \<Rightarrow> instant \<Rightarrow> instant \<Rightarrow> string \<Rightarrow> world \<Rightarrow> (world, api_error, int \<times> feed_response) outcome" where
  "create_feed dns now db_now payload_url w =
     (case normalize_url payload_url of
        Inl e \<Rightarrow> (w, Inl (Unhandled e))
      | Inr url \<Rightarrow>
          (case validate_public_url dns url False of
             Inl e \<Rightarrow> (w, Inl (if exn_cls e = BlockedURLError
                              then HTTPException 400 (Some (''blocked_url: '' @ blocked_message url)) else Unhandled e))
           | Inr _ \<Rightarrow>
               (let (d, r) = insert_feed (w_db w) url now db_now in
                and_then (w\<lparr>w_db := d\<rparr>, r) (\<lambda>w1 new_id.
                  case feed_by_url (w_db w1) url of
                    None \<Rightarrow> (w1, Inl (Unhandled (raise_exn OtherException)))
                  | Some feed \<Rightarrow> (w1, Inr (if new_id = None then 200 else 201, feed_response_of feed))))))"

section \<open>Listing\<close>

definition list_feeds ::
  "py_env \<Rightarrow> int \<Rightarrow> string option \<Rightarrow> int \<Rightarrow> feed_status option \<Rightarrow> db \<Rightarrow> api_error + paginated_feeds" where
  "list_feeds env max_limit cursor limit0 status_filter d =
     (let limit = max 1 (min limit0 max_limit) in
      try_bind (case cursor of
          None \<Rightarrow> Inr (\<lambda>f. True)
        | Some c \<Rightarrow> try_bind (decode_feed_cursor env c) (\<lambda>cur_id.
            try_bind (bind_int4 cur_id) (\<lambda>_. Inr (\<lambda>f. f_id f > cur_id))))
        (\<lambda>after.
          let matches = (\<lambda>f. after f \<and> (case status_filter of None \<Rightarrow> True | Some s \<Rightarrow> f_status f = s));
              rows = take (nat (limit + 1)) (sort_key f_id (filter matches (feeds_tbl d)));
              has_more = int (length rows) > limit;
              feeds = slice_to limit rows;
              next_cursor = (if has_more \<and> feeds \<noteq> [] then Some (encode_feed_cursor (f_id (last feeds))) else None)
          in Inr \<lparr>pf_items = map feed_response_of feeds, pf_next_cursor = next_cursor\<rparr>))"

section \<open>One feed\<close>

definition select_feed :: "db \<Rightarrow> int \<Rightarrow> api_error + feed option" where
  "select_feed d feed_id = try_bind (bind_int4 feed_id) (\<lambda>_. Inr (feed_by_id d feed_id))"

definition feed_not_found :: api_error where
  "feed_not_found = HTTPException 404 (Some ''feed not found'')"

definition get_feed :: "int \<Rightarrow> db \<Rightarrow> api_error + feed_response" where
  "get_feed feed_id d =
     try_bind (select_feed d feed_id) (\<lambda>feed.
       case feed of None \<Rightarrow> Inl feed_not_found | Some f \<Rightarrow> Inr (feed_response_of f))"

definition delete_feed :: "int \<Rightarrow> world \<Rightarrow> (world, api_error, unit) outcome" where
  "delete_feed feed_id w =
     (case select_feed (w_db w) feed_id of
        Inl e \<Rightarrow> (w, Inl e)
      | Inr None \<Rightarrow> (w, Inr ())
      | Inr (Some f) \<Rightarrow> (w\<lparr>w_db := cascade_delete (w_db w) (f_id f)\<rparr>, Inr ()))"

definition reactivate :: "instant \<Rightarrow> feed \<Rightarrow> event list \<Rightarrow> feed \<times> event list" where
  "reactivate now feed ev =
     (feed\<lparr>f_status := ACTIVE, f_consecutive_failures := 0, f_last_error_code := None, f_next_fetch_at := now\<rparr>,
      if f_status feed \<noteq> ACTIVE then transition_feed feed ACTIVE ''manual_reactivate'' ev else ev)"

definition reactivate_feed :: "instant \<Rightarrow> int \<Rightarrow> world \<Rightarrow> (world, api_error, feed_response) outcome" where
  "reactivate_feed now feed_id w =
     (case select_feed (w_db w) feed_id of
        Inl e \<Rightarrow> (w, Inl e)
      | Inr None \<Rightarrow> (w, Inl feed_not_found)
      | Inr (Some feed) \<Rightarrow>
          (let (feed', ev) = reactivate now feed (w_events w);
               d = flush_feed (w_db w) feed'
           in case feed_by_id d feed_id of
                None \<Rightarrow> (w\<lparr>w_db := d, w_events := ev\<rparr>, Inl (Unhandled (raise_exn OtherException)))
              | Some f \<Rightarrow> (w\<lparr>w_db := d, w_events := ev\<rparr>, Inr (feed_response_of f))))"

section \<open>Facts: cursors\<close>

lemma feed_cursor_tokens:
  assumes "int4 i"
  shows "tokens (pts (json_dumps [(''i'', PInt i)])) = [TLBrace, TStr (pts ''i''), TColon, TInt i, TRBrace]"
proof -
  have p: "list_all plain_char ''i''" by (simp add: plain_char_def cp_def ord_def)
  have t: "tokens (pts (str_of_int i) @ [125]) = TInt i # tokens [125]"
    by (rule tokens_decimal [OF int4_printable [OF assms] stops_number_punctuation(1)])
  have "tokens (pts (json_dumps [(''i'', PInt i)])) =
      TLBrace # tokens (pts (dumps_str ''i'') @ 58 # pts (str_of_int i) @ [125])"
    by (simp add: json_dumps_def cp_literals tokens_punctuation)
  then show ?thesis by (simp only: tokens_plain [OF p] tokens_punctuation t tokens_Nil)
qed

lemma feed_cursor_ascii: "is_ascii (json_dumps [(''i'', PInt i)])"
proof -
  have "is_ascii (dumps_str ''i'')" by (rule is_ascii_plain) (simp add: plain_char_def cp_def ord_def)
  then show ?thesis by (simp add: json_dumps_def is_ascii_str_of_int ord_def)
qed

lemma decode_encode_feed_cursor:
  assumes "int4 i" "1 \<le> py_depth env"
  shows "decode_feed_cursor env (encode_feed_cursor i) = Inr i"
proof -
  have "decode_payload env (encode_feed_cursor i) = Inr (JObj [(pts ''i'', JInt i)])"
    using assms by (simp add: encode_feed_cursor_def decode_payload_unpadded [OF feed_cursor_ascii]
        json_loads_def feed_cursor_tokens step_value_def token_scalar_def)
  then show ?thesis
    using member_simps(2) [of "[]" "''i''" "JInt i" "''i''"]
    by (simp add: decode_feed_cursor_def json_subscript_def json_int_def)
qed

section \<open>Facts: pages\<close>

definition visible_feeds :: "feed_status option \<Rightarrow> db \<Rightarrow> feed_response list" where
  "visible_feeds status_filter d = map feed_response_of
     (filter (\<lambda>f. case status_filter of None \<Rightarrow> True | Some s \<Rightarrow> f_status f = s) (feeds_tbl d))"

text \<open>A request as a client makes it: what it reads of the answer is the items and the cursor.\<close>

definition feeds_request ::
  "py_env \<Rightarrow> int \<Rightarrow> int \<Rightarrow> feed_status option \<Rightarrow> db \<Rightarrow> string option \<Rightarrow> api_error + feed_response list \<times> string option" where
  "feeds_request env max_limit limit status_filter d cursor =
     map_sum id (\<lambda>p. (pf_items p, pf_next_cursor p)) (list_feeds env max_limit cursor limit status_filter d)"

definition feed_ids_int4 :: "db \<Rightarrow> bool" where
  "feed_ids_int4 d = list_all (\<lambda>f. int4 (f_id f)) (feeds_tbl d)"

lemma fr_id_of [simp]: "fr_id (feed_response_of f) = f_id f"
  by (simp add: feed_response_of_def)

lemma fr_id_comp: "fr_id \<circ> feed_response_of = f_id"
  by (simp add: fun_eq_iff)

lemma feeds_page:
  fixes limit0 max_limit :: int
  defines "n \<equiv> nat (max 1 (min limit0 max_limit))"
  assumes "cursor = None \<and> q = (\<lambda>f. True) \<or>
    (\<exists>c cur. cursor = Some c \<and> decode_feed_cursor env c = Inr cur \<and> int4 cur \<and> q = (\<lambda>f. cur < f_id f))"
  shows "feeds_request env max_limit limit0 status_filter d cursor =
    Inr (page fr_id (encode_feed_cursor \<circ> fr_id) n
      (map feed_response_of (filter (\<lambda>f. q f \<and> (case status_filter of None \<Rightarrow> True | Some s \<Rightarrow> f_status f = s))
        (feeds_tbl d))))"
proof -
  let ?m = "\<lambda>f. q f \<and> (case status_filter of None \<Rightarrow> True | Some s \<Rightarrow> f_status f = s)"
  let ?rows = "take (n + 1) (sort_key f_id (filter ?m (feeds_tbl d)))"
  have n: "1 \<le> n" "nat (max 1 (min limit0 max_limit) + 1) = n + 1" "max 1 (min limit0 max_limit) = int n"
    by (auto simp: n_def)
  have c: "(case cursor of None \<Rightarrow> Inr (\<lambda>f. True)
      | Some c \<Rightarrow> try_bind (decode_feed_cursor env c) (\<lambda>cur_id.
          try_bind (bind_int4 cur_id) (\<lambda>_. Inr (\<lambda>f. f_id f > cur_id)))) = Inr q"
    using assms(2) by (auto simp: bind_int4_def)
  have "list_feeds env max_limit cursor limit0 status_filter d =
      Inr \<lparr>pf_items = map feed_response_of (take n ?rows),
           pf_next_cursor = if int (length ?rows) > int n \<and> take n ?rows \<noteq> []
             then Some (encode_feed_cursor (f_id (last (take n ?rows)))) else None\<rparr>"
    unfolding list_feeds_def Let_def c try_bind_simps n(2) unfolding n(3) slice_to_nat by (rule refl)
  moreover have "length ?rows = length (take (n + 1) (sort_key fr_id (map feed_response_of (filter ?m (feeds_tbl d)))))"
    by simp
  moreover have "take n ?rows \<noteq> [] \<Longrightarrow> fr_id (last (map feed_response_of (take n ?rows))) = f_id (last (take n ?rows))"
    by (subst last_map) simp_all
  ultimately show ?thesis
    by (auto simp: feeds_request_def page_def Let_def sort_key_map fr_id_comp take_map)
qed

text \<open>The endpoint meets the contract of keyset pagination.\<close>

interpretation feed_pages: keyset_pagination fr_id "visible_feeds status_filter" "encode_feed_cursor \<circ> fr_id"
  "nat (max 1 (min limit max_limit))" "\<lambda>d. feeds_ok d \<and> feed_ids_int4 d \<and> 1 \<le> py_depth env"
  "feeds_request env max_limit limit status_filter"
  for status_filter limit max_limit env
proof
  fix d d' :: db and r
  assume d: "feeds_ok d \<and> feed_ids_int4 d \<and> 1 \<le> py_depth env"
  show "distinct (map fr_id (visible_feeds status_filter d))"
    using d by (simp add: visible_feeds_def fr_id_comp feeds_ok_def distinct_map_filter)
  show "feeds_request env max_limit limit status_filter d None =
      Inr (page fr_id (encode_feed_cursor \<circ> fr_id) (nat (max 1 (min limit max_limit))) (visible_feeds status_filter d))"
    by (subst feeds_page [where q = "\<lambda>f. True"]) (simp_all add: visible_feeds_def)
  assume d': "feeds_ok d' \<and> feed_ids_int4 d' \<and> 1 \<le> py_depth env" and r: "r \<in> set (visible_feeds status_filter d')"
  then have i: "int4 (fr_id r)" by (auto simp: visible_feeds_def feed_ids_int4_def list_all_iff)
  have f: "filter (\<lambda>x. fr_id r < fr_id x) (visible_feeds status_filter d) =
      map feed_response_of (filter (\<lambda>f. fr_id r < f_id f \<and>
        (case status_filter of None \<Rightarrow> True | Some s \<Rightarrow> f_status f = s)) (feeds_tbl d))"
    by (simp add: visible_feeds_def filter_map o_def conj_commute)
  show "feeds_request env max_limit limit status_filter d (Some ((encode_feed_cursor \<circ> fr_id) r)) =
      Inr (page fr_id (encode_feed_cursor \<circ> fr_id) (nat (max 1 (min limit max_limit)))
        (filter (\<lambda>x. fr_id r < fr_id x) (visible_feeds status_filter d)))"
    unfolding f by (rule feeds_page) (use decode_encode_feed_cursor [OF i] i d in simp)
qed simp

section \<open>Facts: normalisation\<close>

definition normal_path :: "string \<Rightarrow> string" where
  "normal_path path0 =
     (let path1 = (if path0 \<noteq> ''/'' \<and> endswith path0 ''/'' then rstrip_by (\<lambda>c. c = CHR ''/'') path0 else path0)
      in if path1 = ''/'' then [] else path1)"

lemma normalize_url_eq:
  "normalize_url raw = try_bind (urlsplit raw) (\<lambda>p. Inr (urlunsplit (p\<lparr>u_path := normal_path (u_path p), u_fragment := []\<rparr>)))"
  by (simp add: normalize_url_def normal_path_def Let_def)

lemma rstrip_by_prefix: "\<exists>t. s = rstrip_by (\<lambda>c. c = x) s @ t \<and> set t \<subseteq> {x}"
proof -
  let ?p = "\<lambda>c. c = x"
  have "rev s = takeWhile ?p (rev s) @ dropWhile ?p (rev s)" by simp
  then have "s = rstrip_by ?p s @ rev (takeWhile ?p (rev s))"
    unfolding rstrip_by_def by (metis rev_append rev_rev_ident)
  moreover have "set (rev (takeWhile ?p (rev s))) \<subseteq> {x}" by (auto dest: set_takeWhileD)
  ultimately show ?thesis by blast
qed

lemma endswith_slash: "endswith s ''/'' \<longleftrightarrow> s \<noteq> [] \<and> last s = CHR ''/''"
  by (cases "rev s") (auto simp: endswith_def startswith_def last_rev hd_rev [symmetric])

lemma rstrip_by_last: "rstrip_by p s \<noteq> [] \<Longrightarrow> \<not> p (last (rstrip_by p s))"
  unfolding rstrip_by_def last_rev rev_is_Nil_conv by (rule hd_dropWhile)

lemma normal_path_eq:
  "normal_path path = (if path = ''/'' then []
     else if endswith path ''/'' then rstrip_by (\<lambda>c. c = CHR ''/'') path else path)"
  using rstrip_by_last [of "\<lambda>c. c = CHR ''/''" path] by (auto simp: normal_path_def Let_def)

lemma normal_path_facts:
  "\<exists>t. path = normal_path path @ t \<and> set t \<subseteq> {CHR ''/''}" "\<not> endswith (normal_path path) ''/''"
  "normal_path (normal_path path) = normal_path path"
proof -
  show "\<exists>t. path = normal_path path @ t \<and> set t \<subseteq> {CHR ''/''}"
    using rstrip_by_prefix [of path "CHR ''/''"] by (auto simp: normal_path_eq)
  show e: "\<not> endswith (normal_path path) ''/''"
    using rstrip_by_last [of "\<lambda>c. c = CHR ''/''" path] by (auto simp: normal_path_eq endswith_slash)
  have "normal_path path \<noteq> ''/''" using e by (auto simp: endswith_slash)
  with e show "normal_path (normal_path path) = normal_path path"
    unfolding normal_path_eq [of "normal_path path"] by simp
qed

lemma clean_normal:
  assumes "clean_parts p"
  shows "clean_parts (p\<lparr>u_path := normal_path (u_path p), u_fragment := []\<rparr>)"
proof -
  obtain t where t: "u_path p = normal_path (u_path p) @ t" using normal_path_facts(1) by blast
  then have sub: "set (normal_path (u_path p)) \<subseteq> set (u_path p)" by (metis Un_upper1 set_append)
  have "normal_path (u_path p) = [] \<or> hd (normal_path (u_path p)) = CHR ''/''"
    if "u_path p = [] \<or> hd (u_path p) = CHR ''/''"
    using that t by (metis append_is_Nil_conv hd_append2)
  with assms sub show ?thesis unfolding clean_parts_def by (auto intro: no_chars_subset)
qed

lemma normalize_url_split:
  assumes "normalize_url u = Inr v" "urlsplit u = Inr p" "u_scheme p \<noteq> []" "u_netloc p \<noteq> []"
  shows "urlsplit v = Inr (p\<lparr>u_path := normal_path (u_path p), u_fragment := []\<rparr>)"
proof -
  have "v = urlunsplit (p\<lparr>u_path := normal_path (u_path p), u_fragment := []\<rparr>)"
    using assms(1,2) by (simp add: normalize_url_eq)
  moreover have "clean_parts p" by (rule urlsplit_clean [OF assms(2)])
  ultimately show ?thesis using urlsplit_urlunsplit clean_normal assms(3,4) by simp
qed

section \<open>Facts: registration\<close>

lemma validate_static_dns: "validate_public_url dns url False = validate_public_url dns' url False"
  unfolding validate_public_url_def by (simp only: not_False_eq_True if_True)

lemma feed_by_url_Some: "feed_by_url d url = Some f \<Longrightarrow> f_url f = url \<and> f \<in> set (feeds_tbl d)"
  by (auto simp: feed_by_url_def dest: find_SomeD)

lemma new_feed_keys [simp]: "f_url (new_feed i u n c) = u" "f_id (new_feed i u n c) = i"
  by (simp_all add: new_feed_def)

lemma feed_by_url_append:
  "feed_by_url (d\<lparr>feeds_seq := n, feeds_tbl := feeds_tbl d @ [f]\<rparr>) url =
     (case feed_by_url d url of Some g \<Rightarrow> Some g | None \<Rightarrow> if f_url f = url then Some f else None)"
proof -
  have "find P (xs @ [f]) = (case find P xs of Some g \<Rightarrow> Some g | None \<Rightarrow> if P f then Some f else None)" for P xs
    by (induction xs) auto
  then show ?thesis by (simp add: feed_by_url_def)
qed

text \<open>A registration that returns, taken apart.\<close>

lemma create_feed_returns:
  assumes "create_feed dns now db_now u w = (w1, Inr (st, r))"
  obtains v where "normalize_url u = Inr v" "validate_public_url dns v False = Inr ()" "int4 (feeds_seq (w_db w))"
    and "w1 = w\<lparr>w_db := w_db w1\<rparr>"
    and "case feed_by_url (w_db w) v of
        Some f \<Rightarrow> st = 200 \<and> r = feed_response_of f \<and> w_db w1 = (w_db w)\<lparr>feeds_seq := feeds_seq (w_db w) + 1\<rparr>
      | None \<Rightarrow> (let f = new_feed (feeds_seq (w_db w)) v now db_now in
          st = 201 \<and> r = feed_response_of f \<and>
          w_db w1 = (w_db w)\<lparr>feeds_seq := feeds_seq (w_db w) + 1, feeds_tbl := feeds_tbl (w_db w) @ [f]\<rparr>)"
proof -
  let ?d = "w_db w" and ?i = "feeds_seq (w_db w)"
  from assms obtain v where v: "normalize_url u = Inr v"
    by (cases "normalize_url u") (auto simp: create_feed_def)
  from assms v have ok: "validate_public_url dns v False = Inr ()"
    by (cases "validate_public_url dns v False") (auto simp: create_feed_def)
  have i: "int4 ?i"
  proof (rule ccontr)
    assume "\<not> int4 ?i"
    with assms v ok show False by (simp add: create_feed_def insert_feed_def)
  qed
  show thesis
  proof (cases "feed_by_url ?d v")
    case (Some f)
    have "feed_by_url (?d\<lparr>feeds_seq := ?i + 1\<rparr>) v = Some f" using Some by (simp add: feed_by_url_def)
    with assms v ok i Some have "w1 = w\<lparr>w_db := ?d\<lparr>feeds_seq := ?i + 1\<rparr>\<rparr>" "st = 200" "r = feed_response_of f"
      by (simp_all add: create_feed_def insert_feed_def)
    then show thesis using that [OF v ok i] Some by simp
  next
    case None
    let ?f = "new_feed ?i v now db_now"
    have "feed_by_url (?d\<lparr>feeds_seq := ?i + 1, feeds_tbl := feeds_tbl ?d @ [?f]\<rparr>) v = Some ?f"
      using None by (simp only: feed_by_url_append) (simp add: new_feed_def)
    with assms v ok i None have "w1 = w\<lparr>w_db := ?d\<lparr>feeds_seq := ?i + 1, feeds_tbl := feeds_tbl ?d @ [?f]\<rparr>\<rparr>"
      "st = 201" "r = feed_response_of ?f"
      by (simp_all add: create_feed_def insert_feed_def Let_def)
    then show thesis using that [OF v ok i] None by (simp add: Let_def)
  qed
qed

lemma db_ok_bump: "db_ok d \<Longrightarrow> db_ok (d\<lparr>feeds_seq := feeds_seq d + 1\<rparr>)"
  by (fastforce simp: db_ok_def feeds_ok_def entries_ok_def fk_ok_def list_all_iff)

lemma db_ok_insert_feed:
  assumes "db_ok d" "feed_by_url d url = None" "f_url f = url" "f_id f = feeds_seq d"
  shows "db_ok (d\<lparr>feeds_seq := feeds_seq d + 1, feeds_tbl := feeds_tbl d @ [f]\<rparr>)"
proof -
  have "url \<notin> f_url ` set (feeds_tbl d)" using assms(2) by (simp add: feed_by_url_def find_None_iff_map)
  moreover have "feeds_seq d \<notin> f_id ` set (feeds_tbl d)"
    using assms(1) by (fastforce simp: db_ok_def feeds_ok_def list_all_iff)
  ultimately show ?thesis
    using assms by (fastforce simp: db_ok_def feeds_ok_def entries_ok_def fk_ok_def list_all_iff)
qed

section \<open>Facts: reactivation\<close>

text \<open>Manual reactivation is one of the operations on the lifecycle columns.\<close>

interpretation reactivate_op: lifecycle_operation "reactivate now" for now
proof
  show "trail (f, ev) (reactivate now f ev)" for f ev
  proof (cases "f_status f = ACTIVE")
    case True
    then show ?thesis by (simp add: reactivate_def trail_status)
  next
    case False
    then show ?thesis by (simp add: reactivate_def trail_transition)
  qed
  show "same_identity f (fst (reactivate now f ev))" for f ev
    by (simp add: reactivate_def same_identity_def)
qed

lemma select_feed_int4: "int4 i \<Longrightarrow> select_feed d i = Inr (feed_by_id d i)"
  by (simp add: select_feed_def bind_int4_def)

lemma reactivate_feed_found:
  assumes "int4 i" "feed_by_id (w_db w) i = Some f"
  shows "reactivate_feed now i w =
    (w\<lparr>w_db := flush_feed (w_db w) (fst (reactivate now f (w_events w))),
       w_events := snd (reactivate now f (w_events w))\<rparr>,
     Inr (feed_response_of (fst (reactivate now f (w_events w)))))"
proof -
  let ?g = "fst (reactivate now f (w_events w))"
  have i: "f_id f = i" "f_id ?g = i" using assms(2) by (auto simp: reactivate_def dest: feed_by_id_Some)
  then have "feed_by_id (flush_feed (w_db w) ?g) i = Some ?g"
    using feed_by_id_flush [of "w_db w" ?g f i] assms(2) by simp
  then show ?thesis
    using assms by (simp add: reactivate_feed_def select_feed_int4 split_beta Let_def)
qed

section \<open>Properties\<close>

text \<open>
  Normalisation is idempotent on URLs with a scheme and an authority, and its result splits
  into the same scheme, authority and query, no fragment, and a path without trailing slash that
  is a prefix of the original path: only trailing slashes and the fragment are dropped.
\<close>

theorem normalize_url_canonical:
  assumes "normalize_url u = Inr v" "urlsplit u = Inr p" "u_scheme p \<noteq> []" "u_netloc p \<noteq> []"
  shows "normalize_url v = Inr v \<and>
    (\<exists>q slashes. urlsplit v = Inr q \<and> u_scheme q = u_scheme p \<and> u_netloc q = u_netloc p \<and> u_query q = u_query p \<and>
       u_fragment q = [] \<and> \<not> endswith (u_path q) ''/'' \<and> u_path p = u_path q @ slashes \<and> set slashes \<subseteq> {CHR ''/''})"
proof -
  let ?q = "p\<lparr>u_path := normal_path (u_path p), u_fragment := []\<rparr>"
  note sp = normalize_url_split [OF assms]
  have v: "v = urlunsplit ?q" using assms(1,2) by (simp add: normalize_url_eq)
  have "normalize_url v = Inr (urlunsplit (?q\<lparr>u_path := normal_path (u_path ?q), u_fragment := []\<rparr>))"
    by (simp add: normalize_url_eq sp)
  then have idem: "normalize_url v = Inr v" using v normal_path_facts(3) [of "u_path p"] by simp
  obtain t where "u_path p = normal_path (u_path p) @ t" "set t \<subseteq> {CHR ''/''}"
    using normal_path_facts(1) by blast
  then show ?thesis using idem sp normal_path_facts(2) [of "u_path p"] by fastforce
qed

theorem normalize_url_canonical_witness:
  "normalize_url ''https://a.example/rss//#top'' = Inr ''https://a.example/rss'' \<and>
   normalize_url ''https://a.example/rss'' = Inr ''https://a.example/rss''"
proof -
  have n: "normalize_url ''https://a.example/rss//#top'' = Inr ''https://a.example/rss''" by code_simp
  have s: "urlsplit ''https://a.example/rss//#top'' = Inr \<lparr>u_scheme = ''https'', u_netloc = ''a.example'',
      u_path = ''/rss//'', u_query = [], u_fragment = ''top''\<rparr>" by code_simp
  show ?thesis using normalize_url_canonical [OF n s] n by simp
qed

text \<open>
  C11: Registration. A request that returns answers with the feed stored under the normalised
  URL: the existing one with status 200 and no row changed, or a new active feed with a fresh id
  that is due at once, with status 201. The database stays consistent, and registering any URL
  with the same normal form again answers 200 with the same body and changes no row.
\<close>

theorem registration_idempotent:
  assumes "db_ok (w_db w)" "create_feed dns now db_now u w = (w1, Inr (st, r))"
    and "normalize_url u' = normalize_url u" "int4 (feeds_seq (w_db w1))"
  shows "\<exists>v w2. normalize_url u = Inr v \<and> db_ok (w_db w1) \<and> entries_tbl (w_db w1) = entries_tbl (w_db w) \<and>
    (case feed_by_url (w_db w) v of
       Some f \<Rightarrow> st = 200 \<and> r = feed_response_of f \<and> feeds_tbl (w_db w1) = feeds_tbl (w_db w)
     | None \<Rightarrow> st = 201 \<and> r = feed_response_of (new_feed (feeds_seq (w_db w)) v now db_now) \<and>
         feeds_tbl (w_db w1) = feeds_tbl (w_db w) @ [new_feed (feeds_seq (w_db w)) v now db_now]) \<and>
    create_feed dns' now' db_now' u' w1 = (w2, Inr (200, r)) \<and>
    feeds_tbl (w_db w2) = feeds_tbl (w_db w1) \<and> entries_tbl (w_db w2) = entries_tbl (w_db w1)"
proof (rule create_feed_returns [OF assms(2)])
  fix v
  let ?d = "w_db w" and ?f = "new_feed (feeds_seq (w_db w)) v now db_now"
  assume v: "normalize_url u = Inr v" and ok: "validate_public_url dns v False = Inr ()"
    and c: "case feed_by_url ?d v of
        Some f \<Rightarrow> st = 200 \<and> r = feed_response_of f \<and> w_db w1 = ?d\<lparr>feeds_seq := feeds_seq ?d + 1\<rparr>
      | None \<Rightarrow> (let f = ?f in st = 201 \<and> r = feed_response_of f \<and>
          w_db w1 = ?d\<lparr>feeds_seq := feeds_seq ?d + 1, feeds_tbl := feeds_tbl ?d @ [f]\<rparr>)"
  have fu: "f_url ?f = v" "f_id ?f = feeds_seq ?d" by (simp_all add: new_feed_def)
  have ok1: "db_ok (w_db w1)"
    using c assms(1) db_ok_bump db_ok_insert_feed [OF assms(1) _ fu] by (auto simp: Let_def split: option.splits)
  have "\<exists>g. feed_by_url (w_db w1) v = Some g \<and> r = feed_response_of g"
  proof (cases "feed_by_url ?d v")
    case (Some g)
    with c show ?thesis by (simp add: feed_by_url_def)
  next
    case None
    with c fu(1) show ?thesis by (simp add: Let_def feed_by_url_append)
  qed
  then obtain g where g: "feed_by_url (w_db w1) v = Some g" "r = feed_response_of g" by blast
  let ?w2 = "w1\<lparr>w_db := (w_db w1)\<lparr>feeds_seq := feeds_seq (w_db w1) + 1\<rparr>\<rparr>"
  have ok': "validate_public_url dns' v False = Inr ()" using ok validate_static_dns by metis
  have g': "feed_by_url ((w_db w1)\<lparr>feeds_seq := feeds_seq (w_db w1) + 1\<rparr>) v = Some g"
    using g(1) by (simp add: feed_by_url_def)
  have "create_feed dns' now' db_now' u' w1 = (?w2, Inr (200, r))"
    using assms(3,4) v ok' g g' by (simp add: create_feed_def insert_feed_def Let_def)
  then show ?thesis using v ok1 c by (intro exI [of _ v] exI [of _ ?w2]) (auto simp: Let_def split: option.splits)
qed

definition sample_api_world :: world where
  "sample_api_world = \<lparr>w_db = sample_db, w_domains = {}, w_events = []\<rparr>"

theorem registration_idempotent_witness:
  "\<exists>w1 w2 r. create_feed (\<lambda>_. Inr []) 7 8 ''http://b.example/rss/'' sample_api_world = (w1, Inr (201, r)) \<and>
     create_feed (\<lambda>_. Inr []) 9 9 ''http://b.example/rss#x'' w1 = (w2, Inr (200, r)) \<and>
     feeds_tbl (w_db w2) = feeds_tbl (w_db w1)"
proof -
  let ?f = "new_feed 2 ''http://b.example/rss'' 7 8"
  let ?d = "sample_db\<lparr>feeds_seq := 3, feeds_tbl := [sample_feed, ?f]\<rparr>"
  have n: "normalize_url ''http://b.example/rss/'' = Inr ''http://b.example/rss''"
    "normalize_url ''http://b.example/rss#x'' = normalize_url ''http://b.example/rss/''" by code_simp+
  have v: "validate_public_url (\<lambda>_. Inr []) ''http://b.example/rss'' False = Inr ()" by code_simp
  have c: "create_feed (\<lambda>_. Inr []) 7 8 ''http://b.example/rss/'' sample_api_world =
      (sample_api_world\<lparr>w_db := ?d\<rparr>, Inr (201, feed_response_of ?f))"
    by (simp add: create_feed_def n v insert_feed_def int4_def feed_by_url_def sample_api_world_def sample_db_def
        sample_feed_def new_feed_def Let_def)
  have ok: "db_ok (w_db sample_api_world)" by (simp add: sample_api_world_def sample_db_ok)
  show ?thesis
    using registration_idempotent [OF ok c n(2), of "\<lambda>_. Inr []" 9 9] c
    by (fastforce simp: sample_api_world_def int4_def)
qed

text \<open>
  The registration guard. A URL is registered only if its normal form splits, has scheme http
  or https and a host that is not the literal of a blocked address; every other request changes no
  row, and a blocked URL is answered with 400 and leaves the whole state as it was.
\<close>

theorem registration_guard:
  "(case create_feed dns now db_now u w of
      (w1, Inr (st, r)) \<Rightarrow>
        (\<exists>parts host. urlsplit (fr_url r) = Inr parts \<and> lower (u_scheme parts) \<in> {''http'', ''https''} \<and>
           hostname parts = Some host \<and> (\<forall>ip. ip_address host = Some ip \<longrightarrow> \<not> is_blocked_ip ip))
    | (w1, Inl e) \<Rightarrow> feeds_tbl (w_db w1) = feeds_tbl (w_db w) \<and> entries_tbl (w_db w1) = entries_tbl (w_db w)) \<and>
   (\<forall>v. normalize_url u = Inr v \<longrightarrow> validate_public_url dns v False = Inl (raise_exn BlockedURLError) \<longrightarrow>
      create_feed dns now db_now u w = (w, Inl (HTTPException 400 (Some (''blocked_url: '' @ blocked_message v)))))"
proof (intro conjI allI impI)
  show "case create_feed dns now db_now u w of
      (w1, Inr (st, r)) \<Rightarrow>
        (\<exists>parts host. urlsplit (fr_url r) = Inr parts \<and> lower (u_scheme parts) \<in> {''http'', ''https''} \<and>
           hostname parts = Some host \<and> (\<forall>ip. ip_address host = Some ip \<longrightarrow> \<not> is_blocked_ip ip))
    | (w1, Inl e) \<Rightarrow> feeds_tbl (w_db w1) = feeds_tbl (w_db w) \<and> entries_tbl (w_db w1) = entries_tbl (w_db w)"
  proof (cases "create_feed dns now db_now u w")
    case (Pair w1 res)
    show ?thesis
    proof (cases res)
      case (Inl e)
      with Pair show ?thesis
        by (auto simp: create_feed_def insert_feed_def Let_def and_then_def feed_by_url_append
            split: sum.splits option.splits if_splits)
    next
      case (Inr sr)
      obtain st r where sr: "sr = (st, r)" by (cases sr)
      from Pair Inr sr have "create_feed dns now db_now u w = (w1, Inr (st, r))" by simp
      then show ?thesis
      proof (rule create_feed_returns)
        fix v
        assume ok: "validate_public_url dns v False = Inr ()"
          and c: "case feed_by_url (w_db w) v of
              Some f \<Rightarrow> st = 200 \<and> r = feed_response_of f \<and> w_db w1 = (w_db w)\<lparr>feeds_seq := feeds_seq (w_db w) + 1\<rparr>
            | None \<Rightarrow> (let f = new_feed (feeds_seq (w_db w)) v now db_now in
                st = 201 \<and> r = feed_response_of f \<and>
                w_db w1 = (w_db w)\<lparr>feeds_seq := feeds_seq (w_db w) + 1, feeds_tbl := feeds_tbl (w_db w) @ [f]\<rparr>)"
        have "fr_url r = v"
          using c by (auto simp: feed_response_of_def new_feed_def Let_def dest: feed_by_url_Some split: option.splits)
        moreover obtain parts where p: "urlsplit v = Inr parts"
          using ok by (cases "urlsplit v") (auto simp: validate_public_url_def)
        moreover have "lower (u_scheme parts) \<in> {''http'', ''https''}"
          using ok p by (auto simp: validate_public_url_def ALLOWED_SCHEMES_def split: if_splits)
        moreover obtain host where "hostname parts = Some host" "\<forall>ip. ip_address host = Some ip \<longrightarrow> \<not> is_blocked_ip ip"
          using ok p by (auto simp: validate_public_url_def split: if_splits option.splits)
        ultimately show ?thesis using Pair Inr sr by auto
      qed
    qed
  qed
next
  fix v
  assume "normalize_url u = Inr v" "validate_public_url dns v False = Inl (raise_exn BlockedURLError)"
  then show "create_feed dns now db_now u w = (w, Inl (HTTPException 400 (Some (''blocked_url: '' @ blocked_message v))))"
    by (simp add: create_feed_def)
qed

theorem registration_guard_witness:
  "create_feed (\<lambda>_. Inr []) 7 8 ''http://10.0.0.1/feed/'' sample_api_world =
     (sample_api_world, Inl (HTTPException 400 (Some ''blocked_url: blocked address: 10.0.0.1'')))"
proof -
  have n: "normalize_url ''http://10.0.0.1/feed/'' = Inr ''http://10.0.0.1/feed''" by code_simp
  have v: "validate_public_url (\<lambda>_. Inr []) ''http://10.0.0.1/feed'' False = Inl (raise_exn BlockedURLError)" by code_simp
  have m: "blocked_message ''http://10.0.0.1/feed'' = ''blocked address: 10.0.0.1''" by code_simp
  show ?thesis using registration_guard [where u = "''http://10.0.0.1/feed/''" and dns = "\<lambda>_. Inr []"] n v m by simp
qed

text \<open>
  Decoding the cursor of a feed id gives the id back, for every 32-bit id.
\<close>

theorem feed_cursor_roundtrip:
  assumes "int4 i" "1 \<le> py_depth env"
  shows "decode_feed_cursor env (encode_feed_cursor i) = Inr i"
  by (rule decode_encode_feed_cursor [OF assms])

theorem feed_cursor_roundtrip_witness:
  "encode_feed_cursor 42 = ''eyJpIjo0Mn0'' \<and> decode_feed_cursor sample_py_env ''eyJpIjo0Mn0'' = Inr 42"
proof -
  have e: "encode_feed_cursor 42 = ''eyJpIjo0Mn0''" by code_simp
  show ?thesis using feed_cursor_roundtrip [of 42 sample_py_env] unfolding e by (simp add: int4_def sample_py_env_def)
qed

text \<open>
  A client that follows the cursors of \<open>GET /v1/feeds\<close> over a database that does not change
  receives every feed with the requested status exactly once, in the order of ids, in as many
  requests as pages are needed; no request fails.
\<close>

theorem feed_listing_complete:
  assumes "feeds_ok d" "feed_ids_int4 d" "1 \<le> py_depth env" "0 < m"
    and "int (length (visible_feeds status_filter d)) \<le> int m * max 1 (min limit max_limit)"
  shows "walk (feeds_request env max_limit limit status_filter) (replicate m d) None =
    Inr (sort_key fr_id (visible_feeds status_filter d), True)"
proof (rule feed_pages.walk_static)
  have "0 \<le> max 1 (min limit max_limit)" by simp
  with assms(5) have "int (length (visible_feeds status_filter d)) \<le> int (m * nat (max 1 (min limit max_limit)))"
    by (simp only: of_nat_mult int_nat_eq if_True)
  then show "length (visible_feeds status_filter d) \<le> m * nat (max 1 (min limit max_limit))"
    by (simp only: of_nat_le_iff)
qed (use assms in simp_all)

definition sample_feeds_db :: db where
  "sample_feeds_db = sample_db\<lparr>feeds_tbl := [sample_feed\<lparr>f_id := 3, f_url := ''u3''\<rparr>, sample_feed,
     sample_feed\<lparr>f_id := 2, f_url := ''u2'', f_status := DEAD\<rparr>], feeds_seq := 4\<rparr>"

lemma sample_listing_ok: "feeds_ok sample_feeds_db" "feed_ids_int4 sample_feeds_db" "1 \<le> py_depth sample_py_env"
  by (simp_all add: feeds_ok_def feed_ids_int4_def int4_def sample_feeds_db_def sample_db_def sample_feed_def
      sample_py_env_def)

theorem feed_listing_complete_witness:
  "map_sum id (\<lambda>(items, fin). (map fr_id items, fin))
     (walk (feeds_request sample_py_env 200 1 (Some ACTIVE)) [sample_feeds_db, sample_feeds_db] None) = Inr ([1, 3], True)"
proof -
  have v: "visible_feeds (Some ACTIVE) sample_feeds_db =
      map feed_response_of [sample_feed\<lparr>f_id := 3, f_url := ''u3''\<rparr>, sample_feed]"
    by (simp add: visible_feeds_def sample_feeds_db_def sample_feed_def)
  have l: "int (length (visible_feeds (Some ACTIVE) sample_feeds_db)) \<le> int 2 * max 1 (min 1 200)"
    by (simp add: v)
  have r: "replicate 2 sample_feeds_db = [sample_feeds_db, sample_feeds_db]" by (simp add: numeral_2_eq_2)
  have "walk (feeds_request sample_py_env 200 1 (Some ACTIVE)) [sample_feeds_db, sample_feeds_db] None =
      Inr (sort_key fr_id (visible_feeds (Some ACTIVE) sample_feeds_db), True)"
    using feed_listing_complete [OF sample_listing_ok _ l] unfolding r by simp
  then show ?thesis by (simp add: v sample_feed_def feed_response_of_def)
qed

text \<open>
  The same client while feeds are created, deleted and change their status between its
  requests: no request fails, no feed is received twice or out of order, everything received was
  listed at some request, and if the walk ends, every feed that was listed throughout is received.
\<close>

theorem feed_listing_under_edits:
  assumes "\<forall>d \<in> set ds. feeds_ok d \<and> feed_ids_int4 d" "1 \<le> py_depth env"
  shows "\<exists>items fin. walk (feeds_request env max_limit limit status_filter) ds None = Inr (items, fin) \<and>
    sorted_wrt (<) (map fr_id items) \<and>
    (\<forall>x \<in> set items. \<exists>d \<in> set ds. x \<in> set (visible_feeds status_filter d)) \<and>
    (fin \<longrightarrow> (\<forall>i. (\<forall>d \<in> set ds. i \<in> fr_id ` set (visible_feeds status_filter d)) \<longrightarrow> i \<in> fr_id ` set items))"
proof -
  have s: "list_all (\<lambda>d. feeds_ok d \<and> feed_ids_int4 d \<and> 1 \<le> py_depth env) ds"
    using assms by (simp add: list_all_iff)
  obtain items fin where w: "walk (feeds_request env max_limit limit status_filter) ds None = Inr (items, fin)"
    using feed_pages.walk_returns [OF s] by blast
  note e = feed_pages.walk_edits [OF s w]
  show ?thesis using w e by (intro exI [of _ items] exI [of _ fin]) (auto simp: ascending_def)
qed

theorem feed_listing_under_edits_witness:
  "\<exists>items fin. walk (feeds_request sample_py_env 200 1 None) [sample_feeds_db, sample_db] None = Inr (items, fin) \<and>
     sorted_wrt (<) (map fr_id items)"
proof -
  have "\<forall>d \<in> set [sample_feeds_db, sample_db]. feeds_ok d \<and> feed_ids_int4 d"
    using sample_listing_ok sample_db_ok by (auto simp: db_ok_def feed_ids_int4_def sample_db_def sample_feed_def int4_def)
  from feed_listing_under_edits [OF this sample_listing_ok(3), of 200 1 None] show ?thesis by blast
qed

text \<open>
  Deletion always answers and leaves a consistent database without the feed and its entries,
  with every other row as it was; deleting again changes nothing and reading the feed is a 404.
\<close>

theorem delete_feed_removes:
  assumes "db_ok (w_db w)" "int4 i"
  shows "\<exists>w'. delete_feed i w = (w', Inr ()) \<and> db_ok (w_db w') \<and> w_events w' = w_events w \<and>
    get_feed i (w_db w') = Inl feed_not_found \<and> entries_of (w_db w') i = [] \<and>
    (\<forall>j. j \<noteq> i \<longrightarrow> feed_by_id (w_db w') j = feed_by_id (w_db w) j \<and> entries_of (w_db w') j = entries_of (w_db w) j) \<and>
    delete_feed i w' = (w', Inr ())"
proof -
  let ?d = "w_db w"
  have other: "find (\<lambda>f. f_id f = j) (filter (\<lambda>f. f_id f \<noteq> i) fs) =
      (if j = i then None else find (\<lambda>f. f_id f = j) fs)" for j and fs :: "feed list"
    by (induction fs) auto
  have fb: "feed_by_id (cascade_delete ?d i) j = (if j = i then None else feed_by_id ?d j)" for j
    by (simp add: feed_by_id_def cascade_delete_def other)
  have en: "entries_of (cascade_delete ?d i) j = (if j = i then [] else entries_of ?d j)" for j
    by (auto simp: entries_of_def cascade_delete_def filter_empty_conv intro!: filter_cong)
  show ?thesis
  proof (cases "feed_by_id ?d i")
    case None
    then have "i \<notin> f_id ` set (feeds_tbl ?d)" by (simp add: feed_by_id_def find_None_iff_map)
    then have "entries_of ?d i = []"
      using assms(1) by (auto simp: db_ok_def fk_ok_def list_all_iff entries_of_def filter_empty_conv)
    with None assms show ?thesis
      by (intro exI [of _ w]) (simp add: delete_feed_def get_feed_def select_feed_int4)
  next
    case (Some f)
    then have "f_id f = i" by (auto dest: feed_by_id_Some)
    with Some assms fb en show ?thesis
      by (intro exI [of _ "w\<lparr>w_db := cascade_delete ?d i\<rparr>"])
        (simp add: delete_feed_def get_feed_def select_feed_int4 db_ok_cascade_delete)
  qed
qed

theorem delete_feed_removes_witness:
  "\<exists>w'. delete_feed 1 sample_api_world = (w', Inr ()) \<and> entries_of (w_db w') 1 = []"
proof -
  have "db_ok (w_db sample_api_world)" by (simp add: sample_api_world_def sample_db_ok)
  from delete_feed_removes [OF this, of 1] show ?thesis by (auto simp: int4_def)
qed

text \<open>
  Reactivation of an existing feed answers with it: active, no failures, no error code, due
  now, with the time of the last success, its identity and every other row as they were; a
  change of status is recorded as one transition of the lifecycle, and an active feed has none.
\<close>

theorem reactivate_feed_resets:
  assumes "db_ok (w_db w)" "int4 i" "feed_by_id (w_db w) i = Some f"
  shows "\<exists>w' g. reactivate_feed now i w = (w', Inr (feed_response_of g)) \<and> db_ok (w_db w') \<and>
    feed_by_id (w_db w') i = Some g \<and> same_identity f g \<and> f_status g = ACTIVE \<and> f_consecutive_failures g = 0 \<and>
    f_last_error_code g = None \<and> f_next_fetch_at g = now \<and>
    f_last_successful_fetch_at g = f_last_successful_fetch_at f \<and>
    (\<forall>j. j \<noteq> i \<longrightarrow> feed_by_id (w_db w') j = feed_by_id (w_db w) j) \<and> entries_tbl (w_db w') = entries_tbl (w_db w) \<and>
    transitions_of (w_events w') = transitions_of (w_events w) @
      (if f_status f = ACTIVE then [] else [(f_status f, ACTIVE)])"
proof -
  let ?op = "reactivate now f (w_events w)"
  have g: "f_id f = i" "f_id (fst ?op) = i" using assms(3) by (auto simp: reactivate_def dest: feed_by_id_Some)
  have "db_ok (flush_feed (w_db w) (fst ?op))" by (rule reactivate_op.op_keeps_row [OF assms(1,3)])
  moreover have "feed_by_id (flush_feed (w_db w) (fst ?op)) j =
      (if j = i then Some (fst ?op) else feed_by_id (w_db w) j)" for j
    using feed_by_id_flush [of "w_db w" "fst ?op" f j] assms(3) g(2) by simp
  ultimately show ?thesis
    unfolding reactivate_feed_found [OF assms(2,3)] using reactivate_op.op_identity [of f now "w_events w"]
    by (intro exI [of _ "w\<lparr>w_db := flush_feed (w_db w) (fst ?op), w_events := snd ?op\<rparr>"] exI [of _ "fst ?op"])
      (simp add: reactivate_def transition_feed_def)
qed

theorem reactivate_feed_resets_witness:
  "\<exists>w' g. reactivate_feed 9 2 (sample_api_world\<lparr>w_db := sample_db\<lparr>feeds_tbl := [sample_feed,
      sample_feed\<lparr>f_id := 2, f_url := ''u2'', f_status := DEAD\<rparr>], feeds_seq := 3\<rparr>\<rparr>) = (w', Inr (feed_response_of g)) \<and>
     f_status g = ACTIVE \<and> transitions_of (w_events w') = [(DEAD, ACTIVE)]"
proof -
  let ?f = "sample_feed\<lparr>f_id := 2, f_url := ''u2'', f_status := DEAD\<rparr>"
  let ?d = "sample_db\<lparr>feeds_tbl := [sample_feed, ?f], feeds_seq := 3\<rparr>"
  let ?w = "sample_api_world\<lparr>w_db := ?d\<rparr>"
  have ok: "db_ok (w_db ?w)"
    by (simp add: db_ok_def feeds_ok_def entries_ok_def fk_ok_def sample_db_def sample_feed_def sample_entry_def)
  have f: "feed_by_id (w_db ?w) 2 = Some ?f" by (simp add: feed_by_id_def sample_feed_def)
  have e: "transitions_of (w_events ?w) = []" "f_status ?f = DEAD" by (simp_all add: sample_api_world_def)
  show ?thesis using reactivate_feed_resets [OF ok _ f, of 9] e by (auto simp: int4_def)
qed

text \<open>
  The one-feed endpoints and the cursor accept integers that do not fit the 32-bit key: for
  an existing API contract of 404 (or 204, or an empty page) the request ends in an exception of
  the database driver that no handler takes.
\<close>

theorem ids_beyond_int4_are_unhandled:
  assumes "\<not> int4 i"
  shows "get_feed i d = Inl (Unhandled (raise_exn DBAPIError)) \<and>
    delete_feed i w = (w, Inl (Unhandled (raise_exn DBAPIError))) \<and>
    reactivate_feed now i w = (w, Inl (Unhandled (raise_exn DBAPIError))) \<and>
    (decode_feed_cursor env c = Inr i \<longrightarrow>
       list_feeds env max_limit (Some c) limit status_filter d = Inl (Unhandled (raise_exn DBAPIError)))"
  using assms
  by (simp add: get_feed_def delete_feed_def reactivate_feed_def select_feed_def bind_int4_def list_feeds_def)

theorem ids_beyond_int4_are_unhandled_witness:
  "get_feed 2147483648 sample_db = Inl (Unhandled (raise_exn DBAPIError)) \<and>
   list_feeds sample_py_env 200 (Some ''eyJpIjo5OTk5OTk5OTk5fQ'') 50 None sample_db = Inl (Unhandled (raise_exn DBAPIError))"
proof -
  have c: "decode_feed_cursor sample_py_env ''eyJpIjo5OTk5OTk5OTk5fQ'' = Inr 9999999999" by code_simp
  have n: "\<not> int4 2147483648" "\<not> int4 9999999999" by (simp_all add: int4_def)
  show ?thesis
    using ids_beyond_int4_are_unhandled [OF n(1), of sample_db] ids_beyond_int4_are_unhandled [OF n(2)] c by blast
qed

end
