(* ===== verification/Api_Entries.thy ===== *)
theory Api_Entries
  imports Schemas Api_Cursor Keyset
begin

text \<open>
  \<open>api/entries.py\<close>: listing the entries of given feeds, newest first, with a cursor made of the
  last entry's publication date and id. \<open>ORDER BY published_at DESC, id DESC\<close> puts rows without a
  date first, as PostgreSQL does for descending order. A comparison with a missing date is not
  true. The driver rejects integers beyond 32 bits and a date without time zone.
\<close>

record entries_config =
  ec_max_feed_ids :: int
  ec_default_limit :: int
  ec_max_limit :: int

section \<open>Cursors\<close>

definition encode_cursor :: "instant option \<Rightarrow> int \<Rightarrow> string" where
  "encode_cursor published_at entry_id =
     unpadded (json_dumps
       [(''p'', case published_at of None \<Rightarrow> PNone | Some t \<Rightarrow> PStr (isoformat t)), (''i'', PInt entry_id)])"

text \<open>\<open>payload.get(k)\<close>\<close>

definition json_get :: "json \<Rightarrow> string \<Rightarrow> exn + json" where
  "json_get j k = (case j of
     JObj kvs \<Rightarrow> Inr (case member kvs k of None \<Rightarrow> JNull | Some v \<Rightarrow> v)
   | _ \<Rightarrow> Inl (raise_exn AttributeError))"

definition json_truthy :: "json \<Rightarrow> bool" where
  "json_truthy j = (case j of
     JNull \<Rightarrow> False | JBool b \<Rightarrow> b | JInt n \<Rightarrow> n \<noteq> 0 | JFloat x \<Rightarrow> x \<noteq> 0 | JInf _ \<Rightarrow> True | JNaN \<Rightarrow> True
   | JStr s \<Rightarrow> s \<noteq> [] | JArr vs \<Rightarrow> vs \<noteq> [] | JObj kvs \<Rightarrow> kvs \<noteq> [])"

definition cursor_date :: "py_env \<Rightarrow> json \<Rightarrow> exn + datetime_val option" where
  "cursor_date env p_raw =
     (if json_truthy p_raw then
        (case p_raw of
           JStr s \<Rightarrow> try_bind (fromisoformat (py_iso env) s) (\<lambda>t. Inr (Some t))
         | _ \<Rightarrow> Inl (raise_exn TypeError))
      else Inr None)"

definition decode_cursor :: "py_env \<Rightarrow> string \<Rightarrow> api_error + datetime_val option \<times> int" where
  "decode_cursor env cursor =
     invalid_cursor (try_bind (decode_payload env cursor) (\<lambda>payload.
       try_bind (json_get payload ''p'') (\<lambda>p_raw.
         try_bind (cursor_date env p_raw) (\<lambda>pub.
           try_bind (json_subscript payload ''i'') (\<lambda>i_raw.
             try_bind (json_int env i_raw) (\<lambda>i. Inr (pub, i)))))))"

section \<open>Listing\<close>

fun parse_feed_ids :: "string list \<Rightarrow> int list option" where
  "parse_feed_ids [] = Some []"
| "parse_feed_ids (x # xs) =
     (if x = [] then parse_feed_ids xs
      else case py_int x of
        None \<Rightarrow> None
      | Some n \<Rightarrow> map_option ((#) n) (parse_feed_ids xs))"

definition feed_ids_param :: "entries_config \<Rightarrow> string \<Rightarrow> api_error + int list" where
  "feed_ids_param cfg feed_ids =
     (case parse_feed_ids (split_on CHR '','' feed_ids) of
        None \<Rightarrow> Inl (HTTPException 400 (Some ''invalid feed_ids''))
      | Some ids \<Rightarrow>
          if ids = [] then Inl (HTTPException 400 (Some ''feed_ids is required''))
          else if int (length ids) > ec_max_feed_ids cfg
          then Inl (HTTPException 400 (Some (''feed_ids length exceeds '' @ str_of_int (ec_max_feed_ids cfg))))
          else Inr ids)"

definition after_cursor :: "instant option \<Rightarrow> int \<Rightarrow> entry \<Rightarrow> bool" where
  "after_cursor cur_pub cur_id e =
     (case cur_pub of
        None \<Rightarrow> (e_published_at e = None \<and> e_id e < cur_id) \<or> e_published_at e \<noteq> None
      | Some t \<Rightarrow> (case e_published_at e of None \<Rightarrow> False | Some u \<Rightarrow> u < t \<or> (u = t \<and> e_id e < cur_id)))"

definition bind_instant :: "datetime_val option \<Rightarrow> api_error + instant option" where
  "bind_instant v = (case v of
     None \<Rightarrow> Inr None
   | Some (Aware t) \<Rightarrow> Inr (Some t)
   | Some (Naive _) \<Rightarrow> Inl (Unhandled (raise_exn DBAPIError)))"

definition entry_order :: "entry \<Rightarrow> int \<times> int \<times> int" where
  "entry_order e = (case e_published_at e of None \<Rightarrow> (0, 0, - e_id e) | Some t \<Rightarrow> (1, - t, - e_id e))"

fun bind_all_int4 :: "int list \<Rightarrow> api_error + unit" where
  "bind_all_int4 [] = Inr ()"
| "bind_all_int4 (i # is) = try_bind (bind_int4 i) (\<lambda>_. bind_all_int4 is)"

text \<open>The query: one row more than the page holds, the page, and the cursor of its last row.\<close>

definition select_entries :: "int \<Rightarrow> int list \<Rightarrow> (entry \<Rightarrow> bool) \<Rightarrow> db \<Rightarrow> api_error + paginated_entries" where
  "select_entries limit_value feed_id_list after d =
     (if limit_value + 1 < 0 then Inl (Unhandled (raise_exn DBAPIError))
      else
        (let rows = take (nat (limit_value + 1)) (sort_key entry_order
               (filter (\<lambda>e. e_feed_id e \<in> set feed_id_list \<and> after e) (entries_tbl d)));
             has_more = int (length rows) > limit_value;
             items = slice_to limit_value rows;
             next_cursor = (if has_more \<and> items \<noteq> []
               then Some (encode_cursor (e_published_at (last items)) (e_id (last items))) else None)
         in Inr \<lparr>pe_items = map entry_response_of items, pe_next_cursor = next_cursor\<rparr>))"

definition list_entries ::
  "py_env \<Rightarrow> entries_config \<Rightarrow> string \<Rightarrow> string option \<Rightarrow> int option \<Rightarrow> db \<Rightarrow> api_error + paginated_entries" where
  "list_entries env cfg feed_ids cursor limit d =
     (let limit_value = (case limit of None \<Rightarrow> ec_default_limit cfg | Some l \<Rightarrow> l) in
      if limit_value > ec_max_limit cfg
      then Inl (HTTPException 422 (Some (''limit must be less than or equal to '' @ str_of_int (ec_max_limit cfg))))
      else try_bind (feed_ids_param cfg feed_ids) (\<lambda>feed_id_list.
        try_bind (case cursor of
            None \<Rightarrow> Inr None
          | Some c \<Rightarrow> try_bind (decode_cursor env c) (\<lambda>k. Inr (Some k)))
        (\<lambda>position.
          try_bind (bind_all_int4 feed_id_list) (\<lambda>_.
          try_bind (case position of
              None \<Rightarrow> Inr (\<lambda>e. True)
            | Some (cur_pub, cur_id) \<Rightarrow>
                try_bind (bind_instant cur_pub) (\<lambda>pub. try_bind (bind_int4 cur_id) (\<lambda>_. Inr (after_cursor pub cur_id))))
          (\<lambda>after.
            select_entries limit_value feed_id_list after d)))))"

text \<open>The query parameter \<open>limit\<close> is declared with \<open>ge=1\<close>.\<close>

definition limit_param :: "int option \<Rightarrow> api_error + int option" where
  "limit_param limit =
     (if (case limit of None \<Rightarrow> True | Some l \<Rightarrow> l \<ge> 1) then Inr limit
      else Inl (RequestValidationError
        [\<lparr>ve_loc = Some ([CHR ''('', CHR 0x27] @ ''query'' @ [CHR 0x27] @ '', '' @ [CHR 0x27] @ ''limit'' @ [CHR 0x27, CHR '')'']),
          ve_msg = Some ''Input should be greater than or equal to 1''\<rparr>]))"

section \<open>Facts: cursors\<close>

lemma plain_keys: "list_all plain_char ''p''" "list_all plain_char ''i''"
  by (simp_all add: plain_char_def cp_def ord_def)

definition cursor_value :: "instant option \<Rightarrow> json" where
  "cursor_value p = (case p of None \<Rightarrow> JNull | Some t \<Rightarrow> JStr (pts (isoformat t)))"

lemma cursor_tokens:
  assumes "int4 i"
  shows "tokens (pts (json_dumps [(''p'', case p of None \<Rightarrow> PNone | Some t \<Rightarrow> PStr (isoformat t)), (''i'', PInt i)])) =
    [TLBrace, TStr (pts ''p''), TColon, (case p of None \<Rightarrow> TNull | Some t \<Rightarrow> TStr (pts (isoformat t))), TComma,
     TStr (pts ''i''), TColon, TInt i, TRBrace]"
proof -
  have t: "tokens (pts (str_of_int i) @ [125]) = [TInt i, TRBrace]"
    using tokens_decimal [OF int4_printable [OF assms] stops_number_punctuation(1)]
    by (simp add: tokens_punctuation)
  let ?rest = "44 # pts (dumps_str ''i'') @ 58 # pts (str_of_int i) @ [125]"
  have v: "tokens (pts (dumps_value (case p of None \<Rightarrow> PNone | Some t \<Rightarrow> PStr (isoformat t))) @ ?rest) =
      (case p of None \<Rightarrow> TNull | Some t \<Rightarrow> TStr (pts (isoformat t))) # tokens ?rest"
    using tokens_null [of ?rest] tokens_plain [OF isoformat_plain, of _ ?rest] by (cases p) simp_all
  have "pts (json_dumps [(''p'', case p of None \<Rightarrow> PNone | Some t \<Rightarrow> PStr (isoformat t)), (''i'', PInt i)]) =
      123 # pts (dumps_str ''p'') @ 58 # pts (dumps_value (case p of None \<Rightarrow> PNone | Some t \<Rightarrow> PStr (isoformat t))) @ ?rest"
    by (simp add: json_dumps_def cp_literals)
  then show ?thesis by (simp only: tokens_punctuation tokens_plain [OF plain_keys(1)] v tokens_plain [OF plain_keys(2)] t)
qed

lemma cursor_ascii:
  "is_ascii (json_dumps [(''p'', case p of None \<Rightarrow> PNone | Some t \<Rightarrow> PStr (isoformat t)), (''i'', PInt i)])"
proof -
  have "is_ascii (dumps_value (case p of None \<Rightarrow> PNone | Some t \<Rightarrow> PStr (isoformat t)))"
    using is_ascii_plain [OF isoformat_plain] by (cases p) (simp_all add: ord_def)
  then show ?thesis
    using is_ascii_plain [OF plain_keys(1)] is_ascii_plain [OF plain_keys(2)]
    by (simp add: json_dumps_def is_ascii_str_of_int ord_def)
qed

lemma decode_encode_cursor:
  assumes "int4 i" "1 \<le> py_depth env" "\<And>t. p = Some t \<Longrightarrow> valid_instant t"
  shows "decode_cursor env (encode_cursor p i) = Inr (map_option Aware p, i)"
proof -
  have "decode_payload env (encode_cursor p i) = Inr (JObj [(pts ''p'', cursor_value p), (pts ''i'', JInt i)])"
    unfolding encode_cursor_def decode_payload_unpadded [OF cursor_ascii] json_loads_def cursor_tokens [OF assms(1)]
    using assms(2) by (cases p) (simp_all add: step_value_def token_scalar_def cursor_value_def)
  moreover have "member [(pts ''p'', cursor_value p), (pts ''i'', JInt i)] ''p'' = Some (cursor_value p)"
    "member [(pts ''p'', cursor_value p), (pts ''i'', JInt i)] ''i'' = Some (JInt i)"
    using member_simps(2) [of "[(pts ''p'', cursor_value p)]" "''i''" "JInt i"] member_simps(2) [of "[]" "''p''" "cursor_value p"]
    by simp_all
  moreover have "pts (isoformat t) \<noteq> []" for t using isoformat_not_Nil [of t] by (simp add: pts_def)
  then have "cursor_date env (cursor_value p) = Inr (map_option Aware p)"
    using assms(3)
    by (cases p) (auto simp: cursor_date_def cursor_value_def json_truthy_def fromisoformat_isoformat)
  ultimately show ?thesis
    by (simp add: decode_cursor_def json_get_def json_subscript_def json_int_def)
qed

section \<open>Facts: pages\<close>

definition response_order :: "entry_response \<Rightarrow> int \<times> int \<times> int" where
  "response_order r = (case er_published_at r of None \<Rightarrow> (0, 0, - er_id r) | Some t \<Rightarrow> (1, - t, - er_id r))"

definition response_cursor :: "entry_response \<Rightarrow> string" where
  "response_cursor r = encode_cursor (er_published_at r) (er_id r)"

definition entries_listed :: "int list \<Rightarrow> db \<Rightarrow> entry_response list" where
  "entries_listed ids d = map entry_response_of (filter (\<lambda>e. e_feed_id e \<in> set ids) (entries_tbl d))"

text \<open>A request as a client makes it.\<close>

definition entries_request ::
  "py_env \<Rightarrow> entries_config \<Rightarrow> string \<Rightarrow> int option \<Rightarrow> db \<Rightarrow> string option \<Rightarrow> api_error + entry_response list \<times> string option" where
  "entries_request env cfg feed_ids limit d cursor =
     map_sum id (\<lambda>p. (pe_items p, pe_next_cursor p)) (list_entries env cfg feed_ids cursor limit d)"

definition page_limit :: "entries_config \<Rightarrow> int option \<Rightarrow> int" where
  "page_limit cfg limit = (case limit of None \<Rightarrow> ec_default_limit cfg | Some l \<Rightarrow> l)"

text \<open>A request the endpoint accepts, and a database whose keys and dates its columns can hold.\<close>

definition acceptable :: "py_env \<Rightarrow> entries_config \<Rightarrow> string \<Rightarrow> int option \<Rightarrow> int list \<Rightarrow> bool" where
  "acceptable env cfg feed_ids limit ids =
     (1 \<le> page_limit cfg limit \<and> page_limit cfg limit \<le> ec_max_limit cfg \<and> feed_ids_param cfg feed_ids = Inr ids \<and>
      list_all int4 ids \<and> 1 \<le> py_depth env)"

definition entries_storable :: "db \<Rightarrow> bool" where
  "entries_storable d = (entries_ok d \<and>
     list_all (\<lambda>e. int4 (e_id e) \<and> (case e_published_at e of None \<Rightarrow> True | Some t \<Rightarrow> valid_instant t)) (entries_tbl d))"

lemma entry_response_fields [simp]:
  "er_id (entry_response_of e) = e_id e" "er_published_at (entry_response_of e) = e_published_at e"
  "er_feed_id (entry_response_of e) = e_feed_id e"
  by (simp_all add: entry_response_of_def)

lemma response_order_comp: "response_order \<circ> entry_response_of = entry_order"
  by (simp add: fun_eq_iff response_order_def entry_order_def split: option.split)

lemma bind_all_int4_ok: "list_all int4 ids \<Longrightarrow> bind_all_int4 ids = Inr ()"
  by (induction ids) (simp_all add: bind_int4_def)

text \<open>The filter of a cursor is "after the row in the sort order", dates missing or not.\<close>

lemma after_cursor_order: "after_cursor (e_published_at x) (e_id x) e \<longleftrightarrow> entry_order x < entry_order e"
  by (cases "e_published_at x"; cases "e_published_at e") (auto simp: after_cursor_def entry_order_def)

lemma entries_page:
  assumes "acceptable env cfg feed_ids limit ids"
    and "cursor = None \<and> q = (\<lambda>e. True) \<or>
      (\<exists>c pub i. cursor = Some c \<and> decode_cursor env c = Inr (map_option Aware pub, i) \<and> int4 i \<and> q = after_cursor pub i)"
  shows "entries_request env cfg feed_ids limit d cursor =
    Inr (page response_order response_cursor (nat (max 1 (page_limit cfg limit)))
      (map entry_response_of (filter (\<lambda>e. e_feed_id e \<in> set ids \<and> q e) (entries_tbl d))))"
proof -
  define n where "n = nat (max 1 (page_limit cfg limit))"
  let ?es = "filter (\<lambda>e. e_feed_id e \<in> set ids \<and> q e) (entries_tbl d)"
  let ?rows = "take (n + 1) (sort_key entry_order ?es)"
  note a = assms(1) [unfolded acceptable_def]
  have n: "page_limit cfg limit = int n" "nat (int n + 1) = n + 1" "\<not> int n + 1 < 0" "\<not> int n > ec_max_limit cfg"
    using a by (auto simp: n_def)
  have f: "feed_ids_param cfg feed_ids = Inr ids" using a by simp
  have b: "bind_all_int4 ids = Inr ()" using a bind_all_int4_ok by blast
  obtain pos where p: "(case cursor of None \<Rightarrow> Inr None | Some c \<Rightarrow> try_bind (decode_cursor env c) (\<lambda>k. Inr (Some k))) = Inr pos"
    and q: "(case pos of None \<Rightarrow> Inr (\<lambda>e. True) | Some (cur_pub, cur_id) \<Rightarrow>
        try_bind (bind_instant cur_pub) (\<lambda>pub. try_bind (bind_int4 cur_id) (\<lambda>_. Inr (after_cursor pub cur_id)))) = Inr q"
    using assms(2)
  proof (elim disjE exE conjE)
    assume "cursor = None" "q = (\<lambda>e. True)"
    then show thesis using that [of None] by simp
  next
    fix c pub i
    assume "cursor = Some c" "decode_cursor env c = Inr (map_option Aware pub, i)" "int4 i" "q = after_cursor pub i"
    then show thesis
      using that [of "Some (map_option Aware pub, i)"] by (cases pub) (simp_all add: bind_instant_def bind_int4_def)
  qed
  have "list_entries env cfg feed_ids cursor limit d =
      Inr \<lparr>pe_items = map entry_response_of (take n ?rows),
           pe_next_cursor = if int (length ?rows) > int n \<and> take n ?rows \<noteq> []
             then Some (encode_cursor (e_published_at (last (take n ?rows))) (e_id (last (take n ?rows)))) else None\<rparr>"
    unfolding list_entries_def page_limit_def [symmetric] Let_def f p b q n(1) n(2) try_bind_simps
      select_entries_def slice_to_nat
    by (simp only: n if_False)
  moreover have "take n ?rows \<noteq> [] \<Longrightarrow> response_cursor (last (map entry_response_of (take n ?rows))) =
      encode_cursor (e_published_at (last (take n ?rows))) (e_id (last (take n ?rows)))"
    by (subst last_map) (simp_all add: response_cursor_def)
  ultimately show ?thesis
    unfolding n_def [symmetric]
    by (auto simp: entries_request_def page_def Let_def sort_key_map response_order_comp take_map)
qed

text \<open>The endpoint meets the contract of keyset pagination.\<close>

interpretation entry_pages: keyset_pagination response_order "entries_listed ids" response_cursor
  "nat (max 1 (page_limit cfg limit))" "\<lambda>d. entries_storable d \<and> acceptable env cfg feed_ids limit ids"
  "entries_request env cfg feed_ids limit"
  for ids cfg limit env feed_ids
proof
  fix d d' :: db and r
  assume d: "entries_storable d \<and> acceptable env cfg feed_ids limit ids"
  have inj: "inj_on entry_order (set (entries_tbl d))"
    if "distinct (map e_id (entries_tbl d))"
    using that by (auto simp: inj_on_def distinct_map entry_order_def split: option.splits)
  have "distinct (map e_id (entries_tbl d))" using d by (simp add: entries_storable_def entries_ok_def)
  with inj have "distinct (map entry_order (entries_tbl d))" by (auto simp: distinct_map)
  then show "distinct (map response_order (entries_listed ids d))"
    by (simp add: entries_listed_def response_order_comp distinct_map_filter)
  show "entries_request env cfg feed_ids limit d None =
      Inr (page response_order response_cursor (nat (max 1 (page_limit cfg limit))) (entries_listed ids d))"
    by (subst entries_page [where q = "\<lambda>e. True" and ids = ids]) (use d in \<open>simp_all add: entries_listed_def\<close>)
  assume d': "entries_storable d' \<and> acceptable env cfg feed_ids limit ids" and r: "r \<in> set (entries_listed ids d')"
  then obtain x where x: "x \<in> set (entries_tbl d')" "r = entry_response_of x" by (auto simp: entries_listed_def)
  with d' have i: "int4 (e_id x)" and v: "\<And>t. e_published_at x = Some t \<Longrightarrow> valid_instant t"
    by (auto simp: entries_storable_def list_all_iff)
  have c: "decode_cursor env (response_cursor r) = Inr (map_option Aware (e_published_at x), e_id x)"
    unfolding response_cursor_def x(2) entry_response_fields
    by (rule decode_encode_cursor [OF i _ v]) (use d in \<open>simp_all add: acceptable_def\<close>)
  have o: "response_order (entry_response_of e) = entry_order e" for e
    using fun_cong [OF response_order_comp] by simp
  have f: "filter (\<lambda>y. response_order r < response_order y) (entries_listed ids d) =
      map entry_response_of (filter (\<lambda>e. e_feed_id e \<in> set ids \<and> after_cursor (e_published_at x) (e_id x) e) (entries_tbl d))"
    by (simp add: entries_listed_def filter_map o_def o x(2) after_cursor_order conj_commute)
  show "entries_request env cfg feed_ids limit d (Some (response_cursor r)) =
      Inr (page response_order response_cursor (nat (max 1 (page_limit cfg limit)))
        (filter (\<lambda>y. response_order r < response_order y) (entries_listed ids d)))"
    unfolding f by (rule entries_page) (use c i d in auto)
qed simp

section \<open>Facts: malformed cursors\<close>

definition raises_only :: "exn_class set \<Rightarrow> exn + 'a \<Rightarrow> bool" where
  "raises_only cs r = (case r of Inl e \<Rightarrow> exn_cls e \<in> cs | Inr _ \<Rightarrow> True)"

lemma raises_only_simps [simp]: "raises_only cs (Inr a)" "raises_only cs (Inl e) \<longleftrightarrow> exn_cls e \<in> cs"
  by (simp_all add: raises_only_def)

lemma raises_only_bind:
  "raises_only cs r \<Longrightarrow> (\<And>a. r = Inr a \<Longrightarrow> raises_only cs (k a)) \<Longrightarrow> raises_only cs (try_bind r k)"
  by (cases r) simp_all

lemma raises_only_mono: "raises_only cs r \<Longrightarrow> cs \<subseteq> cs' \<Longrightarrow> raises_only cs' r"
  by (cases r) auto

lemma json_step_raises: "raises_only {ValueError, OtherException} (json_step depth m st t)"
  by (cases "(depth, m, st, t)" rule: json_step.cases)
    (auto simp: step_value_def split: token.splits option.splits)

lemma json_run_raises: "raises_only {ValueError, OtherException} (json_run depth m st ts)"
proof (induction depth m st ts rule: json_run.induct)
  case (1 depth m st)
  then show ?case by (cases m; cases st) simp_all
next
  case (2 depth m st t ts)
  have "raises_only {ValueError, OtherException} (json_run depth m' st' ts)"
    if "json_step depth m st t = Inr (m', st')" for m' st' using 2 by blast
  then show ?case unfolding json_run.simps by (intro raises_only_bind json_step_raises) auto
qed

lemma decode_payload_raises: "raises_only {ValueError, OtherException} (decode_payload env c)"
  unfolding decode_payload_def
  by (intro raises_only_bind)
    (auto simp: urlsafe_b64decode_def bytes_decode_def json_loads_def json_run_raises split: option.splits)

lemma json_int_raises: "raises_only {ValueError, TypeError, OverflowError} (json_int env j)"
  by (auto simp: json_int_def split: json.splits option.splits)

lemma json_subscript_raises: "raises_only {KeyError, TypeError} (json_subscript j k)"
  by (auto simp: json_subscript_def split: json.splits option.splits)

definition iso_documented :: "py_env \<Rightarrow> bool" where
  "iso_documented env = (\<forall>s. raises_only {ValueError} (py_iso env s))"

lemma cursor_date_raises: "iso_documented env \<Longrightarrow> raises_only {ValueError, TypeError} (cursor_date env j)"
proof -
  assume "iso_documented env"
  then have "raises_only {ValueError} (fromisoformat (py_iso env) s)" for s
    by (auto simp: fromisoformat_def iso_fields_def iso_documented_def Let_def)
  then have "raises_only {ValueError, TypeError} (fromisoformat (py_iso env) s)" for s
    by (rule raises_only_mono) simp
  then show ?thesis
    by (auto simp: cursor_date_def split: json.splits intro!: raises_only_bind)
qed

section \<open>Properties\<close>

text \<open>
  C26: Decoding the cursor of an entry gives its publication date, to the microsecond and with its
  time zone, and its id, for every date the calendar can hold, a missing date and every 32-bit id.
\<close>

theorem entry_cursor_roundtrip:
  assumes "int4 i" "1 \<le> py_depth env" "case p of None \<Rightarrow> True | Some t \<Rightarrow> valid_instant t"
  shows "decode_cursor env (encode_cursor p i) = Inr (map_option Aware p, i)"
  by (rule decode_encode_cursor) (use assms in \<open>auto split: option.splits\<close>)

theorem entry_cursor_roundtrip_witness:
  "decode_cursor sample_py_env (encode_cursor (Some 1709251199000001) 7) = Inr (Some (Aware 1709251199000001), 7) \<and>
   isoformat 1709251199000001 = ''2024-02-29T23:59:59.000001+00:00''"
proof -
  have "isoformat 1709251199000001 = ''2024-02-29T23:59:59.000001+00:00''" by code_simp
  then show ?thesis
    using entry_cursor_roundtrip [of 7 sample_py_env "Some 1709251199000001"]
    by (simp add: int4_def sample_py_env_def valid_instant_def dt_min_def dt_max_def)
qed

lemma entries_walk:
  assumes "entries_storable d" "acceptable env cfg feed_ids limit ids" "0 < m"
    and "int (length (entries_listed ids d)) \<le> int m * page_limit cfg limit"
  shows "walk (entries_request env cfg feed_ids limit) (replicate m d) None =
    Inr (sort_key response_order (entries_listed ids d), True)"
proof (rule entry_pages.walk_static)
  have "max 1 (page_limit cfg limit) = page_limit cfg limit" "0 \<le> page_limit cfg limit"
    using assms(2) by (simp_all add: acceptable_def)
  with assms(4) have "int (length (entries_listed ids d)) \<le> int (m * nat (max 1 (page_limit cfg limit)))"
    by simp
  then show "length (entries_listed ids d) \<le> m * nat (max 1 (page_limit cfg limit))" by (simp only: of_nat_le_iff)
qed (use assms in simp_all)

text \<open>
  C10: A client that follows the cursors of \<open>GET /v1/entries\<close> over a database that does not change
  receives every entry of the requested feeds exactly once, newest first (entries without a date
  before all others, ties by descending id), in as many requests as pages are needed.
\<close>

theorem entry_listing_complete:
  assumes "entries_storable d" "acceptable env cfg feed_ids limit ids" "0 < m"
    and "int (length (entries_listed ids d)) \<le> int m * page_limit cfg limit"
  shows "walk (entries_request env cfg feed_ids limit) (replicate m d) None =
    Inr (sort_key response_order (entries_listed ids d), True)"
  using assms by (rule entries_walk)

definition sample_entries_config :: entries_config where
  "sample_entries_config = \<lparr>ec_max_feed_ids = 200, ec_default_limit = 50, ec_max_limit = 200\<rparr>"

definition sample_entries_db :: db where
  "sample_entries_db = sample_db\<lparr>entries_tbl :=
     [sample_entry\<lparr>e_id := 2, e_guid := ''g2'', e_published_at := Some 10\<rparr>, sample_entry,
      sample_entry\<lparr>e_id := 3, e_guid := ''g3'', e_published_at := Some 20\<rparr>,
      sample_entry\<lparr>e_id := 4, e_guid := ''g4'', e_feed_id := 9\<rparr>], entries_seq := 5\<rparr>"

lemma sample_entries_facts:
  "entries_storable sample_entries_db" "acceptable sample_py_env sample_entries_config ''1,'' (Some 1) [1]"
proof -
  show "entries_storable sample_entries_db"
    by (simp add: entries_storable_def entries_ok_def entry_key_def int4_def valid_instant_def dt_min_def dt_max_def
        sample_entries_db_def sample_entry_def)
  have "feed_ids_param sample_entries_config ''1,'' = Inr [1]" by code_simp
  then show "acceptable sample_py_env sample_entries_config ''1,'' (Some 1) [1]"
    by (simp add: acceptable_def page_limit_def sample_entries_config_def sample_py_env_def int4_def)
qed

theorem entry_listing_complete_witness:
  "map_sum id (\<lambda>(items, fin). (map er_id items, fin))
     (walk (entries_request sample_py_env sample_entries_config ''1,'' (Some 1))
       (replicate 3 sample_entries_db) None) = Inr ([1, 3, 2], True)"
proof -
  have v: "entries_listed [1] sample_entries_db = map entry_response_of
      [sample_entry\<lparr>e_id := 2, e_guid := ''g2'', e_published_at := Some 10\<rparr>, sample_entry,
       sample_entry\<lparr>e_id := 3, e_guid := ''g3'', e_published_at := Some 20\<rparr>]"
    by (simp add: entries_listed_def sample_entries_db_def sample_entry_def)
  have l: "int (length (entries_listed [1] sample_entries_db)) \<le> int 3 * page_limit sample_entries_config (Some 1)"
    by (simp add: v page_limit_def)
  show ?thesis
    unfolding entry_listing_complete [OF sample_entries_facts _ l, simplified]
    by (simp add: v sample_entry_def entry_response_of_def response_order_def)
qed

text \<open>
  C27: The same client while entries are added, removed and edited between its requests: no request
  fails, no position of the order is received twice or out of order, everything received was listed
  at some request, and if the walk ends, every entry whose date and id stayed listed is received.
\<close>

theorem entry_listing_under_edits:
  assumes "\<forall>d \<in> set ds. entries_storable d" "acceptable env cfg feed_ids limit ids"
  shows "\<exists>items fin. walk (entries_request env cfg feed_ids limit) ds None = Inr (items, fin) \<and>
    sorted_wrt (<) (map response_order items) \<and>
    (\<forall>x \<in> set items. \<exists>d \<in> set ds. x \<in> set (entries_listed ids d)) \<and>
    (fin \<longrightarrow> (\<forall>k. (\<forall>d \<in> set ds. k \<in> response_order ` set (entries_listed ids d)) \<longrightarrow> k \<in> response_order ` set items))"
proof -
  have s: "list_all (\<lambda>d. entries_storable d \<and> acceptable env cfg feed_ids limit ids) ds"
    using assms by (simp add: list_all_iff)
  obtain items fin where w: "walk (entries_request env cfg feed_ids limit) ds None = Inr (items, fin)"
    using entry_pages.walk_returns [OF s] by blast
  note e = entry_pages.walk_edits [OF s w]
  show ?thesis using w e by (intro exI [of _ items] exI [of _ fin]) (auto simp: ascending_def)
qed

theorem entry_listing_under_edits_witness:
  "\<exists>items fin. walk (entries_request sample_py_env sample_entries_config ''1,'' (Some 1))
      [sample_entries_db, sample_db] None = Inr (items, fin) \<and> sorted_wrt (<) (map response_order items)"
proof -
  have "entries_storable sample_db"
    by (simp add: entries_storable_def sample_db_ok) (simp add: sample_db_def sample_entry_def int4_def)
  then have "\<forall>d \<in> set [sample_entries_db, sample_db]. entries_storable d" using sample_entries_facts by simp
  from entry_listing_under_edits [OF this sample_entries_facts(2)] show ?thesis by blast
qed

text \<open>
  C35: Whatever a client sends as a cursor, decoding returns a position, answers 400, or ends in
  one of three exceptions no handler takes: \<open>OverflowError\<close> (an infinite number), the error for
  too deeply nested JSON, and \<open>AttributeError\<close>, which every JSON value other than an object
  gives. \<open>fromisoformat\<close> is assumed to raise nothing but \<open>ValueError\<close>.
\<close>

theorem entry_cursor_outcomes:
  assumes "iso_documented env"
  shows "(case decode_cursor env c of
      Inr _ \<Rightarrow> True
    | Inl e \<Rightarrow> e = HTTPException 400 (Some ''invalid cursor'') \<or>
        (\<exists>x. e = Unhandled x \<and> exn_cls x \<in> {OverflowError, OtherException, AttributeError})) \<and>
    (\<forall>j. decode_payload env c = Inr j \<longrightarrow> (\<nexists>kvs. j = JObj kvs) \<longrightarrow>
       decode_cursor env c = Inl (Unhandled (raise_exn AttributeError)))"
proof -
  let ?cs = "{ValueError, OtherException, KeyError, TypeError, OverflowError, AttributeError}"
  let ?r = "try_bind (decode_payload env c) (\<lambda>payload. try_bind (json_get payload ''p'') (\<lambda>p_raw.
      try_bind (cursor_date env p_raw) (\<lambda>pub. try_bind (json_subscript payload ''i'') (\<lambda>i_raw.
        try_bind (json_int env i_raw) (\<lambda>i. Inr (pub, i))))))"
  have get: "raises_only ?cs (json_get j ''p'')" for j by (auto simp: json_get_def split: json.splits)
  have "raises_only ?cs ?r"
    by (intro raises_only_bind raises_only_mono [OF decode_payload_raises] get
        raises_only_mono [OF cursor_date_raises [OF assms]] raises_only_mono [OF json_subscript_raises]
        raises_only_mono [OF json_int_raises]) auto
  then have "case decode_cursor env c of
      Inr _ \<Rightarrow> True
    | Inl e \<Rightarrow> e = HTTPException 400 (Some ''invalid cursor'') \<or>
        (\<exists>x. e = Unhandled x \<and> exn_cls x \<in> {OverflowError, OtherException, AttributeError})"
    unfolding decode_cursor_def by (cases ?r) (auto simp: bad_cursor_def is_ValueError_def)
  moreover have "decode_cursor env c = Inl (Unhandled (raise_exn AttributeError))"
    if "decode_payload env c = Inr j" "\<nexists>kvs. j = JObj kvs" for j
  proof -
    from that(2) have "json_get j ''p'' = Inl (raise_exn AttributeError)" by (cases j) (simp_all add: json_get_def)
    with that(1) show ?thesis by (simp add: decode_cursor_def bad_cursor_def is_ValueError_def)
  qed
  ultimately show ?thesis by blast
qed

theorem entry_cursor_outcomes_witness:
  "decode_cursor sample_py_env ''W10'' = Inl (Unhandled (raise_exn AttributeError))"
proof -
  have i: "iso_documented sample_py_env" by (simp add: iso_documented_def sample_py_env_def)
  have "decode_payload sample_py_env ''W10'' = Inr (JArr [])" by code_simp
  then show ?thesis using entry_cursor_outcomes [OF i, of "''W10''"] by blast
qed

text \<open>
  The request parameters. A comma-separated list of 32-bit ids, in any order and with
  repetitions, is read back exactly when it is not empty and not longer than the configured
  maximum; a limit above the maximum is a 422 before anything else is looked at.
\<close>

theorem feed_ids_roundtrip:
  assumes "ids \<noteq> []" "list_all int4 ids" "int (length ids) \<le> ec_max_feed_ids cfg"
  shows "feed_ids_param cfg (join_on CHR '','' (map str_of_int ids)) = Inr ids \<and>
    (ec_max_limit cfg < l \<longrightarrow> list_entries env cfg feed_ids cursor (Some l) d =
       Inl (HTTPException 422 (Some (''limit must be less than or equal to '' @ str_of_int (ec_max_limit cfg)))))"
proof -
  have nc: "CHR '','' \<notin> set (str_of_int n)" for n
  proof -
    have "list_all is_digit (decimal \<bar>n\<bar>)" by (rule decimal_digits) simp
    then have "CHR '','' \<notin> set (decimal \<bar>n\<bar>)" by (auto simp: list_all_iff is_digit_def ord_def)
    then show ?thesis by (cases "n < 0") (simp_all add: str_of_int_def)
  qed
  have "parse_feed_ids (map str_of_int ids) = Some ids"
    using assms(2)
  proof (induction ids)
    case (Cons n ns)
    have "py_int (str_of_int n) = Some n" by (rule py_int_str_of_int [OF int4_printable]) (use Cons.prems in simp)
    moreover have "str_of_int n \<noteq> []" using decimal_not_Nil by (simp add: str_of_int_def)
    ultimately show ?case using Cons by simp
  qed simp
  moreover have "split_on CHR '','' (join_on CHR '','' (map str_of_int ids)) = map str_of_int ids"
    by (rule split_join_on) (use assms(1) nc in auto)
  ultimately show ?thesis using assms(1,3) by (simp add: feed_ids_param_def list_entries_def)
qed

theorem feed_ids_roundtrip_witness:
  "feed_ids_param sample_entries_config ''3,-1,3'' = Inr [3, - 1, 3]"
proof -
  have s: "join_on CHR '','' (map str_of_int [3, - 1, 3]) = ''3,-1,3''" by code_simp
  have "feed_ids_param sample_entries_config (join_on CHR '','' (map str_of_int [3, - 1, 3])) = Inr [3, - 1, 3]"
    using feed_ids_roundtrip [of "[3, - 1, 3]" sample_entries_config 201 sample_py_env "[]" None sample_db]
    by (simp add: int4_def sample_entries_config_def)
  then show ?thesis unfolding s .
qed

text \<open>
  An answer holds at most \<open>limit\<close> entries, at most the configured maximum, all of requested
  feeds, and has a cursor only if it is full.
\<close>

theorem entry_pages_bounded:
  assumes "list_entries env cfg feed_ids cursor limit d = Inr p" "0 \<le> page_limit cfg limit"
  shows "int (length (pe_items p)) \<le> page_limit cfg limit \<and> page_limit cfg limit \<le> ec_max_limit cfg \<and>
    (\<exists>ids. feed_ids_param cfg feed_ids = Inr ids \<and> list_all (\<lambda>r. er_feed_id r \<in> set ids) (pe_items p)) \<and>
    (pe_next_cursor p \<noteq> None \<longrightarrow> int (length (pe_items p)) = page_limit cfg limit)"
proof -
  let ?l = "page_limit cfg limit"
  from assms(1) have l: "?l \<le> ec_max_limit cfg"
    by (auto simp: list_entries_def page_limit_def Let_def split: if_splits)
  from assms(1) l obtain ids q where f: "feed_ids_param cfg feed_ids = Inr ids" and p: "select_entries ?l ids q d = Inr p"
    by (auto simp: list_entries_def page_limit_def [symmetric] Let_def try_bind_eq_Inr split: if_splits)
  let ?es = "sort_key entry_order (filter (\<lambda>e. e_feed_id e \<in> set ids \<and> q e) (entries_tbl d))"
  define n where "n = nat ?l"
  have n: "?l = int n" "nat (?l + 1) = n + 1" using assms(2) by (auto simp: n_def)
  have pe: "pe_items p = map entry_response_of (take n (take (n + 1) ?es))"
    and pc: "pe_next_cursor p \<noteq> None \<Longrightarrow> int (length (take (n + 1) ?es)) > int n"
    using p unfolding select_entries_def Let_def n slice_to_nat by (auto split: if_splits)
  have "set (take n (take (n + 1) ?es)) \<subseteq> set ?es" by (meson set_take_subset subset_trans)
  then have "list_all (\<lambda>r. er_feed_id r \<in> set ids) (pe_items p)" by (auto simp: pe list_all_iff)
  moreover have "pe_next_cursor p \<noteq> None \<Longrightarrow> length (pe_items p) = n" using pc by (auto simp: pe)
  ultimately show ?thesis using f l by (auto simp: pe n(1))
qed

theorem entry_pages_bounded_witness:
  "\<exists>p. list_entries sample_py_env sample_entries_config ''1'' None (Some 1) sample_entries_db = Inr p \<and>
     length (pe_items p) \<le> 1"
proof -
  have "\<exists>p. list_entries sample_py_env sample_entries_config ''1'' None (Some 1) sample_entries_db = Inr p"
  proof -
    have "feed_ids_param sample_entries_config ''1'' = Inr [1]" by code_simp
    then show ?thesis
      by (simp add: list_entries_def select_entries_def sample_entries_config_def bind_int4_def int4_def Let_def)
  qed
  then obtain p where "list_entries sample_py_env sample_entries_config ''1'' None (Some 1) sample_entries_db = Inr p" ..
  with entry_pages_bounded [OF this] show ?thesis by (simp add: page_limit_def)
qed

end
