(* ===== verification/Api_App.thy ===== *)
theory Api_App
  imports Api_Feeds Api_Entries
begin

text \<open>
  \<open>api/dependencies.py\<close>, \<open>api/router.py\<close>, \<open>api/middleware.py\<close>: how a request reaches a handler and
  how its result becomes a response. FastAPI's part is fixed as documented for the pinned version:
  the router's dependency (the API key) runs before the parameters are validated and before the
  handler; the code of \<open>get_session\<close> after \<open>yield\<close> runs after the response has been sent, or, when
  the handler raised, before the error is turned into a response. Arguments of a request: what
  pydantic makes of the URL, the clocks, whether slowapi's middleware or the route's own limiter
  refuses it, and whether PostgreSQL accepts the commit.
\<close>

section \<open>Requests and responses\<close>

text \<open>
  The routes of the routers, and the pages \<open>FastAPI(...)\<close> itself adds in \<open>create_app\<close>; what these show
  is the framework's.
\<close>

datatype docs_page = OpenApiJson | SwaggerUi | SwaggerOauth2Redirect | ReDoc

datatype endpoint =
    Healthz
  | MetricsEndpoint
  | ApiDocs docs_page
  | PostFeed url_field
  | GetFeeds "string option" int "feed_status option"
  | GetFeed int
  | DeleteFeed int
  | PostReactivate int
  | GetEntries string "string option" "int option"

record request =
  rq_path :: string
  rq_key :: "string option"
  rq_endpoint :: endpoint

fun route_method :: "endpoint \<Rightarrow> string" where
  "route_method (PostFeed _) = ''POST''"
| "route_method (PostReactivate _) = ''POST''"
| "route_method (DeleteFeed _) = ''DELETE''"
| "route_method _ = ''GET''"

fun docs_path :: "docs_page \<Rightarrow> string" where
  "docs_path OpenApiJson = ''/openapi.json''"
| "docs_path SwaggerUi = ''/docs''"
| "docs_path SwaggerOauth2Redirect = ''/docs/oauth2-redirect''"
| "docs_path ReDoc = ''/redoc''"

fun route_path :: "endpoint \<Rightarrow> string" where
  "route_path Healthz = ''/healthz''"
| "route_path MetricsEndpoint = ''/metrics''"
| "route_path (ApiDocs doc) = docs_path doc"
| "route_path (PostFeed _) = ''/v1/feeds''"
| "route_path (GetFeeds _ _ _) = ''/v1/feeds''"
| "route_path (GetFeed _) = ''/v1/feeds/{feed_id}''"
| "route_path (DeleteFeed _) = ''/v1/feeds/{feed_id}''"
| "route_path (PostReactivate _) = ''/v1/feeds/{feed_id}/reactivate''"
| "route_path (GetEntries _ _ _) = ''/v1/entries''"

text \<open>\<open>register_routers\<close>: which routes carry the API key dependency, and which take a session.\<close>

fun guarded :: "endpoint \<Rightarrow> bool" where
  "guarded Healthz = False"
| "guarded (ApiDocs _) = False"
| "guarded _ = True"

fun has_session :: "endpoint \<Rightarrow> bool" where
  "has_session Healthz = False"
| "has_session MetricsEndpoint = False"
| "has_session (ApiDocs _) = False"
| "has_session _ = True"

datatype reply =
    HealthReply
  | MetricsReply
  | DocsReply docs_page
  | FeedReply feed_response
  | FeedsReply paginated_feeds
  | EntriesReply paginated_entries
  | NoContent

datatype body = ReplyBody reply | ProblemBody problem_response | RateLimitBody | ServerErrorBody

record response =
  rs_status :: int
  rs_body :: body

record api_state =
  st_api_key :: string
  st_feeds_max_limit :: int
  st_entries :: entries_config

record api_env =
  ae_py :: py_env
  ae_http_url :: "url_field \<Rightarrow> string + string"
  ae_dns :: resolver
  ae_now :: instant
  ae_db_now :: instant
  ae_refused :: bool
  ae_route_limited :: bool
  ae_commit :: bool
  ae_duration :: float_val

section \<open>Dependencies\<close>

text \<open>\<open>hmac.compare_digest\<close> takes two ASCII strings; it raises on any other string.\<close>

definition compare_digest :: "string \<Rightarrow> string \<Rightarrow> exn + bool" where
  "compare_digest a b = (if is_ascii a \<and> is_ascii b then Inr (a = b) else Inl (raise_exn TypeError))"

definition invalid_api_key :: api_error where
  "invalid_api_key = HTTPException 401 (Some ''invalid_api_key'')"

definition require_api_key :: "string \<Rightarrow> string option \<Rightarrow> api_error + unit" where
  "require_api_key configured_key header =
     (if configured_key = [] then Inr ()
      else
        (let provided_key = (case header of None \<Rightarrow> [] | Some k \<Rightarrow> k) in
         if provided_key = [] then Inl invalid_api_key
         else (case compare_digest provided_key configured_key of
           Inl e \<Rightarrow> Inl (Unhandled e)
         | Inr same \<Rightarrow> if same then Inr () else Inl invalid_api_key)))"

text \<open>The end of the session: commit after a returned value, rollback after an exception.\<close>

definition get_session :: "bool \<Rightarrow> world \<Rightarrow> (world, api_error, 'a) outcome \<Rightarrow> world" where
  "get_session commit_ok before r = (case r of (w, res) \<Rightarrow>
     if isl res \<or> \<not> commit_ok then w\<lparr>w_db := rollback_to (w_db before) (w_db w)\<rparr> else w)"

section \<open>Handlers\<close>

definition feed_reply :: "(world, api_error, int \<times> feed_response) outcome \<Rightarrow> (world, api_error, int \<times> reply) outcome" where
  "feed_reply r = (fst r, map_sum id (\<lambda>(st, f). (st, FeedReply f)) (snd r))"

definition call_endpoint :: "api_state \<Rightarrow> api_env \<Rightarrow> endpoint \<Rightarrow> world \<Rightarrow> (world, api_error, int \<times> reply) outcome" where
  "call_endpoint st env ep w = (case ep of
     Healthz \<Rightarrow> (w, Inr (200, HealthReply))
   | MetricsEndpoint \<Rightarrow> (w, Inr (200, MetricsReply))
   | ApiDocs doc \<Rightarrow> (w, Inr (200, DocsReply doc))
   | PostFeed field \<Rightarrow>
       (case feed_create (ae_http_url env) field of
          Inl e \<Rightarrow> (w, Inl e)
        | Inr url \<Rightarrow>
            if ae_route_limited env then (w, Inl RateLimitExceeded)
            else feed_reply (create_feed (ae_dns env) (ae_now env) (ae_db_now env) url w))
   | GetFeeds cursor limit status_filter \<Rightarrow>
       (w, map_sum id (\<lambda>p. (200, FeedsReply p))
             (list_feeds (ae_py env) (st_feeds_max_limit st) cursor limit status_filter (w_db w)))
   | GetFeed i \<Rightarrow> (w, map_sum id (\<lambda>f. (200, FeedReply f)) (get_feed i (w_db w)))
   | DeleteFeed i \<Rightarrow> (case delete_feed i w of (w', r) \<Rightarrow> (w', map_sum id (\<lambda>_. (204, NoContent)) r))
   | PostReactivate i \<Rightarrow>
       (case reactivate_feed (ae_now env) i w of (w', r) \<Rightarrow> (w', map_sum id (\<lambda>f. (200, FeedReply f)) r))
   | GetEntries feed_ids cursor limit \<Rightarrow>
       (w, try_bind (limit_param limit) (\<lambda>l. map_sum id (\<lambda>p. (200, EntriesReply p))
             (list_entries (ae_py env) (st_entries st) feed_ids cursor l (w_db w)))))"

section \<open>Responses\<close>

text \<open>
  The response to an error: a registered handler's problem document, slowapi's own 429, or the
  server's 500 for an exception nobody handles (then the exception passes through the middleware).
\<close>

definition error_response :: "string \<Rightarrow> api_error \<Rightarrow> response" where
  "error_response path e = (case exception_handlers path e of
     Some pr \<Rightarrow> \<lparr>rs_status = pr_status pr, rs_body = ProblemBody pr\<rparr>
   | None \<Rightarrow> (case e of
       RateLimitExceeded \<Rightarrow> \<lparr>rs_status = 429, rs_body = RateLimitBody\<rparr>
     | _ \<Rightarrow> \<lparr>rs_status = 500, rs_body = ServerErrorBody\<rparr>))"

fun passes_middleware :: "api_error \<Rightarrow> bool" where
  "passes_middleware (Unhandled _) = True"
| "passes_middleware _ = False"

text \<open>The application below the metrics middleware: the response, or an exception that escapes.\<close>

definition route_request :: "api_state \<Rightarrow> api_env \<Rightarrow> request \<Rightarrow> world \<Rightarrow> world \<times> (response + response)" where
  "route_request st env rq w =
     (let ep = rq_endpoint rq;
          fail = (\<lambda>e. if passes_middleware e then Inl (error_response (rq_path rq) e)
                      else Inr (error_response (rq_path rq) e))
      in if ae_refused env then (w, Inr (error_response (rq_path rq) RateLimitExceeded))
         else (case (if guarded ep then require_api_key (st_api_key st) (rq_key rq) else Inr ()) of
           Inl e \<Rightarrow> (w, fail e)
         | Inr _ \<Rightarrow>
             (let r = call_endpoint st env ep w;
                  w' = (if has_session ep then get_session (ae_commit env) w r else fst r)
              in case snd r of
                   Inl e \<Rightarrow> (w', fail e)
                 | Inr (code, reply) \<Rightarrow> (w', Inr \<lparr>rs_status = code, rs_body = ReplyBody reply\<rparr>))))"

text \<open>
  \<open>MetricsMiddleware.dispatch\<close>. The label is the route's template; a request refused by the
  middleware below has not been routed and is labelled with its own path.
\<close>

definition metrics_events :: "api_env \<Rightarrow> request \<Rightarrow> response \<Rightarrow> event list" where
  "metrics_events env rq rs =
     (let path = (if ae_refused env then rq_path rq else route_path (rq_endpoint rq));
          meth = route_method (rq_endpoint rq)
      in [ApiRequestsTotal meth path (str_of_int (rs_status rs)), ApiDuration meth path (ae_duration env)])"

definition serve :: "api_state \<Rightarrow> api_env \<Rightarrow> request \<Rightarrow> world \<Rightarrow> world \<times> response" where
  "serve st env rq w =
     (case route_request st env rq w of
        (w', Inl rs) \<Rightarrow> (w', rs)
      | (w', Inr rs) \<Rightarrow>
          if rq_path rq = ''/metrics'' then (w', rs) else (emit (metrics_events env rq rs) w', rs))"

section \<open>Facts\<close>

lemma rollback_to_rows [simp]:
  "feeds_tbl (rollback_to d d') = feeds_tbl d" "entries_tbl (rollback_to d d') = entries_tbl d"
  by (simp_all add: rollback_to_def)

lemma serve_db: "w_db (fst (serve st env rq w)) = w_db (fst (route_request st env rq w))"
  by (auto simp: serve_def split: prod.splits sum.splits)

lemma error_response_status: "\<not> (\<exists>c d. e = HTTPException c d \<and> c < 400) \<Longrightarrow> 400 \<le> rs_status (error_response p e)"
  by (cases e) (auto simp: error_response_def exception_handlers_def http_exception_handler_def
      validation_exception_handler_def Let_def)

text \<open>The successful statuses of the handlers.\<close>

lemma create_feed_status: "create_feed dns now db_now u w = (w1, Inr (st, r)) \<Longrightarrow> st = 200 \<or> st = 201"
  by (erule create_feed_returns) (auto simp: Let_def split: option.splits)

lemma map_sum_eq_Inr: "map_sum id f r = Inr x \<longleftrightarrow> (\<exists>a. r = Inr a \<and> f a = x)"
  by (cases r) auto

lemma call_endpoint_status:
  assumes "snd (call_endpoint st env ep w) = Inr (code, reply)"
  shows "200 \<le> code \<and> code < 300"
proof (cases ep)
  case (PostFeed field)
  with assms obtain u f where "snd (create_feed (ae_dns env) (ae_now env) (ae_db_now env) u w) = Inr (code, f)"
    by (auto simp: call_endpoint_def feed_reply_def map_sum_eq_Inr split: sum.splits if_splits)
  then have "code = 200 \<or> code = 201" by (metis create_feed_status prod.collapse)
  then show ?thesis by auto
next
  case (DeleteFeed i)
  with assms show ?thesis by (auto simp: call_endpoint_def map_sum_eq_Inr split: prod.splits)
next
  case (PostReactivate i)
  with assms show ?thesis by (auto simp: call_endpoint_def map_sum_eq_Inr split: prod.splits)
next
  case (GetEntries a b c)
  with assms show ?thesis by (auto simp: call_endpoint_def map_sum_eq_Inr try_bind_eq_Inr)
qed (use assms in \<open>auto simp: call_endpoint_def map_sum_eq_Inr\<close>)

section \<open>What a request does to the database\<close>

text \<open>
  Ids are handed out once: a row found later under an id handed out earlier is the row that had
  it. Deletion may remove rows, creation adds rows with new ids.
\<close>

definition ages :: "db \<Rightarrow> db \<Rightarrow> bool" where
  "ages d d' \<longleftrightarrow> feeds_seq d \<le> feeds_seq d' \<and> entries_seq d \<le> entries_seq d' \<and>
     (\<forall>g \<in> set (feeds_tbl d'). f_id g < feeds_seq d \<longrightarrow> (\<exists>f \<in> set (feeds_tbl d). same_identity f g)) \<and>
     (\<forall>e \<in> set (entries_tbl d'). e_id e < entries_seq d \<longrightarrow> row_identity e \<in> row_identity ` set (entries_tbl d))"

lemma same_identity_mem [intro]: "g \<in> S \<Longrightarrow> \<exists>f \<in> S. same_identity f g"
  using same_identity_refl by blast

lemma row_identity_id: "row_identity e = row_identity e' \<Longrightarrow> e_id e = e_id e'"
  by (simp add: row_identity_def)

interpretation ageing: state_evolution ages
proof
  show "ages d d" for d by (auto simp: ages_def)
  fix d d' d''
  assume a: "ages d d'" and b: "ages d' d''"
  have "\<exists>f \<in> set (feeds_tbl d). same_identity f g" if g: "g \<in> set (feeds_tbl d'')" "f_id g < feeds_seq d" for g
  proof -
    from g a b obtain h where h: "h \<in> set (feeds_tbl d')" "same_identity h g" by (force simp: ages_def)
    then have "f_id h < feeds_seq d" using g(2) by (simp add: same_identity_def)
    with h a show ?thesis by (meson ages_def same_identity_trans)
  qed
  moreover have "row_identity e \<in> row_identity ` set (entries_tbl d)"
    if e: "e \<in> set (entries_tbl d'')" "e_id e < entries_seq d" for e
  proof -
    from e a b obtain h where h: "h \<in> set (entries_tbl d')" "row_identity e = row_identity h" by (force simp: ages_def)
    then have "e_id h < entries_seq d" using e(2) row_identity_id by metis
    with h a show ?thesis by (simp add: ages_def)
  qed
  ultimately show "ages d d''" using a b by (auto simp: ages_def)
qed

lemma ages_rollback:
  "feeds_seq d \<le> feeds_seq d' \<Longrightarrow> entries_seq d \<le> entries_seq d' \<Longrightarrow> ages d (rollback_to d d')"
  by (auto simp: ages_def rollback_to_def)

lemma ages_cascade: "ages d (cascade_delete d i)"
  by (auto simp: ages_def cascade_delete_def)

lemma ages_insert:
  "f_id f = feeds_seq d \<Longrightarrow> ages d (d\<lparr>feeds_seq := feeds_seq d + 1, feeds_tbl := feeds_tbl d @ [f]\<rparr>)"
  by (auto simp: ages_def)

lemma ages_flush:
  assumes "feed_by_id d i = Some f" "same_identity f g"
  shows "ages d (flush_feed d g)"
proof -
  have "f \<in> set (feeds_tbl d)" using assms(1) by (simp add: feed_by_id_Some)
  then show ?thesis
    using assms(2) by (auto simp: ages_def flush_feed_def table_simps)
qed

text \<open>What every handler promises of its session's state, also when it raises.\<close>

definition handler_ok :: "world \<Rightarrow> (world, api_error, 'a) outcome \<Rightarrow> bool" where
  "handler_ok w r \<longleftrightarrow> feeds_seq (w_db w) \<le> feeds_seq (w_db (fst r)) \<and> entries_seq (w_db w) \<le> entries_seq (w_db (fst r)) \<and>
     (\<not> isl (snd r) \<longrightarrow> db_ok (w_db (fst r)) \<and> ages (w_db w) (w_db (fst r)))"

lemma handler_ok_same: "db_ok (w_db w) \<Longrightarrow> w_db (fst r) = w_db w \<Longrightarrow> handler_ok w r"
  by (simp add: handler_ok_def ageing.evolve_refl)

lemma create_feed_ok:
  assumes "db_ok (w_db w)"
  shows "handler_ok w (create_feed dns now db_now u w)"
proof (cases "create_feed dns now db_now u w")
  case (Pair w1 res)
  show ?thesis
  proof (cases res)
    case (Inl e)
    have "feeds_seq (w_db w) \<le> feeds_seq (w_db w1) \<and> entries_seq (w_db w) = entries_seq (w_db w1)"
      using Pair by (auto simp: create_feed_def insert_feed_def Let_def and_then_def split: sum.splits option.splits if_splits)
    with Pair Inl show ?thesis by (simp add: handler_ok_def)
  next
    case (Inr sr)
    then obtain st r where c: "create_feed dns now db_now u w = (w1, Inr (st, r))" using Pair by (cases sr) simp
    have "db_ok (w_db w1) \<and> ages (w_db w) (w_db w1) \<and> feeds_seq (w_db w) \<le> feeds_seq (w_db w1) \<and>
        entries_seq (w_db w) \<le> entries_seq (w_db w1)"
    proof (rule create_feed_returns [OF c])
      fix v
      assume r: "case feed_by_url (w_db w) v of
          Some f \<Rightarrow> st = 200 \<and> r = feed_response_of f \<and> w_db w1 = (w_db w)\<lparr>feeds_seq := feeds_seq (w_db w) + 1\<rparr>
        | None \<Rightarrow> (let f = new_feed (feeds_seq (w_db w)) v now db_now in
            st = 201 \<and> r = feed_response_of f \<and>
            w_db w1 = (w_db w)\<lparr>feeds_seq := feeds_seq (w_db w) + 1, feeds_tbl := feeds_tbl (w_db w) @ [f]\<rparr>)"
      show ?thesis
      proof (cases "feed_by_url (w_db w) v")
        case None
        with r assms show ?thesis
          by (simp add: Let_def db_ok_insert_feed [OF assms None] ages_insert)
      next
        case (Some f)
        have "ages (w_db w) ((w_db w)\<lparr>feeds_seq := feeds_seq (w_db w) + 1\<rparr>)" by (auto simp: ages_def)
        with Some r assms show ?thesis by (simp add: db_ok_bump)
      qed
    qed
    with Pair Inr show ?thesis by (simp add: handler_ok_def)
  qed
qed

lemma delete_feed_ok: "db_ok (w_db w) \<Longrightarrow> handler_ok w (delete_feed i w)"
  by (auto simp: delete_feed_def handler_ok_def db_ok_cascade_delete ages_cascade ageing.evolve_refl
      split: sum.splits option.splits) (simp_all add: cascade_delete_def)

lemma reactivate_feed_ok:
  assumes "db_ok (w_db w)"
  shows "handler_ok w (reactivate_feed now i w)"
proof (cases "int4 i")
  case True
  show ?thesis
  proof (cases "feed_by_id (w_db w) i")
    case (Some f)
    show ?thesis
      unfolding reactivate_feed_found [OF True Some] handler_ok_def
      using reactivate_op.op_keeps_row [OF assms Some, of now "w_events w"]
        ages_flush [OF Some reactivate_op.op_identity, of now "w_events w"] by simp
  qed (use True assms in \<open>simp add: reactivate_feed_def select_feed_int4 handler_ok_def\<close>)
qed (use assms in \<open>simp add: reactivate_feed_def select_feed_def bind_int4_def handler_ok_def\<close>)

lemma call_endpoint_ok:
  assumes "db_ok (w_db w)"
  shows "handler_ok w (call_endpoint st env ep w)"
proof (cases ep)
  case (PostFeed field)
  have "handler_ok w (feed_reply (create_feed (ae_dns env) (ae_now env) (ae_db_now env) u w))" for u
    using create_feed_ok [OF assms, of "ae_dns env" "ae_now env" "ae_db_now env" u]
    by (simp add: handler_ok_def feed_reply_def isl_map_sum)
  with PostFeed show ?thesis
    by (auto simp: call_endpoint_def handler_ok_same [OF assms] split: sum.splits)
next
  case (DeleteFeed i)
  then show ?thesis
    using delete_feed_ok [OF assms, of i]
    by (cases "delete_feed i w") (simp add: call_endpoint_def handler_ok_def isl_map_sum)
next
  case (PostReactivate i)
  then show ?thesis
    using reactivate_feed_ok [OF assms, of "ae_now env" i]
    by (cases "reactivate_feed (ae_now env) i w") (simp add: call_endpoint_def handler_ok_def isl_map_sum)
qed (simp_all add: call_endpoint_def handler_ok_same [OF assms])

lemma get_session_ok:
  assumes "db_ok (w_db w)" "handler_ok w r"
  shows "db_ok (w_db (get_session c w r)) \<and> ages (w_db w) (w_db (get_session c w r))"
  using assms db_ok_rollback_to [OF assms(1)] ages_rollback
  by (cases r) (auto simp: get_session_def handler_ok_def)

lemma no_session_db: "\<not> has_session ep \<Longrightarrow> w_db (fst (call_endpoint st env ep w)) = w_db w"
  by (cases ep) (simp_all add: call_endpoint_def)

text \<open>Every request keeps the constraints and the identity of what ids denote.\<close>

lemma serve_keeps_database:
  assumes "db_ok (w_db w)"
  shows "db_ok (w_db (fst (serve st env rq w)))" "ages (w_db w) (w_db (fst (serve st env rq w)))"
proof -
  let ?r = "call_endpoint st env (rq_endpoint rq) w"
  have "w_db (fst (route_request st env rq w)) = w_db w \<or>
      w_db (fst (route_request st env rq w)) = w_db (get_session (ae_commit env) w ?r)"
    using no_session_db [of "rq_endpoint rq" st env w]
    by (auto simp: route_request_def Let_def split: sum.splits prod.splits)
  then show "db_ok (w_db (fst (serve st env rq w)))" "ages (w_db w) (w_db (fst (serve st env rq w)))"
    using assms get_session_ok [OF assms call_endpoint_ok [OF assms, of st env "rq_endpoint rq"], of "ae_commit env"]
    by (auto simp: serve_db ageing.evolve_refl)
qed

section \<open>Facts: responses and counters\<close>

text \<open>The requests counted by the middleware, with method, path label and status.\<close>

fun api_counts :: "event list \<Rightarrow> (string \<times> string \<times> string) list" where
  "api_counts [] = []"
| "api_counts (ApiRequestsTotal m p c # es) = (m, p, c) # api_counts es"
| "api_counts (_ # es) = api_counts es"

lemma api_counts_append [simp]: "api_counts (xs @ ys) = api_counts xs @ api_counts ys"
  by (induction xs rule: api_counts.induct) auto

lemma create_feed_events: "w_events (fst (create_feed dns now db_now u w)) = w_events w"
  by (auto simp: create_feed_def Let_def and_then_def split: sum.splits option.splits prod.splits)

lemma delete_feed_events: "w_events (fst (delete_feed i w)) = w_events w"
  by (auto simp: delete_feed_def split: sum.splits option.splits)

lemma reactivate_counts: "api_counts (snd (reactivate now f ev)) = api_counts ev"
  by (simp add: reactivate_def transition_feed_def)

lemma reactivate_feed_counts: "api_counts (w_events (fst (reactivate_feed now i w))) = api_counts (w_events w)"
  using reactivate_counts by (auto simp: reactivate_feed_def Let_def split: sum.splits option.splits prod.splits)
    (metis snd_conv)+

lemma call_endpoint_counts: "api_counts (w_events (fst (call_endpoint st env ep w))) = api_counts (w_events w)"
proof (cases ep)
  case (PostFeed field)
  then show ?thesis by (auto simp: call_endpoint_def feed_reply_def create_feed_events split: sum.splits)
next
  case (DeleteFeed i)
  then show ?thesis
    using delete_feed_events [of i w] by (cases "delete_feed i w") (simp add: call_endpoint_def)
next
  case (PostReactivate i)
  then show ?thesis
    using reactivate_feed_counts [of "ae_now env" i w]
    by (cases "reactivate_feed (ae_now env) i w") (simp add: call_endpoint_def)
qed (simp_all add: call_endpoint_def)

lemma get_session_events: "w_events (get_session c w r) = w_events (fst r)"
  by (cases r) (simp add: get_session_def)

lemma route_request_counts: "api_counts (w_events (fst (route_request st env rq w))) = api_counts (w_events w)"
  by (auto simp: route_request_def Let_def get_session_events call_endpoint_counts split: sum.splits prod.splits)

text \<open>A request by its outcome: refused by the limiter, refused by the key, failed or answered.\<close>

lemma route_request_cases:
  fixes st env rq w
  defines "r \<equiv> call_endpoint st env (rq_endpoint rq) w"
  defines "key \<equiv> (if guarded (rq_endpoint rq) then require_api_key (st_api_key st) (rq_key rq) else Inr ())"
  obtains (limited) "ae_refused env" "route_request st env rq w = (w, Inr (error_response (rq_path rq) RateLimitExceeded))"
  | (denied) e where "\<not> ae_refused env" "key = Inl e"
      "route_request st env rq w = (w, if passes_middleware e then Inl (error_response (rq_path rq) e)
         else Inr (error_response (rq_path rq) e))"
  | (failed) e where "\<not> ae_refused env" "key = Inr ()" "snd r = Inl e"
      "route_request st env rq w = (if has_session (rq_endpoint rq) then get_session (ae_commit env) w r else fst r,
         if passes_middleware e then Inl (error_response (rq_path rq) e) else Inr (error_response (rq_path rq) e))"
  | (answered) code reply where "\<not> ae_refused env" "key = Inr ()" "snd r = Inr (code, reply)"
      "route_request st env rq w = (if has_session (rq_endpoint rq) then get_session (ae_commit env) w r else fst r,
         Inr \<lparr>rs_status = code, rs_body = ReplyBody reply\<rparr>)"
proof (cases "ae_refused env")
  case True
  then show ?thesis by (intro limited) (simp_all add: route_request_def)
next
  case refused: False
  show ?thesis
  proof (cases key)
    case (Inl e)
    with refused show ?thesis by (intro denied) (simp_all add: route_request_def key_def)
  next
    case (Inr u)
    show ?thesis
    proof (cases "snd r")
      case (Inl e)
      with refused Inr show ?thesis
        by (intro failed [of e]) (simp_all add: route_request_def key_def r_def Let_def)
    next
      case (Inr cr)
      obtain c y where "cr = (c, y)" by (cases cr)
      with refused Inr \<open>key = Inr u\<close> show ?thesis
        by (intro answered [of c y]) (simp_all add: route_request_def key_def r_def Let_def)
    qed
  qed
qed

lemma read_only: "route_method ep = ''GET'' \<Longrightarrow> w_db (fst (call_endpoint st env ep w)) = w_db w"
  by (cases ep) (simp_all add: call_endpoint_def)

lemma rows_unless_committed:
  "(let (w', rs) = serve st env rq w in
    (feeds_tbl (w_db w') = feeds_tbl (w_db w) \<and> entries_tbl (w_db w') = entries_tbl (w_db w)) \<or>
    (route_method (rq_endpoint rq) \<noteq> ''GET'' \<and> 200 \<le> rs_status rs \<and> rs_status rs < 300 \<and> ae_commit env \<and>
     (st_api_key st = [] \<or> rq_key rq = Some (st_api_key st))))"
proof -
  let ?w = "fst (route_request st env rq w)" and ?rs = "snd (serve st env rq w)"
  have key: "st_api_key st = [] \<or> rq_key rq = Some (st_api_key st)"
    if "(if guarded (rq_endpoint rq) then require_api_key (st_api_key st) (rq_key rq) else Inr ()) = Inr ()"
      "route_method (rq_endpoint rq) \<noteq> ''GET''"
    using that by (cases "rq_endpoint rq")
      (auto simp: require_api_key_def compare_digest_def Let_def split: if_splits option.splits)
  have "(feeds_tbl (w_db ?w) = feeds_tbl (w_db w) \<and> entries_tbl (w_db ?w) = entries_tbl (w_db w)) \<or>
    (route_method (rq_endpoint rq) \<noteq> ''GET'' \<and> 200 \<le> rs_status ?rs \<and> rs_status ?rs < 300 \<and> ae_commit env \<and>
     (st_api_key st = [] \<or> rq_key rq = Some (st_api_key st)))"
  proof (cases rule: route_request_cases [where st = st and env = env and rq = rq and w = w])
    case (failed e)
    have "\<not> has_session (rq_endpoint rq) \<Longrightarrow> w_db (fst (call_endpoint st env (rq_endpoint rq) w)) = w_db w"
      by (rule no_session_db)
    moreover have "isl (snd (call_endpoint st env (rq_endpoint rq) w))" by (simp add: failed(3))
    ultimately show ?thesis unfolding failed(4) by (auto simp: get_session_def split_beta)
  next
    case (answered code reply)
    have rs: "rs_status ?rs = code" by (simp add: serve_def answered(4) split: prod.splits)
    show ?thesis
    proof (cases "route_method (rq_endpoint rq) = ''GET''")
      case True
      from read_only [OF True, of st env w] show ?thesis
        unfolding answered(4) by (auto simp: get_session_def split_beta)
    next
      case False
      then have hs: "has_session (rq_endpoint rq)" by (cases "rq_endpoint rq") simp_all
      have "w_db ?w = rollback_to (w_db w) (w_db (fst (call_endpoint st env (rq_endpoint rq) w)))" if "\<not> ae_commit env"
        unfolding answered(4) using that hs by (simp add: get_session_def split_beta)
      with rs call_endpoint_status [OF answered(3)] key [OF answered(2) False] False
      show ?thesis by (cases "ae_commit env") simp_all
    qed
  qed simp_all
  then show ?thesis by (simp add: serve_db split_beta)
qed

section \<open>Properties\<close>

text \<open>
  C12: Requests are atomic. Whatever the request, either no row of the database changes, or it is a
  writing request that carried the configured key, was answered with a 2xx status and committed.
  In particular a response with an error status means nothing was written.
\<close>

theorem requests_are_atomic:
  "(let (w', rs) = serve st env rq w in
    (feeds_tbl (w_db w') = feeds_tbl (w_db w) \<and> entries_tbl (w_db w') = entries_tbl (w_db w)) \<or>
    (route_method (rq_endpoint rq) \<noteq> ''GET'' \<and> 200 \<le> rs_status rs \<and> rs_status rs < 300 \<and> ae_commit env \<and>
     (st_api_key st = [] \<or> rq_key rq = Some (st_api_key st))))"
  by (rule rows_unless_committed)

text \<open>
  C25: The API key, for a request the rate limiter lets through while a key is configured. The health
  check and the pages of the framework (\<open>/docs\<close>, \<open>/docs/oauth2-redirect\<close>, \<open>/redoc\<close>, \<open>/openapi.json\<close>)
  never ask for one. Any other request is served as if no key were configured if it carries
  exactly the key and the key is ASCII; otherwise it leaves the database as it was and is answered
  401, or 500 when it carries a header and the header or the configured key has a character beyond
  ASCII. So a key with such a character locks everybody out, its owner included.
\<close>

theorem api_key_enforced:
  assumes "st_api_key st \<noteq> []" "\<not> ae_refused env"
  shows "if (case rq_endpoint rq of Healthz \<Rightarrow> True | ApiDocs _ \<Rightarrow> True | _ \<Rightarrow> False) \<or>
      rq_key rq = Some (st_api_key st) \<and> is_ascii (st_api_key st)
    then serve st env rq w = serve (st\<lparr>st_api_key := []\<rparr>) env rq w
    else w_db (fst (serve st env rq w)) = w_db w \<and>
      rs_status (snd (serve st env rq w)) =
        (if rq_key rq \<in> {None, Some []} \<or> is_ascii (the (rq_key rq)) \<and> is_ascii (st_api_key st) then 401 else 500)"
    (is "if ?passes then _ else _")
proof -
  have free: "guarded ep \<longleftrightarrow> \<not> (case ep of Healthz \<Rightarrow> True | ApiDocs _ \<Rightarrow> True | _ \<Rightarrow> False)" for ep
    by (cases ep) simp_all
  show ?thesis
  proof (cases ?passes)
    case True
    then have key: "(if guarded (rq_endpoint rq) then require_api_key (st_api_key st) (rq_key rq) else Inr ()) = Inr ()"
      using assms(1) by (auto simp: free require_api_key_def compare_digest_def)
    have c: "call_endpoint (st\<lparr>st_api_key := []\<rparr>) env ep w = call_endpoint st env ep w" for ep
      by (cases ep) (simp_all add: call_endpoint_def)
    have k: "(if guarded ep then require_api_key (st_api_key (st\<lparr>st_api_key := []\<rparr>)) (rq_key rq) else Inr ()) = Inr ()" for ep
      by (simp add: require_api_key_def)
    have "route_request (st\<lparr>st_api_key := []\<rparr>) env rq w = route_request st env rq w"
      unfolding route_request_def Let_def c key k by (rule refl)
    with True show ?thesis by (simp add: serve_def)
  next
    case False
    let ?e = "if rq_key rq \<in> {None, Some []} \<or> is_ascii (the (rq_key rq)) \<and> is_ascii (st_api_key st)
      then invalid_api_key else Unhandled (raise_exn TypeError)"
    have g: "guarded (rq_endpoint rq)" using False free [of "rq_endpoint rq"] by blast
    have "require_api_key (st_api_key st) (rq_key rq) = Inl ?e"
      using False assms(1) by (auto simp: require_api_key_def compare_digest_def Let_def split: option.splits)
    then have r: "route_request st env rq w = (w, if passes_middleware ?e then Inl (error_response (rq_path rq) ?e)
        else Inr (error_response (rq_path rq) ?e))"
      using g assms(2) by (simp add: route_request_def Let_def)
    then have "w_db (fst (serve st env rq w)) = w_db w" by (simp add: serve_db)
    moreover have "rs_status (snd (serve st env rq w)) =
        (if rq_key rq \<in> {None, Some []} \<or> is_ascii (the (rq_key rq)) \<and> is_ascii (st_api_key st) then 401 else 500)"
      unfolding serve_def r
      by (simp add: error_response_def exception_handlers_def http_exception_handler_def invalid_api_key_def Let_def)
    ultimately show ?thesis unfolding if_not_P [OF False] by (rule conjI)
  qed
qed

definition sample_api_state :: api_state where
  "sample_api_state = \<lparr>st_api_key = ''secret'', st_feeds_max_limit = 200, st_entries = sample_entries_config\<rparr>"

definition sample_api_env :: api_env where
  "sample_api_env = \<lparr>ae_py = sample_py_env,
     ae_http_url = (\<lambda>f. case f of UrlText u \<Rightarrow> Inr u | _ \<Rightarrow> Inl ''URL input should be a string or URL''),
     ae_dns = (\<lambda>_. Inr []), ae_now = 7, ae_db_now = 8, ae_refused = False, ae_route_limited = False,
     ae_commit = True, ae_duration = 0\<rparr>"

theorem api_key_enforced_witness:
  "rs_status (snd (serve sample_api_state sample_api_env
     \<lparr>rq_path = ''/v1/feeds/1'', rq_key = Some ''guess'', rq_endpoint = DeleteFeed 1\<rparr> sample_api_world)) = 401 \<and>
   rs_status (snd (serve sample_api_state sample_api_env
     \<lparr>rq_path = ''/v1/feeds/1'', rq_key = Some [CHR 0xE9], rq_endpoint = DeleteFeed 1\<rparr> sample_api_world)) = 500"
proof -
  have s: "st_api_key sample_api_state \<noteq> []" "\<not> ae_refused sample_api_env"
    by (simp_all add: sample_api_state_def sample_api_env_def)
  have k: "st_api_key sample_api_state = ''secret''" by (simp add: sample_api_state_def)
  have a: "is_ascii ''guess''" "is_ascii ''secret''" "\<not> is_ascii [CHR 0xE9]" by (simp_all add: is_ascii_def ord_def)
  show ?thesis
    using api_key_enforced [OF s, of "\<lparr>rq_path = ''/v1/feeds/1'', rq_key = Some ''guess'', rq_endpoint = DeleteFeed 1\<rparr>" sample_api_world]
      api_key_enforced [OF s, of "\<lparr>rq_path = ''/v1/feeds/1'', rq_key = Some [CHR 0xE9], rq_endpoint = DeleteFeed 1\<rparr>" sample_api_world]
      k a by simp
qed

text \<open>
  Every request is counted once, under its method and status, except the scrapes of
  \<open>/metrics\<close> and the requests that end in the server's 500: an exception that no handler takes
  passes through the middleware before the counter is incremented.
\<close>

theorem requests_counted_once:
  "(let (w', rs) = serve st env rq w;
        path = (if ae_refused env then rq_path rq else route_path (rq_endpoint rq))
    in api_counts (w_events w') = api_counts (w_events w) @
         (if rq_path rq = ''/metrics'' \<or> rs_body rs = ServerErrorBody then []
          else [(route_method (rq_endpoint rq), path, str_of_int (rs_status rs))]))"
proof -
  let ?r = "route_request st env rq w"
  have counts: "api_counts (w_events (fst ?r)) = api_counts (w_events w)" by (rule route_request_counts)
  have kind: "isl (snd ?r) \<longleftrightarrow> rs_body (case snd ?r of Inl rs \<Rightarrow> rs | Inr rs \<Rightarrow> rs) = ServerErrorBody"
  proof -
    have err: "passes_middleware e \<longleftrightarrow> rs_body (error_response (rq_path rq) e) = ServerErrorBody" for e
      by (cases e) (simp_all add: error_response_def exception_handlers_def)
    have "rs_body (error_response (rq_path rq) RateLimitExceeded) \<noteq> ServerErrorBody" using err by force
    then show ?thesis by (cases rule: route_request_cases [where st = st and env = env and rq = rq and w = w]) (simp_all add: err)
  qed
  show ?thesis
  proof (cases "snd ?r")
    case (Inl rs)
    with kind counts show ?thesis by (simp add: serve_def split_beta Let_def)
  next
    case (Inr rs)
    with kind counts show ?thesis by (simp add: serve_def split_beta Let_def metrics_events_def)
  qed
qed

text \<open>
  The session is committed after the response has been sent, so a failing commit is invisible
  to the client: the response is the one of the successful commit, and no row has changed.
\<close>

theorem commit_failure_is_invisible:
  assumes "\<not> ae_commit env"
  shows "snd (serve st env rq w) = snd (serve st (env\<lparr>ae_commit := True\<rparr>) rq w) \<and>
    feeds_tbl (w_db (fst (serve st env rq w))) = feeds_tbl (w_db w) \<and>
    entries_tbl (w_db (fst (serve st env rq w))) = entries_tbl (w_db w)"
proof -
  have c: "call_endpoint st (env\<lparr>ae_commit := True\<rparr>) ep w = call_endpoint st env ep w" for ep
    by (cases ep) (simp_all add: call_endpoint_def split: sum.split)
  have "snd (route_request st (env\<lparr>ae_commit := True\<rparr>) rq w) = snd (route_request st env rq w)"
    by (cases rule: route_request_cases [where st = st and env = env and rq = rq and w = w]) (simp_all add: route_request_def Let_def c)
  then have "snd (serve st (env\<lparr>ae_commit := True\<rparr>) rq w) = snd (serve st env rq w)"
    by (cases "route_request st env rq w"; cases "route_request st (env\<lparr>ae_commit := True\<rparr>) rq w")
      (auto simp: serve_def split: sum.splits)
  then show ?thesis using rows_unless_committed [of st env rq w] assms by (simp add: split_beta)
qed

theorem commit_failure_is_invisible_witness:
  "rs_status (snd (serve sample_api_state (sample_api_env\<lparr>ae_commit := False\<rparr>)
     \<lparr>rq_path = ''/v1/feeds/1'', rq_key = Some ''secret'', rq_endpoint = DeleteFeed 1\<rparr> sample_api_world)) = 204 \<and>
   feeds_tbl (w_db (fst (serve sample_api_state (sample_api_env\<lparr>ae_commit := False\<rparr>)
     \<lparr>rq_path = ''/v1/feeds/1'', rq_key = Some ''secret'', rq_endpoint = DeleteFeed 1\<rparr> sample_api_world))) = [sample_feed]"
proof -
  let ?rq = "\<lparr>rq_path = ''/v1/feeds/1'', rq_key = Some ''secret'', rq_endpoint = DeleteFeed 1\<rparr>"
  let ?env = "sample_api_env\<lparr>ae_commit := False\<rparr>"
  have a: "is_ascii ''secret''" by (simp add: is_ascii_def ord_def)
  have k: "require_api_key ''secret'' (Some ''secret'') = Inr ()"
    unfolding require_api_key_def compare_digest_def using a by simp
  have d: "\<exists>w'. delete_feed 1 sample_api_world = (w', Inr ())"
    by (auto simp: delete_feed_def select_feed_int4 int4_def split: option.splits)
  then have "rs_status (snd (serve sample_api_state (?env\<lparr>ae_commit := True\<rparr>) ?rq sample_api_world)) = 204"
    by (auto simp: serve_def route_request_def sample_api_state_def sample_api_env_def k call_endpoint_def Let_def)
  moreover have "\<not> ae_commit ?env" by simp
  ultimately show ?thesis
    using commit_failure_is_invisible [of ?env sample_api_state ?rq sample_api_world]
    by (simp add: sample_api_world_def sample_db_def)
qed

end
