(* ===== verification/Interleaving.thy ===== *)
theory Interleaving
  imports Scheduler Api_App
begin

text \<open>
  \<open>_process_feed\<close> with what other sessions do while it waits for the network. The session reads
  the row of its feed and the weekly count at one moment and writes at a later one; in between
  API requests, other workers and the sweeper commit. \<open>depart\<close> is the part up to the count,
  \<open>land\<close> everything after the last network wait, with the commit. PostgreSQL runs at
  \<open>READ COMMITTED\<close>, so every later statement of the session sees the database of its own moment,
  which is the argument of \<open>land\<close>; the statements of \<open>land\<close> itself are not interleaved.

  A flush of the ORM writes the columns of the object that differ from the loaded ones and no
  others (\<open>merge_row\<close>), emits nothing when none differs, and raises \<open>StaleDataError\<close> when the row
  is gone (\<open>write_back\<close>). An entry cannot be inserted for a feed that is gone (\<open>env_at\<close>, the
  foreign key).
\<close>

section \<open>The two halves of a session\<close>

record flight =
  fl_loaded :: feed
  fl_weekly :: int
  fl_now :: instant

definition depart :: "feed_env \<Rightarrow> instant \<Rightarrow> int \<Rightarrow> world \<Rightarrow> (world, exn, flight option) outcome" where
  "depart fe now feed_id w =
     (emit [InflightFetches 1] w,
      case fe_load fe of
        Inl e \<Rightarrow> Inl e
      | Inr _ \<Rightarrow>
          (case feed_by_id (w_db w) feed_id of
             None \<Rightarrow> Inr None
           | Some feed \<Rightarrow>
               try_bind (week_before now) (\<lambda>cutoff.
                 Inr (Some \<lparr>fl_loaded = feed, fl_weekly = weekly_entry_count (w_db w) (f_id feed) cutoff, fl_now = now\<rparr>))))"

definition resume_fetch ::
  "fetch_env \<Rightarrow> fetch_config \<Rightarrow> instant \<Rightarrow> int \<Rightarrow> fetch_state \<Rightarrow> (fetch_state, exn, unit) outcome" where
  "resume_fetch env cfg now weekly s =
     (case attempt env cfg now weekly s of
        (s', Inr True) \<Rightarrow> (s', Inr ())
      | (s', Inr False) \<Rightarrow> schedule_next env cfg now weekly s'
      | (s', Inl e) \<Rightarrow>
          if caught e
          then and_then (record_failure env cfg now e s') (\<lambda>s2 _. schedule_next env cfg now weekly s2)
          else (s', Inl e))"

definition env_at :: "db \<Rightarrow> int \<Rightarrow> fetch_env \<Rightarrow> fetch_env" where
  "env_at d feed_id env = (if feed_by_id d feed_id = None then env\<lparr>env_accepts := (\<lambda>_. False)\<rparr> else env)"

definition merge_column :: "(feed \<Rightarrow> 'c) \<Rightarrow> feed \<Rightarrow> feed \<Rightarrow> feed \<Rightarrow> 'c" where
  "merge_column col loaded obj row = (if col obj = col loaded then col row else col obj)"

definition merge_row :: "feed \<Rightarrow> feed \<Rightarrow> feed \<Rightarrow> feed" where
  "merge_row loaded obj row =
     \<lparr>f_id = merge_column f_id loaded obj row,
      f_url = merge_column f_url loaded obj row,
      f_effective_url = merge_column f_effective_url loaded obj row,
      f_title = merge_column f_title loaded obj row,
      f_status = merge_column f_status loaded obj row,
      f_last_successful_fetch_at = merge_column f_last_successful_fetch_at loaded obj row,
      f_last_attempt_at = merge_column f_last_attempt_at loaded obj row,
      f_last_error_code = merge_column f_last_error_code loaded obj row,
      f_created_at = merge_column f_created_at loaded obj row,
      f_next_fetch_at = merge_column f_next_fetch_at loaded obj row,
      f_consecutive_failures = merge_column f_consecutive_failures loaded obj row,
      f_etag = merge_column f_etag loaded obj row,
      f_last_modified = merge_column f_last_modified loaded obj row\<rparr>"

definition write_back :: "feed \<Rightarrow> feed \<Rightarrow> db \<Rightarrow> exn + db" where
  "write_back loaded obj d =
     (if obj = loaded then Inr d
      else (case feed_by_id d (f_id loaded) of
              None \<Rightarrow> Inl (raise_exn OtherException)
            | Some row \<Rightarrow> Inr (flush_feed d (merge_row loaded obj row))))"

text \<open>As in \<open>process_body\<close>, the state is the world a rollback leaves and the world that is committed.\<close>

definition land :: "feed_env \<Rightarrow> fetch_config \<Rightarrow> flight \<Rightarrow> world \<Rightarrow> (world \<times> world, exn, unit) outcome" where
  "land fe cfg trip w =
     (let feed = fl_loaded trip; now = fl_now trip;
          (s, r) = resume_fetch (env_at (w_db w) (f_id feed) (fe_fetch fe)) cfg now (fl_weekly trip)
                     (started now (fetch_session feed w));
          undone = roll_back w s
      in case r of
           Inl e \<Rightarrow> ((undone, undone), Inl e)
         | Inr _ \<Rightarrow>
             if fs_aborted s then ((undone, undone), Inl (raise_exn DBAPIError))
             else (case fe_commit fe of
                     Inl e \<Rightarrow> ((undone, undone), Inl e)
                   | Inr _ \<Rightarrow>
                       (case write_back feed (fs_feed s) (fs_db s) of
                          Inl e \<Rightarrow> ((undone, undone), Inl e)
                        | Inr d \<Rightarrow> ((undone, (roll_back w s)\<lparr>w_db := d\<rparr>), Inr ()))))"

text \<open>The \<open>except\<close> and \<open>finally\<close> clauses of \<open>_process_feed\<close>.\<close>

definition arrive :: "int \<Rightarrow> (world \<times> world, exn, unit) outcome \<Rightarrow> (world, exn, bool) outcome" where
  "arrive feed_id res =
     (case res of
        ((undone, saved), Inr _) \<Rightarrow> (emit [InflightFetches (- 1)] saved, Inr True)
      | ((undone, saved), Inl e) \<Rightarrow>
          if caught e
          then (emit [LogProcessFatal feed_id, InflightFetches (- 1)] undone, Inr False)
          else (emit [InflightFetches (- 1)] undone, Inl e))"

text \<open>The whole session, where \<open>between\<close> is what happens to the world while it is in flight.\<close>

definition process_feed_during ::
  "(world \<Rightarrow> world) \<Rightarrow> feed_env \<Rightarrow> fetch_config \<Rightarrow> instant \<Rightarrow> int \<Rightarrow> world \<Rightarrow> (world, exn, bool) outcome" where
  "process_feed_during between fe cfg now feed_id w =
     (case depart fe now feed_id w of
        (w1, Inl e) \<Rightarrow> arrive feed_id ((w1, w1), Inl e)
      | (w1, Inr None) \<Rightarrow> arrive feed_id ((w1, w1), Inr ())
      | (w1, Inr (Some trip)) \<Rightarrow> arrive feed_id (land fe cfg trip (between w1)))"

section \<open>Facts about the two halves\<close>

lemma fetch_one_resume:
  "fetch_one env cfg now s =
     (case week_before now of
        Inl e \<Rightarrow> (started now s, Inl e)
      | Inr cutoff \<Rightarrow> resume_fetch env cfg now (recent_entries s cutoff) (started now s))"
  by (cases "week_before now") (simp_all only: fetch_one_no_week fetch_one_unfold resume_fetch_def sum.case)

lemma merge_row_unchanged: "merge_row loaded obj loaded = obj"
  by (simp add: merge_row_def merge_column_def)

lemma merge_row_columns [simp]:
  "f_status (merge_row l g r) = merge_column f_status l g r"
  "f_consecutive_failures (merge_row l g r) = merge_column f_consecutive_failures l g r"
  "f_next_fetch_at (merge_row l g r) = merge_column f_next_fetch_at l g r"
  "f_last_error_code (merge_row l g r) = merge_column f_last_error_code l g r"
  "f_last_attempt_at (merge_row l g r) = merge_column f_last_attempt_at l g r"
  by (simp_all add: merge_row_def)

lemma merge_row_identity:
  "same_identity loaded obj \<Longrightarrow> same_identity row (merge_row loaded obj row)"
  by (auto simp: same_identity_def merge_row_def merge_column_def)

lemma flush_feed_same:
  assumes "feeds_ok d" "feed_by_id d i = Some f"
  shows "flush_feed d f = d"
proof -
  have "g = f" if "g \<in> set (feeds_tbl d)" "f_id g = f_id f" for g
    using that assms feed_by_id_Some [OF assms(2)] by (auto simp: feeds_ok_def dest: distinct_map_eq)
  then have "update_where (\<lambda>g. f_id g = f_id f) (\<lambda>_. f) (feeds_tbl d) = feeds_tbl d"
    unfolding update_where_def by (intro map_idI) auto
  then show ?thesis by (simp add: flush_feed_def)
qed

lemma evolves_resume:
  assumes "resume_fetch env cfg now weekly s = (t, r)"
  shows "evolves s t"
proof -
  obtain s' q where a: "attempt env cfg now weekly s = (s', q)" by fastforce
  then have "evolves s s'" using evolves_attempt [of s env cfg now weekly] by simp
  moreover have "evolves s' (fst (and_then (record_failure env cfg now e s') (\<lambda>s _. schedule_next env cfg now weekly s)))" for e
    by (rule fetching.evolve_and_then [OF calm_evolves [OF calm_record_failure] calm_evolves [OF calm_schedule]])
  ultimately have "evolves s (fst (resume_fetch env cfg now weekly s))"
    unfolding resume_fetch_def a
    by (auto intro: fetching.evolve_trans calm_evolves [OF calm_schedule] split: sum.splits bool.splits)
  with assms show ?thesis by simp
qed

lemma resume_db:
  assumes "resume_fetch env cfg now weekly s = (t, r)"
  shows "stores env cfg now (f_id (fs_feed s)) (fs_db s) (fs_db t)"
proof -
  obtain s' q where a: "attempt env cfg now weekly s = (s', q)" by fastforce
  have "fs_db (fst (and_then (record_failure env cfg now e s') (\<lambda>s _. schedule_next env cfg now weekly s))) = fs_db s'" for e
    by (rule calm_db, rule calmly.evolve_and_then [OF calm_record_failure calm_schedule])
  moreover have "fs_db (fst (schedule_next env cfg now weekly s')) = fs_db s'"
    by (rule calm_db, rule calm_schedule)
  ultimately have "fs_db (fst (resume_fetch env cfg now weekly s)) = fs_db s'"
    by (auto simp: resume_fetch_def a split: sum.splits bool.splits)
  with assms a attempt_db [of env cfg now s weekly] show ?thesis by simp
qed

lemma stores_nothing:
  assumes "stores env cfg now i d d'" "\<And>p. \<not> env_accepts env p"
  shows "d' = d"
proof -
  have "fst (upsert_loop (env_accepts env) i now dn d ps) = d" for dn ps
    by (cases ps) (simp_all add: assms(2))
  with assms(1) show ?thesis by (auto simp: stores_def upsert_entries_def)
qed

section \<open>What a landing does to the database\<close>

lemma landing_state:
  assumes "resume_fetch (env_at (w_db w) (f_id feed) env) cfg now weekly (started now (fetch_session feed w)) = (s, r)"
  shows "same_identity feed (fs_feed s)" "feeds_tbl (fs_db s) = feeds_tbl (w_db w)" "feeds_seq (fs_db s) = feeds_seq (w_db w)"
    "db_evolves (f_id feed) (w_db w) (fs_db s)"
    "feed_by_id (w_db w) (f_id feed) = None \<Longrightarrow> fs_db s = w_db w"
proof -
  show ev: "same_identity feed (fs_feed s)" "db_evolves (f_id feed) (w_db w) (fs_db s)"
    using evolves_resume [OF assms] by (simp_all add: evolves_def fetch_session_def same_identity_def)
  then show "feeds_tbl (fs_db s) = feeds_tbl (w_db w)" "feeds_seq (fs_db s) = feeds_seq (w_db w)"
    by (simp_all add: db_evolves_def)
  show "fs_db s = w_db w" if "feed_by_id (w_db w) (f_id feed) = None"
    using stores_nothing [OF resume_db [OF assms]] that by (simp add: env_at_def fetch_session_def)
qed

text \<open>Exceptions leave the tables alone; a landing writes the merged row and its entries.\<close>

lemma land_cases:
  assumes "land fe cfg trip w = ((undone, saved), res)"
  obtains s r where
    "resume_fetch (env_at (w_db w) (f_id (fl_loaded trip)) (fe_fetch fe)) cfg (fl_now trip) (fl_weekly trip)
       (started (fl_now trip) (fetch_session (fl_loaded trip) w)) = (s, r)"
    "w_db undone = rollback_to (w_db w) (fs_db s)"
    "isl res \<and> w_db saved = w_db undone \<or>
     (\<exists>d. res = Inr () \<and> r = Inr () \<and> \<not> fs_aborted s \<and> w_db saved = d \<and>
        write_back (fl_loaded trip) (fs_feed s) (fs_db s) = Inr d)"
proof -
  obtain s r where r: "resume_fetch (env_at (w_db w) (f_id (fl_loaded trip)) (fe_fetch fe)) cfg (fl_now trip) (fl_weekly trip)
       (started (fl_now trip) (fetch_session (fl_loaded trip) w)) = (s, r)" by fastforce
  moreover have "w_db undone = rollback_to (w_db w) (fs_db s)"
    using assms unfolding land_def Let_def r by (auto simp: roll_back_def split: sum.splits if_splits)
  moreover have "isl res \<and> w_db saved = w_db undone \<or>
     (\<exists>d. res = Inr () \<and> r = Inr () \<and> \<not> fs_aborted s \<and> w_db saved = d \<and>
        write_back (fl_loaded trip) (fs_feed s) (fs_db s) = Inr d)"
    using assms unfolding land_def Let_def r by (auto simp: isl_def eq_commute split: sum.splits if_splits)
  ultimately show thesis by (rule that)
qed

lemma ages_db_evolves:
  assumes "db_evolves i d d'"
  shows "ages d d'"
proof -
  obtain fresh where "map row_identity (entries_tbl d') = map row_identity (entries_tbl d) @ fresh"
    "list_all (\<lambda>r. entries_seq d \<le> fst r) fresh" using assms unfolding db_evolves_def by blast
  from steady_rows [OF this] assms show ?thesis
    by (auto simp: ages_def db_evolves_def)
qed

lemma write_back_keeps:
  assumes "write_back loaded obj d = Inr d'" "same_identity loaded obj" "db_ok d"
  shows "db_ok d'" "ages d d'"
proof -
  have "db_ok d' \<and> ages d d'"
  proof (cases "obj = loaded")
    case True
    with assms show ?thesis by (simp add: write_back_def ageing.evolve_refl)
  next
    case False
    with assms(1) obtain row where row: "feed_by_id d (f_id loaded) = Some row" "d' = flush_feed d (merge_row loaded obj row)"
      by (auto simp: write_back_def split: option.splits)
    have id: "same_identity row (merge_row loaded obj row)" using assms(2) by (rule merge_row_identity)
    show ?thesis unfolding row(2)
      using db_ok_flush_feed [OF assms(3) row(1)] ages_flush [OF row(1) id] id by (simp add: same_identity_def)
  qed
  then show "db_ok d'" "ages d d'" by blast+
qed

lemma land_keeps_database:
  assumes "land fe cfg trip w = ((undone, saved), res)" "db_ok (w_db w)"
  shows "db_ok (w_db saved) \<and> ages (w_db w) (w_db saved)" "db_ok (w_db undone) \<and> ages (w_db w) (w_db undone)"
proof -
  from assms(1) obtain s r where s:
    "resume_fetch (env_at (w_db w) (f_id (fl_loaded trip)) (fe_fetch fe)) cfg (fl_now trip) (fl_weekly trip)
       (started (fl_now trip) (fetch_session (fl_loaded trip) w)) = (s, r)"
    "w_db undone = rollback_to (w_db w) (fs_db s)"
    "isl res \<and> w_db saved = w_db undone \<or>
     (\<exists>d. res = Inr () \<and> r = Inr () \<and> \<not> fs_aborted s \<and> w_db saved = d \<and>
        write_back (fl_loaded trip) (fs_feed s) (fs_db s) = Inr d)" by (rule land_cases)
  note l = landing_state [OF s(1)]
  have seq: "feeds_seq (w_db w) \<le> feeds_seq (fs_db s)" "entries_seq (w_db w) \<le> entries_seq (fs_db s)"
    using l(3,4) by (simp_all add: db_evolves_def)
  show u: "db_ok (w_db undone) \<and> ages (w_db w) (w_db undone)"
    unfolding s(2) using db_ok_rollback_to [OF assms(2) seq] ages_rollback [OF seq] by blast
  have "db_ok (fs_db s)"
  proof (cases "feed_by_id (w_db w) (f_id (fl_loaded trip))")
    case None
    with l(5) assms(2) show ?thesis by simp
  next
    case (Some g)
    then have "f_id (fl_loaded trip) \<in> f_id ` set (feeds_tbl (w_db w))" using feed_by_id_Some by (metis imageI)
    with l(4) assms(2) show ?thesis by (simp add: db_evolves_def)
  qed
  with s(3) u write_back_keeps [OF _ l(1)] ageing.evolve_trans [OF ages_db_evolves [OF l(4)]]
  show "db_ok (w_db saved) \<and> ages (w_db w) (w_db saved)" by metis
qed

section \<open>Two runs side by side\<close>

text \<open>
  \<open>alike\<close> relates the states of two runs of one fetch over databases that agree on the feed's
  entries: the object, the hint and the transaction are the same, and of the hosts \<open>H\<close> the same ones
  are impersonated; the metrics, the rows of other feeds and the other impersonated hosts may
  differ. Every stage keeps two runs alike and gives both the same result, if the host of the
  feed is in \<open>H\<close>.
\<close>

definition same_store :: "int \<Rightarrow> db \<Rightarrow> db \<Rightarrow> bool" where
  "same_store i d d' \<longleftrightarrow> entries_ok d \<and> entries_ok d' \<and> (\<forall>g. store_of d (i, g) = store_of d' (i, g))"

definition same_hosts :: "string set \<Rightarrow> string set \<Rightarrow> string set \<Rightarrow> bool" where
  "same_hosts H D D' \<longleftrightarrow> (\<forall>h \<in> H. h \<in> D \<longleftrightarrow> h \<in> D')"

definition host_of :: "string \<Rightarrow> string set" where
  "host_of url = (case urlsplit url of
     Inl _ \<Rightarrow> {} | Inr parts \<Rightarrow> {case hostname parts of Some h \<Rightarrow> h | None \<Rightarrow> []})"

definition alike :: "string set \<Rightarrow> int \<Rightarrow> fetch_state \<Rightarrow> fetch_state \<Rightarrow> bool" where
  "alike H i s t \<longleftrightarrow> f_id (fs_feed t) = i \<and> fs_feed s = fs_feed t \<and> same_hosts H (fs_domains s) (fs_domains t) \<and>
     fs_server_hint s = fs_server_hint t \<and> fs_aborted s = fs_aborted t \<and> same_store i (fs_db s) (fs_db t)"

definition in_step :: "string set \<Rightarrow> int \<Rightarrow> (fetch_state, exn, 'a) outcome \<Rightarrow> (fetch_state, exn, 'a) outcome \<Rightarrow> bool" where
  "in_step H i o1 o2 \<longleftrightarrow> alike H i (fst o1) (fst o2) \<and> snd o1 = snd o2"

lemma in_step_Pair: "alike H i s t \<Longrightarrow> in_step H i (s, r) (t, r)"
  by (simp add: in_step_def)

lemma in_step_and_then:
  assumes "in_step H i o1 o2" "\<And>s t a. alike H i s t \<Longrightarrow> in_step H i (k s a) (k' t a)"
  shows "in_step H i (and_then o1 k) (and_then o2 k')"
proof -
  obtain s r t where "o1 = (s, r)" "o2 = (t, r)" "alike H i s t"
    using assms(1) by (metis in_step_def prod.collapse)
  with assms(2) show ?thesis by (cases r) (simp_all add: in_step_def)
qed

lemma in_step_lift:
  assumes "alike H i s t" "\<And>a. in_step H i (k s a) (k' t a)"
  shows "in_step H i (and_then (lift_result s r) k) (and_then (lift_result t r) k')"
  using assms by (cases r) (simp_all add: lift_result_def in_step_def)

lemma alikeD:
  assumes "alike H i s t"
  shows "fs_feed t = fs_feed s" "fs_server_hint t = fs_server_hint s" "f_id (fs_feed s) = i"
  using assms by (simp_all add: alike_def)

lemma alike_update:
  "alike H i s t \<Longrightarrow> alike H i (s\<lparr>fs_events := e1\<rparr>) (t\<lparr>fs_events := e2\<rparr>)"
  "alike H i s t \<Longrightarrow> alike H i (s\<lparr>fs_server_hint := h\<rparr>) (t\<lparr>fs_server_hint := h\<rparr>)"
  "alike H i s t \<Longrightarrow> alike H i (s\<lparr>fs_domains := insert host (fs_domains s)\<rparr>) (t\<lparr>fs_domains := insert host (fs_domains t)\<rparr>)"
  "alike H i s t \<Longrightarrow> f_id f = i \<Longrightarrow> alike H i (s\<lparr>fs_feed := f\<rparr>) (t\<lparr>fs_feed := f\<rparr>)"
  by (simp_all add: alike_def same_hosts_def)

lemma schedule_together:
  assumes "alike H i s t"
  shows "in_step H i (schedule_next env cfg now weekly s) (schedule_next env cfg now weekly t)"
  unfolding schedule_next_def alikeD [OF assms]
  by (rule in_step_lift [OF assms], rule in_step_Pair)
    (use assms in \<open>simp add: alikeD alike_update\<close>)

lemma not_modified_together:
  assumes "alike H i s t"
  shows "in_step H i (not_modified env cfg now weekly resp s) (not_modified env cfg now weekly resp t)"
proof -
  have "in_step H i
      (and_then (lift_result x c) (\<lambda>s hint. and_then (schedule_next env cfg now weekly (s\<lparr>fs_server_hint := hint\<rparr>))
         (\<lambda>s _. (s\<lparr>fs_events := observe_fetch ''not_modified'' (env_elapsed env) None (fs_events s)\<rparr>, Inr Returned))))
      (and_then (lift_result y c) (\<lambda>s hint. and_then (schedule_next env cfg now weekly (s\<lparr>fs_server_hint := hint\<rparr>))
         (\<lambda>s _. (s\<lparr>fs_events := observe_fetch ''not_modified'' (env_elapsed env) None (fs_events s)\<rparr>, Inr Returned))))"
    if "alike H i x y" for x y c
    by (intro in_step_lift [OF that] in_step_and_then [OF schedule_together] in_step_Pair alike_update that)
  then show ?thesis using assms unfolding not_modified_def Let_def
    by (simp add: alikeD alike_update)
qed

lemma rate_limited_together:
  assumes "alike H i s t"
  shows "in_step H i (rate_limited env cfg now resp s) (rate_limited env cfg now resp t)"
  unfolding rate_limited_def Let_def
  by (rule in_step_lift [OF assms], rule in_step_lift, (rule in_step_Pair)?)
    (use assms in \<open>simp_all add: alikeD alike_update in_step_Pair\<close>)

lemma receive_together:
  assumes "alike H i s t"
  shows "in_step H i (receive cfg resp s) (receive cfg resp t)"
  unfolding receive_def
  by (rule in_step_lift [OF assms], rule in_step_lift)
    (use assms in \<open>simp_all add: alikeD alike_update in_step_Pair\<close>)

lemma handle_response_together:
  assumes "alike H i s t"
  shows "in_step H i (handle_response env cfg now weekly host resp s) (handle_response env cfg now weekly host resp t)"
  using assms not_modified_together [OF assms] rate_limited_together [OF assms] receive_together
  by (auto simp: handle_response_def alikeD alike_update intro!: in_step_Pair in_step_lift split: sum.splits)

lemma with_timeout_together:
  "in_step H i o1 o2 \<Longrightarrow> in_step H i (with_timeout b o1) (with_timeout b o2)"
  by (auto simp: in_step_def with_timeout_def split: prod.splits sum.splits)

lemma obtain_together:
  assumes "alike H i s t" "host_of (f_effective_url (fs_feed s)) \<subseteq> H"
  shows "in_step H i (obtain_document env cfg now weekly s) (obtain_document env cfg now weekly t)"
proof (cases "urlsplit (f_effective_url (fs_feed s))")
  case (Inr parts)
  let ?h = "case hostname parts of Some h \<Rightarrow> h | None \<Rightarrow> []"
  have h: "?h \<in> fs_domains s \<longleftrightarrow> ?h \<in> fs_domains t"
    using assms Inr by (simp add: alike_def same_hosts_def host_of_def)
  have lift: "and_then (lift_result x (Inr a)) k = k x a" for x :: fetch_state and a :: 'p and k :: "fetch_state \<Rightarrow> 'p \<Rightarrow> (fetch_state, exn, 'b) outcome"
    by (simp add: lift_result_def)
  show ?thesis
    unfolding obtain_document_def Let_def alikeD [OF assms(1)] Inr lift
    by (rule in_step_lift [OF assms(1)], cases "?h \<in> fs_domains s")
      (use assms(1) h handle_response_together [OF assms(1)] in
        \<open>auto simp: alikeD intro!: in_step_lift in_step_Pair with_timeout_together\<close>)
next
  case (Inl e)
  have lift: "and_then (lift_result x (Inl e)) k = (x, Inl e)" for x :: fetch_state and k :: "fetch_state \<Rightarrow> split_result \<Rightarrow> (fetch_state, exn, 'b) outcome"
    by (simp add: lift_result_def)
  show ?thesis
    unfolding obtain_document_def Let_def alikeD [OF assms(1)] Inl lift
    by (intro in_step_lift [OF assms(1)] in_step_Pair assms(1))
qed

lemma upsert_spec_agree:
  "(\<And>g. m (i, g) = m' (i, g)) \<Longrightarrow> upsert_spec i now dn m p (i, g) = upsert_spec i now dn m' p (i, g)"
  by (simp add: upsert_spec_def Let_def split: option.splits)

lemma foldl_spec_agree:
  "(\<And>g. m (i, g) = m' (i, g)) \<Longrightarrow>
     foldl (upsert_spec i now dn) m ps (i, g) = foldl (upsert_spec i now dn) m' ps (i, g)"
proof (induction ps arbitrary: m m')
  case (Cons p ps)
  show ?case unfolding foldl_Cons by (rule Cons.IH, rule upsert_spec_agree, rule Cons.prems)
qed simp

lemma same_store_upsert:
  assumes "same_store i d d'"
  shows "same_store i (fst (upsert_entries acc i ps now dn d)) (fst (upsert_entries acc i ps now dn d'))"
  using assms foldl_spec_agree [of "store_of d" i "store_of d'" now dn "takeWhile acc ps"]
  by (simp add: same_store_def upsert_entries_eq foldl_upsert_ok foldl_upsert_store)

lemma has_entries_store: "has_entries d i \<longleftrightarrow> (\<exists>g. store_of d (i, g) \<noteq> None)"
  by (force simp: has_entries_def list_ex_iff store_of_None entry_key_def)

lemma store_entries_together:
  assumes "alike H i s t"
  shows "in_step H i (store_entries env cfg now ps s) (store_entries env cfg now ps t)"
proof -
  have st: "same_store i (fs_db s) (fs_db t)" using assms by (simp add: alike_def)
  then have "has_entries (fs_db t) i = has_entries (fs_db s) i" by (simp add: same_store_def has_entries_store)
  with same_store_upsert [OF st] assms show ?thesis
    by (auto simp: store_entries_def Let_def case_prod_unfold in_step_def alike_def)
       (simp_all add: upsert_entries_eq)
qed

lemma ingest_together:
  assumes "alike H i s t"
  shows "in_step H i (ingest env cfg now hs body s) (ingest env cfg now hs body t)"
proof -
  have ok: "alike H i (on_feed (remember_validators hs) (succeed now title x)) (on_feed (remember_validators hs) (succeed now title y))"
    if "alike H i x y" for x y title
    using that success_op.op_identity [of "fs_feed y" now title]
    by (auto simp: succeed_def alike_def mark_fetch_success_def same_identity_def Let_def)
  show ?thesis
  proof (cases "is_not_a_feed_content_type (hs ''content-type'')")
    case False
    then show ?thesis unfolding ingest_def if_not_P [OF False]
      by (intro in_step_lift [OF assms] in_step_and_then [OF store_entries_together [OF assms]]
          in_step_lift [OF ok] in_step_Pair alike_update) (auto intro!: alike_update ok)
  qed (simp add: ingest_def in_step_Pair [OF assms])
qed

lemma attempt_together:
  assumes "alike H i s t" "host_of (f_effective_url (fs_feed s)) \<subseteq> H"
  shows "in_step H i (attempt env cfg now weekly s) (attempt env cfg now weekly t)"
  unfolding attempt_def
  by (rule in_step_and_then [OF obtain_together [OF assms]])
    (auto intro!: in_step_Pair in_step_and_then [OF ingest_together] split: fetched.splits)

lemma record_failure_together:
  assumes "alike H i s t"
  shows "in_step H i (record_failure env cfg now e s) (record_failure env cfg now e t)"
proof -
  have free: "fst (fst (mark_fetch_failure f now c bt dd ev)) = fst (fst (mark_fetch_failure f now c bt dd ev'))"
    "snd (mark_fetch_failure f now c bt dd ev) = snd (mark_fetch_failure f now c bt dd ev')" for f c bt dd ev ev'
    by (auto simp: mark_fetch_failure_def Let_def split: sum.splits)
  have "f_id (fst (fst (mark_fetch_failure f now c bt dd ev))) = f_id f" for f c bt dd ev
    using failure_op.op_identity [of f now c bt dd ev] by (simp add: same_identity_def)
  then show ?thesis using assms free
    unfolding record_failure_def Let_def case_prod_unfold
    by (intro in_step_and_then in_step_Pair alike_update)
       (auto simp: in_step_def alike_def)
qed

lemma resume_together:
  assumes "alike H i s t" "host_of (f_effective_url (fs_feed s)) \<subseteq> H"
  shows "in_step H i (resume_fetch env cfg now weekly s) (resume_fetch env cfg now weekly t)"
proof -
  obtain s' r t' where a: "attempt env cfg now weekly s = (s', r)" "attempt env cfg now weekly t = (t', r)" "alike H i s' t'"
    using attempt_together [OF assms, of env cfg now weekly] by (metis in_step_def prod.collapse)
  have "in_step H i (and_then (record_failure env cfg now e s') (\<lambda>s2 _. schedule_next env cfg now weekly s2))
    (and_then (record_failure env cfg now e t') (\<lambda>s2 _. schedule_next env cfg now weekly s2))" for e
    by (rule in_step_and_then [OF record_failure_together [OF a(3)]]) (rule schedule_together)
  then show ?thesis unfolding resume_fetch_def a(1,2)
    by (auto intro: in_step_Pair [OF a(3)] schedule_together [OF a(3)] split: sum.splits bool.splits)
qed

text \<open>Two worlds that a session on feed \<open>i\<close>, whose host is in \<open>H\<close>, cannot tell apart.\<close>

definition agree_on :: "string set \<Rightarrow> int \<Rightarrow> world \<Rightarrow> world \<Rightarrow> bool" where
  "agree_on H i v w \<longleftrightarrow> feed_by_id (w_db v) i = feed_by_id (w_db w) i \<and>
     (\<forall>guid. store_of (w_db v) (i, guid) = store_of (w_db w) (i, guid)) \<and> same_hosts H (w_domains v) (w_domains w)"

lemma agree_on_emit [simp]: "agree_on H i (emit es v) (emit es' w) = agree_on H i v w"
  by (simp add: agree_on_def)

lemma store_of_flush [simp]: "store_of (flush_feed d f) = store_of d"
  by (simp add: store_of_def fun_eq_iff)

lemma store_of_rollback [simp]: "store_of (rollback_to d d') = store_of d" "feed_by_id (rollback_to d d') i = feed_by_id d i"
  by (simp_all add: store_of_def fun_eq_iff rollback_to_def feed_by_id_def)

lemma write_back_agree:
  assumes "feed_by_id d i = feed_by_id d' i" "f_id loaded = i" "same_identity loaded obj"
  shows "rel_sum (=) (\<lambda>a b. feed_by_id a i = feed_by_id b i \<and> store_of a = store_of d \<and> store_of b = store_of d')
    (write_back loaded obj d) (write_back loaded obj d')"
proof (cases "feed_by_id d i")
  case (Some row)
  have row: "f_id row = i" "feed_by_id d' i = Some row" using feed_by_id_Some [OF Some] assms(1) Some by auto
  then have m: "f_id (merge_row loaded obj row) = i"
    using merge_row_identity [OF assms(3), of row] by (simp add: same_identity_def)
  have "feed_by_id (flush_feed d (merge_row loaded obj row)) i = Some (merge_row loaded obj row)"
    "feed_by_id (flush_feed d' (merge_row loaded obj row)) i = Some (merge_row loaded obj row)"
    using feed_by_id_flush [of d "merge_row loaded obj row" row] feed_by_id_flush [of d' "merge_row loaded obj row" row]
      m Some row(2) by simp_all
  then show ?thesis using Some row(2) assms(2) by (simp add: write_back_def)
qed (use assms in \<open>simp add: write_back_def\<close>)

lemma land_agree:
  assumes "agree_on H i v w" "db_ok (w_db v)" "db_ok (w_db w)" "f_id (fl_loaded trip) = i"
    and "host_of (f_effective_url (fl_loaded trip)) \<subseteq> H"
  shows "snd (land fe cfg trip v) = snd (land fe cfg trip w)"
    "agree_on H i (fst (fst (land fe cfg trip v))) (fst (fst (land fe cfg trip w)))"
    "agree_on H i (snd (fst (land fe cfg trip v))) (snd (fst (land fe cfg trip w)))"
proof -
  let ?l = "fl_loaded trip" and ?n = "fl_now trip"
  let ?e = "env_at (w_db v) (f_id ?l) (fe_fetch fe)"
  have env: "env_at (w_db w) (f_id ?l) (fe_fetch fe) = ?e" using assms(1,4) by (simp add: env_at_def agree_on_def)
  have "alike H i (started ?n (fetch_session ?l v)) (started ?n (fetch_session ?l w))"
    using assms by (simp add: alike_def fetch_session_def agree_on_def same_store_def db_ok_def)
  from assms(5) have "host_of (f_effective_url (fs_feed (started ?n (fetch_session ?l v)))) \<subseteq> H" by (simp add: fetch_session_def)
  note step = resume_together [OF \<open>alike H i _ _\<close> this, of ?e cfg ?n "fl_weekly trip", unfolded in_step_def]
  obtain s r where s: "resume_fetch ?e cfg ?n (fl_weekly trip) (started ?n (fetch_session ?l v)) = (s, r)" by fastforce
  obtain t q where t: "resume_fetch ?e cfg ?n (fl_weekly trip) (started ?n (fetch_session ?l w)) = (t, q)" by fastforce
  from step have st:
    "resume_fetch ?e cfg ?n (fl_weekly trip) (started ?n (fetch_session ?l v)) = (s, r)"
    "resume_fetch ?e cfg ?n (fl_weekly trip) (started ?n (fetch_session ?l w)) = (t, r)" "alike H i s t"
    unfolding s t by simp_all
  have same: "fs_feed t = fs_feed s" "fs_aborted t = fs_aborted s" "same_hosts H (fs_domains s) (fs_domains t)"
    "\<And>g. store_of (fs_db s) (i, g) = store_of (fs_db t) (i, g)"
    using st(3) by (simp_all add: alike_def same_store_def)
  have undone: "agree_on H i (roll_back v s) (roll_back w t)"
    using assms(1) same(3) by (simp add: agree_on_def roll_back_def)
  note ls = landing_state [OF st(1)] and lt = landing_state [OF st(2) [folded env]]
  have "feed_by_id (fs_db s) i = feed_by_id (fs_db t) i"
    using ls(2) lt(2) assms(1) by (simp add: agree_on_def feed_by_id_def)
  note wb = write_back_agree [OF this assms(4) ls(1)]
  have saved: "agree_on H i ((roll_back v s)\<lparr>w_db := a\<rparr>) ((roll_back w t)\<lparr>w_db := b\<rparr>)"
    if "write_back ?l (fs_feed s) (fs_db s) = Inr a" "write_back ?l (fs_feed s) (fs_db t) = Inr b" for a b
    using wb that same(3,4) by (simp add: agree_on_def roll_back_def)
  consider (raised) e where "r = Inl e" | (aborted) "r = Inr ()" "fs_aborted s"
    | (commit) e where "r = Inr ()" "\<not> fs_aborted s" "fe_commit fe = Inl e"
    | (written) "r = Inr ()" "\<not> fs_aborted s" "fe_commit fe = Inr ()"
    by (cases r; cases "fe_commit fe") auto
  then have "snd (land fe cfg trip v) = snd (land fe cfg trip w) \<and>
    agree_on H i (fst (fst (land fe cfg trip v))) (fst (fst (land fe cfg trip w))) \<and>
    agree_on H i (snd (fst (land fe cfg trip v))) (snd (fst (land fe cfg trip w)))"
  proof cases
    case written
    with undone saved wb show ?thesis unfolding land_def Let_def env st(1,2) prod.case same(1,2)
      by (cases "write_back ?l (fs_feed s) (fs_db s)"; cases "write_back ?l (fs_feed s) (fs_db t)") simp_all
  qed (use undone in \<open>simp_all add: land_def Let_def env st(1,2) same(1,2)\<close>)
  then show "snd (land fe cfg trip v) = snd (land fe cfg trip w)"
    "agree_on H i (fst (fst (land fe cfg trip v))) (fst (fst (land fe cfg trip w)))"
    "agree_on H i (snd (fst (land fe cfg trip v))) (snd (fst (land fe cfg trip w)))" by blast+
qed

section \<open>Properties\<close>

lemma process_feed_arrive:
  "process_feed fe cfg now i w = arrive i (process_body fe cfg now i (emit [InflightFetches 1] w))"
  by (simp add: process_feed_def arrive_def)

lemma roll_back_idle: "roll_back w (started now (fetch_session feed w)) = w"
  by (simp add: roll_back_def fetch_session_def rollback_to_def)

lemma write_back_undisturbed:
  assumes "feeds_ok d" "feed_by_id d (f_id loaded) = Some loaded"
  shows "write_back loaded obj d = Inr (flush_feed d obj)"
  using assms flush_feed_same [OF assms] by (simp add: write_back_def merge_row_unchanged)

lemma land_undisturbed:
  assumes "feeds_ok (w_db w)" "feed_by_id (w_db w) i = Some feed" "week_before now = Inr cutoff" "fe_load fe = Inr ()"
    and "trip = \<lparr>fl_loaded = feed, fl_weekly = weekly_entry_count (w_db w) (f_id feed) cutoff, fl_now = now\<rparr>"
  shows "land fe cfg trip w = process_body fe cfg now i w"
proof -
  have id: "f_id feed = i" using feed_by_id_Some [OF assms(2)] by simp
  then have env: "env_at (w_db w) (f_id feed) (fe_fetch fe) = fe_fetch fe" using assms(2) by (simp add: env_at_def)
  obtain s r where r: "resume_fetch (fe_fetch fe) cfg now (fl_weekly trip) (started now (fetch_session feed w)) = (s, r)"
    by fastforce
  have f1: "fetch_one (fe_fetch fe) cfg now (fetch_session feed w) = (s, r)"
    using r assms(5) by (simp add: fetch_one_resume assms(3) fetch_session_def)
  note ls = landing_state [of w feed "fe_fetch fe", unfolded env, OF r]
  have "write_back feed (fs_feed s) (fs_db s) = Inr (flush_feed (fs_db s) (fs_feed s))"
    by (rule write_back_undisturbed) (use ls(2,3) assms(1,2) id in \<open>simp_all add: feeds_ok_def feed_by_id_def\<close>)
  then show ?thesis
    using env r f1 assms(2,4,5)
    by (cases r; cases "fe_commit fe") (simp_all add: land_def process_body_def roll_back_def commit_session_def Let_def)
qed

text \<open>
  The model of \<open>_process_feed\<close> as one step is what the session does when nothing happens while it waits
  for the network: splitting it at the wait, merging only changed columns and checking the row
  again at the commit then changes neither the database nor the metrics nor the result.
\<close>

theorem undisturbed_session:
  assumes "feeds_ok (w_db w)"
  shows "process_feed_during (\<lambda>w. w) fe cfg now i w = process_feed fe cfg now i w"
proof -
  let ?w = "emit [InflightFetches 1] w"
  show ?thesis
  proof (cases "fe_load fe = Inr () \<and> feed_by_id (w_db w) i \<noteq> None")
    case True
    then obtain feed where f: "fe_load fe = Inr ()" "feed_by_id (w_db w) i = Some feed" by auto
    show ?thesis
    proof (cases "week_before now")
      case (Inl e)
      then show ?thesis using f
        by (simp add: process_feed_during_def depart_def process_feed_arrive process_body_def fetch_one_no_week roll_back_idle Let_def)
    next
      case (Inr cutoff)
      then show ?thesis using f land_undisturbed [of ?w i feed now cutoff fe, OF _ _ _ _ refl, of cfg] assms
        by (simp add: process_feed_during_def depart_def process_feed_arrive)
    qed
  qed (auto simp: process_feed_during_def depart_def process_feed_arrive process_body_def split: sum.splits option.splits)
qed

lemma arrive_agree:
  assumes "snd o1 = snd o2" "agree_on H i (fst (fst o1)) (fst (fst o2))" "agree_on H i (snd (fst o1)) (snd (fst o2))"
  shows "snd (arrive j o1) = snd (arrive j o2)" "agree_on H i (fst (arrive j o1)) (fst (arrive j o2))"
  using assms by (auto simp: arrive_def split: prod.splits sum.splits)

lemma departure:
  assumes "depart fe now i w = (v, Inr (Some trip))"
  shows "v = emit [InflightFetches 1] w" "feed_by_id (w_db w) i = Some (fl_loaded trip)" "f_id (fl_loaded trip) = i"
    "fl_now trip = now"
  using assms by (auto simp: depart_def try_bind_eq_Inr feed_by_id_Some split: sum.splits option.splits)

text \<open>The host a session of feed \<open>i\<close> would contact.\<close>

definition hosts_of :: "db \<Rightarrow> int \<Rightarrow> string set" where
  "hosts_of d i = (case feed_by_id d i of None \<Rightarrow> {} | Some feed \<Rightarrow> host_of (f_effective_url feed))"

text \<open>A fetch marks no other host for impersonation than the one of its feed.\<close>

definition within_hosts :: "string set \<Rightarrow> (fetch_state, exn, 'a) outcome \<Rightarrow> bool" where
  "within_hosts D r \<longleftrightarrow> fs_domains (fst r) \<subseteq> D"

lemma within_hosts_and_then:
  assumes "within_hosts D r" "\<And>t a. fs_domains t \<subseteq> D \<Longrightarrow> within_hosts D (k t a)"
  shows "within_hosts D (and_then r k)"
  using assms by (cases r; cases "snd r") (auto simp: within_hosts_def and_then_def)

lemma within_hosts_lift:
  assumes "fs_domains s \<subseteq> D" "\<And>a. within_hosts D (k s a)"
  shows "within_hosts D (and_then (lift_result s r) k)"
  using assms by (cases r) (simp_all add: lift_result_def within_hosts_def)

lemma within_hosts_Pair [simp]: "within_hosts D (s, r) \<longleftrightarrow> fs_domains s \<subseteq> D"
  by (simp add: within_hosts_def)

lemmas within_hosts_intros = within_hosts_and_then within_hosts_lift

lemma schedule_within: "fs_domains s \<subseteq> D \<Longrightarrow> within_hosts D (schedule_next env cfg now weekly s)"
  unfolding schedule_next_def by (rule within_hosts_lift) simp_all

lemma handle_response_within:
  assumes "fs_domains s \<subseteq> D" "host \<in> D"
  shows "within_hosts D (handle_response env cfg now weekly host resp s)"
proof -
  have rc: "fs_domains x \<subseteq> D \<Longrightarrow> within_hosts D (receive cfg resp x)" for x
    unfolding receive_def by (intro within_hosts_intros) simp_all
  have "within_hosts D (rate_limited env cfg now resp s)"
    unfolding rate_limited_def Let_def by (intro within_hosts_intros) (use assms(1) in simp_all)
  moreover have "within_hosts D (not_modified env cfg now weekly resp s)"
    unfolding not_modified_def Let_def by (intro within_hosts_intros schedule_within) (use assms(1) in auto)
  ultimately show ?thesis using assms rc [of s]
    by (auto simp: handle_response_def intro!: within_hosts_lift rc split: sum.splits)
qed

lemma fetch_one_within:
  assumes "fs_domains s \<subseteq> D" "host_of (f_effective_url (fs_feed s)) \<subseteq> D"
  shows "within_hosts D (fetch_one env cfg now s)"
proof -
  have st: "fs_domains x \<subseteq> D \<Longrightarrow> within_hosts D (store_entries env cfg now ps x)" for ps x
    by (simp add: store_entries_def Let_def case_prod_unfold)
  have ing: "fs_domains x \<subseteq> D \<Longrightarrow> within_hosts D (ingest env cfg now hs body x)" for hs body x
    unfolding ingest_def by (auto intro!: within_hosts_intros st simp: succeed_def Let_def case_prod_unfold)
  have rec: "fs_domains x \<subseteq> D \<Longrightarrow> within_hosts D (record_failure env cfg now e x)" for e x
    unfolding record_failure_def Let_def case_prod_unfold by (intro within_hosts_and_then) simp_all
  have timeout: "within_hosts D r \<Longrightarrow> within_hosts D (with_timeout b r)" for b and r :: "(fetch_state, exn, fetched) outcome"
    by (auto simp: with_timeout_def within_hosts_def split: prod.splits sum.splits)
  let ?s = "started now s"
  have "within_hosts D (obtain_document env cfg now w ?s)" for w
  proof (cases "urlsplit (f_effective_url (fs_feed s))")
    case (Inr parts)
    then have "(case hostname parts of Some h \<Rightarrow> h | None \<Rightarrow> []) \<in> D" using assms(2) by (simp add: host_of_def)
    moreover have lift: "and_then (lift_result x (Inr a)) k = k x a" for x :: fetch_state and a :: 'p and k :: "fetch_state \<Rightarrow> 'p \<Rightarrow> (fetch_state, exn, 'b) outcome"
      by (simp add: lift_result_def)
    ultimately show ?thesis using assms(1) Inr unfolding obtain_document_def Let_def
      by (simp add: lift) (auto simp: subset_eq intro!: within_hosts_lift timeout handle_response_within)
  qed (use assms(1) in \<open>auto simp: obtain_document_def Let_def lift_result_def intro!: within_hosts_lift [unfolded lift_result_def]\<close>)
  then have "within_hosts D (attempt env cfg now w ?s)" for w
    unfolding attempt_def by (intro within_hosts_and_then) (auto intro!: within_hosts_and_then ing split: fetched.splits)
  note att = this [unfolded within_hosts_def]
  show ?thesis
  proof (cases "week_before now")
    case (Inr cutoff)
    obtain x r where a: "attempt env cfg now (recent_entries s cutoff) ?s = (x, r)" by fastforce
    then have "fs_domains x \<subseteq> D" using att [of "recent_entries s cutoff"] by simp
    then show ?thesis unfolding fetch_one_unfold [OF Inr] a
      by (auto intro!: within_hosts_and_then rec schedule_within split: sum.splits bool.splits)
  qed (use assms(1) in \<open>simp add: fetch_one_no_week\<close>)
qed

lemma process_feed_within:
  assumes "w_domains w \<subseteq> D" "hosts_of (w_db w) i \<subseteq> D"
  shows "w_domains (fst (process_feed fe cfg now i w)) \<subseteq> D"
proof -
  let ?v = "emit [InflightFetches 1] w"
  obtain undone saved q where b: "process_body fe cfg now i ?v = ((undone, saved), q)" by (metis prod.exhaust)
  have "w_domains undone \<subseteq> D \<and> w_domains saved \<subseteq> D"
  proof (cases "isl (fe_load fe) \<or> feed_by_id (w_db w) i = None")
    case True
    then show ?thesis using b assms(1) by (auto simp: process_body_def isl_def split: sum.splits option.splits)
  next
    case False
    then obtain feed where f: "fe_load fe = Inr ()" "feed_by_id (w_db w) i = Some feed" by (auto simp: isl_def) (metis sum.exhaust_sel old.unit.exhaust)
    obtain s r where s: "fetch_one (fe_fetch fe) cfg now (fetch_session feed ?v) = (s, r)" by fastforce
    then have "fs_domains s \<subseteq> D"
      using fetch_one_within [of "fetch_session feed ?v" D "fe_fetch fe" cfg now] assms f(2)
      by (simp add: within_hosts_def fetch_session_def hosts_of_def)
    then show ?thesis using b f s
      by (auto simp: process_body_def Let_def roll_back_def commit_session_def split: sum.splits if_splits)
  qed
  then show ?thesis using b by (auto simp: process_feed_def split: sum.splits)
qed

lemma process_all_within:
  assumes "w_domains w \<subseteq> D" "\<forall>j \<in> set js. hosts_of (w_db w) j \<subseteq> D" "distinct js" "db_ok (w_db w)"
  shows "w_domains (fst (process_all fes cfg now js w)) \<subseteq> D"
  using assms
proof (induction js arbitrary: w)
  case (Cons j js)
  let ?u = "fst (process_feed (fes j) cfg now j w)"
  have t: "touches {j} (w_db w) (w_db ?u)" by (rule processing.step_touches [OF Cons.prems(4)])
  have "hosts_of (w_db ?u) k \<subseteq> D" if "k \<in> set js" for k
  proof -
    have "k \<noteq> j" using that Cons.prems(3) by auto
    then have "hosts_of (w_db ?u) k = hosts_of (w_db w) k" using t by (simp add: touches_def hosts_of_def)
    with that Cons.prems(2) show ?thesis by simp
  qed
  moreover have "db_ok (w_db ?u)" using t by (simp add: touches_def)
  moreover have "w_domains ?u \<subseteq> D" by (rule process_feed_within) (use Cons.prems in auto)
  ultimately show ?case using Cons.IH [of ?u] Cons.prems(3) by (simp add: Let_def case_prod_unfold)
qed simp

lemma sessions_on_other_hosts:
  assumes "db_ok (w_db w)" "i \<notin> set js" "\<forall>j \<in> set js. hosts_of (w_db w) j \<inter> H = {}" "w' = fst (process_all fes cfg now js w)"
    and "distinct js"
  shows "db_ok (w_db w') \<and> agree_on H i w' w"
proof -
  have t: "touches (set js) (w_db w) (w_db w')"
    using processing.steps_touch [OF assms(1), where ids = js] assms(4) by (simp add: process_all_fold(1))
  then have "feed_by_id (w_db w') i = feed_by_id (w_db w) i" "entries_of (w_db w') i = entries_of (w_db w) i"
    using assms(2) by (simp_all add: touches_def)
  moreover have "store_of d (i, g) = map_option stored_of (find (\<lambda>e. e_guid e = g) (entries_of d i))" for d g
  proof -
    have "find (\<lambda>e. entry_key e = (i, g)) es = find (\<lambda>e. e_guid e = g) (filter (\<lambda>e. e_feed_id e = i) es)" for es
      by (induction es) (auto simp: entry_key_def)
    then show ?thesis by (simp add: store_of_def entries_of_def)
  qed
  moreover have "same_hosts H (w_domains w') (w_domains w)"
  proof -
    have "w_domains w' \<subseteq> w_domains w \<union> (UNIV - H)"
      unfolding assms(4) by (rule process_all_within) (use assms in auto)
    moreover have "w_domains w \<subseteq> w_domains w'" using process_all_domains assms(4) by blast
    ultimately show ?thesis by (auto simp: same_hosts_def)
  qed
  ultimately show ?thesis using t by (simp add: agree_on_def touches_def)
qed

text \<open>
  C17: What happens while a fetch waits for the network does not matter to it as long as three
  things are the same when it goes on: its own row, its own entries, and whether the host of its
  own URL is among the impersonated ones. Then the session has the same result, writes the same
  row and stores the same entries as if it had run alone, whatever became of other feeds and
  other hosts. (A 403 of another feed on the same host would switch this fetch to the impersonating
  client; \<open>sessions_on_other_hosts\<close> shows that sessions of feeds on other hosts keep all three.)
\<close>

theorem other_feeds_do_not_disturb:
  assumes "db_ok (w_db w)" "v = emit [InflightFetches 1] w" "db_ok (w_db (between v))" "H = hosts_of (w_db w) i"
    and "agree_on H i (between v) v"
  shows "snd (process_feed_during between fe cfg now i w) = snd (process_feed fe cfg now i w) \<and>
    agree_on H i (fst (process_feed_during between fe cfg now i w)) (fst (process_feed fe cfg now i w))"
proof -
  have ok: "feeds_ok (w_db w)" "db_ok (w_db v)" using assms(1,2) by (simp_all add: db_ok_def)
  obtain u r where d: "depart fe now i w = (u, r)" by fastforce
  show ?thesis unfolding undisturbed_session [OF ok(1), symmetric]
  proof (cases "\<exists>trip. r = Inr (Some trip)")
    case True
    then obtain trip where t: "depart fe now i w = (u, Inr (Some trip))" using d by blast
    from departure [OF t] have u: "u = v" "f_id (fl_loaded trip) = i" "host_of (f_effective_url (fl_loaded trip)) \<subseteq> H"
      using assms(2,4) by (simp_all add: hosts_of_def)
    note l = land_agree [OF assms(5,3) ok(2) u(2,3), of fe cfg]
    show "snd (process_feed_during between fe cfg now i w) = snd (process_feed_during (\<lambda>w. w) fe cfg now i w) \<and>
      agree_on H i (fst (process_feed_during between fe cfg now i w)) (fst (process_feed_during (\<lambda>w. w) fe cfg now i w))"
      using arrive_agree [OF l] by (simp add: process_feed_during_def t u)
  next
    case False
    then show "snd (process_feed_during between fe cfg now i w) = snd (process_feed_during (\<lambda>w. w) fe cfg now i w) \<and>
      agree_on H i (fst (process_feed_during between fe cfg now i w)) (fst (process_feed_during (\<lambda>w. w) fe cfg now i w))"
      by (cases r) (auto simp: process_feed_during_def d agree_on_def same_hosts_def split: option.splits)
  qed
qed

text \<open>
  C16: A deletion wins over a fetch in flight. When the feed is gone by the time its fetch goes on,
  whatever was downloaded, both tables hold afterwards exactly what they held before the
  landing: no entry of the deleted feed is stored and the row does not come back.
\<close>

theorem deletion_wins_over_fetch:
  assumes "depart fe now i w = (v, Inr (Some trip))" "feed_by_id (w_db (between v)) i = None"
    and "w' = fst (process_feed_during between fe cfg now i w)"
  shows "feeds_tbl (w_db w') = feeds_tbl (w_db (between v)) \<and> entries_tbl (w_db w') = entries_tbl (w_db (between v))"
proof -
  obtain undone saved res where l: "land fe cfg trip (between v) = ((undone, saved), res)" by (metis prod.exhaust)
  then obtain s r where s:
    "resume_fetch (env_at (w_db (between v)) (f_id (fl_loaded trip)) (fe_fetch fe)) cfg (fl_now trip) (fl_weekly trip)
       (started (fl_now trip) (fetch_session (fl_loaded trip) (between v))) = (s, r)"
    "w_db undone = rollback_to (w_db (between v)) (fs_db s)"
    "isl res \<and> w_db saved = w_db undone \<or>
     (\<exists>d. res = Inr () \<and> r = Inr () \<and> \<not> fs_aborted s \<and> w_db saved = d \<and>
        write_back (fl_loaded trip) (fs_feed s) (fs_db s) = Inr d)" by (rule land_cases)
  have none: "feed_by_id (w_db (between v)) (f_id (fl_loaded trip)) = None" using departure(3) [OF assms(1)] assms(2) by simp
  have db: "fs_db s = w_db (between v)" using landing_state(5) [OF s(1) none] .
  have "w_db undone = w_db (between v)" by (simp add: s(2) db rollback_to_def)
  moreover from this have "w_db saved = w_db (between v)"
    using s(3) none by (auto simp: write_back_def db split: if_splits)
  ultimately have "w_db w' = w_db (between v)"
    unfolding assms(3) process_feed_during_def assms(1) by (simp add: l arrive_def split: sum.splits)
  then show ?thesis by simp
qed

definition other_feed :: feed where
  "other_feed = sample_feed\<lparr>f_id := 2, f_url := ''http://b.example/f''\<rparr>"

definition register_other :: "world \<Rightarrow> world" where
  "register_other w = w\<lparr>w_db := (w_db w)\<lparr>feeds_tbl := feeds_tbl (w_db w) @ [other_feed], feeds_seq := 3\<rparr>\<rparr>"

theorem other_feeds_do_not_disturb_witness:
  "agree_on (hosts_of sample_db 1) 1
     (fst (process_feed_during register_other (sample_feed_env (sample_env (sample_response 200))) sample_config sample_now 1 sample_world))
     (fst (process_feed (sample_feed_env (sample_env (sample_response 200))) sample_config sample_now 1 sample_world))"
proof -
  let ?v = "emit [InflightFetches 1] sample_world"
  have "db_ok (w_db sample_world)" by (simp add: sample_world_def sample_db_ok)
  moreover have "db_ok (w_db (register_other ?v))" by code_simp
  moreover have "agree_on (hosts_of sample_db 1) 1 (register_other ?v) ?v"
    by (simp add: agree_on_def same_hosts_def register_other_def store_of_def feed_by_id_def sample_world_def sample_db_def sample_feed_def)
  moreover have "hosts_of sample_db 1 = hosts_of (w_db sample_world) 1" by (simp add: sample_world_def)
  ultimately show ?thesis
    using other_feeds_do_not_disturb [of sample_world ?v register_other "hosts_of sample_db 1" 1 "sample_feed_env (sample_env (sample_response 200))"
      sample_config sample_now] by blast
qed

lemma sample_departure:
  "depart (sample_feed_env env) sample_now 1 sample_world = (emit [InflightFetches 1] sample_world,
     Inr (Some \<lparr>fl_loaded = sample_feed,
       fl_weekly = weekly_entry_count sample_db 1 (sample_now - 604800000000), fl_now = sample_now\<rparr>))"
  by (simp add: depart_def sample_feed_env_def sample_week sample_world_def feed_by_id_def sample_db_def sample_feed_def)

theorem deletion_wins_over_fetch_witness:
  "let w' = fst (process_feed_during (\<lambda>v. fst (delete_feed 1 v)) (sample_feed_env (sample_env (sample_response 200)))
     sample_config sample_now 1 sample_world) in feeds_tbl (w_db w') = [] \<and> entries_tbl (w_db w') = []"
proof -
  let ?v = "fst (delete_feed 1 (emit [InflightFetches 1] sample_world))"
  have v: "feeds_tbl (w_db ?v) = [] \<and> entries_tbl (w_db ?v) = []" by code_simp
  then have "feed_by_id (w_db ?v) 1 = None" by (simp add: feed_by_id_def)
  from deletion_wins_over_fetch [OF sample_departure, of "\<lambda>v. fst (delete_feed 1 v)", OF this refl] v
  show ?thesis unfolding Let_def by metis
qed

section \<open>Reactivation during a fetch\<close>

lemma failure_of_broken:
  assumes "f_status f = BROKEN" "c \<noteq> HTTP_410" "timedelta_days dd = Inr dead_span" "now - reference_time f < dead_span"
  shows "mark_fetch_failure f now c bt dd ev =
    ((f\<lparr>f_last_error_code := Some c, f_consecutive_failures := f_consecutive_failures f + 1\<rparr>, ev), Inr ())"
  using assms by (simp add: mark_fetch_failure_def reference_time_def Let_def split: option.splits)

definition broken_again :: "instant \<Rightarrow> error_code \<Rightarrow> feed \<Rightarrow> feed" where
  "broken_again now c f = f\<lparr>f_last_attempt_at := Some now, f_last_error_code := Some c,
     f_consecutive_failures := f_consecutive_failures f + 1\<rparr>"

lemma reference_time_attempt [simp]: "reference_time (f\<lparr>f_last_attempt_at := t\<rparr>) = reference_time f"
  by (simp add: reference_time_def split: option.split)

lemma resume_broken:
  assumes "answered env cfg s resp" "documented_response resp"
    and "400 \<le> h_status_code resp" "h_status_code resp < 600" "h_status_code resp \<notin> {403, 410, 429}"
    and "f_status (fs_feed s) = BROKEN" "timedelta_days (fc_dead_duration_days cfg) = Inr dead_span"
    and "now - reference_time (fs_feed s) < dead_span"
    and "resume_fetch env cfg now weekly (started now s) = (t, Inr ())"
    and "c = (if h_status_code resp < 500 then HTTP_4XX else HTTP_5XX)"
  obtains due where "fs_feed t = (broken_again now c (fs_feed s))\<lparr>f_next_fetch_at := due\<rparr>"
    "compute_next_fetch_at (broken_again now c (fs_feed s)) now (fc_policy cfg) None weekly (env_random env) = Inr due"
proof -
  let ?e = "raise_exn (HTTPStatusError (h_status_code resp))" and ?f = "(fs_feed s)\<lparr>f_last_attempt_at := Some now\<rparr>"
  have code: "classify_error ?e = c" "c \<noteq> HTTP_410"
    using assms(3-5,10) by (auto simp: classify_error_def)
  have a: "attempt env cfg now weekly (started now s) = (started now s, Inl ?e)"
    by (rule attempt_http_error [OF assms(1-4)]) (use assms(5) in simp)
  have "mark_fetch_failure ?f now c bt (fc_dead_duration_days cfg) ev = ((broken_again now c (fs_feed s), ev), Inr ())" for bt ev
    using failure_of_broken [of ?f c "fc_dead_duration_days cfg" dead_span now bt ev] assms(6-8) code(2)
    by (simp add: broken_again_def)
  then obtain ev where rf: "record_failure env cfg now ?e (started now s) =
      ((started now s)\<lparr>fs_feed := broken_again now c (fs_feed s), fs_events := ev\<rparr>, Inr ())"
    by (simp add: record_failure_def code(1) Let_def)
  let ?s = "(started now s)\<lparr>fs_feed := broken_again now c (fs_feed s), fs_events := ev\<rparr>"
  from assms(9) have "schedule_next env cfg now weekly ?s = (t, Inr ())"
    by (simp add: resume_fetch_def a rf is_Exception_def)
  then show thesis using that
    by (cases "compute_next_fetch_at (broken_again now c (fs_feed s)) now (fc_policy cfg) None weekly (env_random env)")
      (auto simp: schedule_next_def lift_result_def)
qed

lemma land_broken:
  assumes "land fe cfg trip u = ((undone, saved), Inr ())" "fl_loaded trip = feed" "fl_now trip = now"
    and "feed_by_id (w_db u) (f_id feed) = Some row" "f_status feed = BROKEN"
    and "answered (fe_fetch fe) cfg (fetch_session feed u) resp" "documented_response resp"
    and "400 \<le> h_status_code resp" "h_status_code resp < 600" "h_status_code resp \<notin> {403, 410, 429}"
    and "timedelta_days (fc_dead_duration_days cfg) = Inr dead_span" "now - reference_time feed < dead_span"
    and "c = (if h_status_code resp < 500 then HTTP_4XX else HTTP_5XX)"
  obtains due where
    "feed_by_id (w_db saved) (f_id feed) = Some (merge_row feed ((broken_again now c feed)\<lparr>f_next_fetch_at := due\<rparr>) row)"
    "compute_next_fetch_at (broken_again now c feed) now (fc_policy cfg) None (fl_weekly trip) (env_random (fe_fetch fe)) = Inr due"
proof -
  from assms(1) obtain s q where s:
    "resume_fetch (env_at (w_db u) (f_id (fl_loaded trip)) (fe_fetch fe)) cfg (fl_now trip) (fl_weekly trip)
       (started (fl_now trip) (fetch_session (fl_loaded trip) u)) = (s, q)"
    "isl (Inr () :: exn + unit) \<and> w_db saved = w_db undone \<or>
     (\<exists>d. (Inr () :: exn + unit) = Inr () \<and> q = Inr () \<and> \<not> fs_aborted s \<and> w_db saved = d \<and>
        write_back (fl_loaded trip) (fs_feed s) (fs_db s) = Inr d)" by (rule land_cases)
  have env: "env_at (w_db u) (f_id feed) (fe_fetch fe) = fe_fetch fe" using assms(4) by (simp add: env_at_def)
  have wb: "write_back feed (fs_feed s) (fs_db s) = Inr (w_db saved)" and q: "q = Inr ()" using s(2) assms(2) by auto
  obtain due where due: "fs_feed s = (broken_again now c feed)\<lparr>f_next_fetch_at := due\<rparr>"
    "compute_next_fetch_at (broken_again now c feed) now (fc_policy cfg) None (fl_weekly trip) (env_random (fe_fetch fe)) = Inr due"
    using resume_broken [OF assms(6-10) _ assms(11) _ s(1) [unfolded assms(2,3) env q] assms(13)] assms(5,12)
    by (auto simp: fetch_session_def)
  let ?m = "merge_row feed (fs_feed s) row"
  have row: "feed_by_id (fs_db s) (f_id feed) = Some row"
    using landing_state(2) [OF s(1)] assms(4) by (simp add: feed_by_id_def)
  have "fs_feed s \<noteq> feed"
    unfolding due(1) broken_again_def by (auto dest: arg_cong [of _ _ f_consecutive_failures])
  with wb row have saved: "w_db saved = flush_feed (fs_db s) ?m" by (simp add: write_back_def)
  have "f_id ?m = f_id feed"
    using feed_by_id_Some [OF assms(4)] by (simp add: merge_row_def merge_column_def due(1) broken_again_def)
  then have "feed_by_id (w_db saved) (f_id feed) = Some ?m"
    using feed_by_id_flush [of "fs_db s" ?m row "f_id feed"] row by (simp add: saved)
  with due show thesis by (intro that) simp_all
qed

text \<open>
  C18: A reactivation that arrives while a fetch of a broken feed is in flight is half undone when
  that fetch fails. The session writes the columns it changed and no others: the status
  \<open>ACTIVE\<close> of the reactivation stays, but the failure counter is the old one plus one instead
  of zero, and the next fetch is where the backoff of a broken feed puts it, not at the time of
  the reactivation (unless the backoff happens to give the time that was loaded).
\<close>

theorem reactivation_during_fetch_is_half_undone:
  assumes "int4 i" "feed_by_id (w_db w) i = Some feed" "f_status feed = BROKEN"
    and "answered (fe_fetch fe) cfg (fetch_session feed w) resp" "documented_response resp"
    and "400 \<le> h_status_code resp" "h_status_code resp < 600" "h_status_code resp \<notin> {403, 410, 429}"
    and "timedelta_days (fc_dead_duration_days cfg) = Inr dead_span" "now - reference_time feed < dead_span"
    and "process_feed_during (\<lambda>v. fst (reactivate_feed rnow i v)) fe cfg now i w = (w', Inr True)"
    and "c = (if h_status_code resp < 500 then HTTP_4XX else HTTP_5XX)"
  shows "\<exists>g weekly due. feed_by_id (w_db w') i = Some g \<and> f_status g = ACTIVE \<and>
    f_consecutive_failures g = f_consecutive_failures feed + 1 \<and>
    compute_next_fetch_at (broken_again now c feed) now (fc_policy cfg) None weekly (env_random (fe_fetch fe)) = Inr due \<and>
    f_next_fetch_at g = (if due = f_next_fetch_at feed then rnow else due)"
proof -
  let ?v = "emit [InflightFetches 1] w"
  let ?row = "fst (reactivate rnow feed (w_events ?v))" and ?u = "fst (reactivate_feed rnow i ?v)"
  have id: "f_id feed = i" "f_id ?row = i" using feed_by_id_Some [OF assms(2)] by (simp_all add: reactivate_def)
  have u: "w_db ?u = flush_feed (w_db w) ?row" "w_domains ?u = w_domains w"
    using reactivate_feed_found [OF assms(1), of ?v feed rnow] assms(2) by simp_all
  have row: "feed_by_id (w_db ?u) (f_id feed) = Some ?row"
    using feed_by_id_flush [of "w_db w" ?row feed i] assms(2) id by (simp add: u)
  have "\<exists>trip. depart fe now i w = (?v, Inr (Some trip))"
    using assms(2,11) by (cases "week_before now") (auto simp: process_feed_during_def depart_def arrive_def split: sum.splits if_splits)
  then obtain trip where d: "depart fe now i w = (?v, Inr (Some trip))" by blast
  have trip: "fl_loaded trip = feed" "fl_now trip = now" using departure [OF d] assms(2) by simp_all
  obtain undone saved r where p: "land fe cfg trip ?u = ((undone, saved), r)" by (metis prod.exhaust)
  have "arrive i ((undone, saved), r) = (w', Inr True)" using assms(11) by (simp add: process_feed_during_def d p)
  then have r: "r = Inr ()" "w_db w' = w_db saved" by (auto simp: arrive_def split: sum.splits if_splits)
  have "answered (fe_fetch fe) cfg (fetch_session feed ?u) resp"
    using assms(4) u(2) by (simp add: answered_def fetch_session_def)
  from land_broken [OF p [unfolded r(1)] trip row assms(3) this assms(5-10,12)] obtain due where
    "feed_by_id (w_db saved) i = Some (merge_row feed ((broken_again now c feed)\<lparr>f_next_fetch_at := due\<rparr>) ?row)"
    "compute_next_fetch_at (broken_again now c feed) now (fc_policy cfg) None (fl_weekly trip) (env_random (fe_fetch fe)) = Inr due"
    unfolding id(1) by blast
  then show ?thesis unfolding r(2)
    by (intro exI [of _ "merge_row feed ((broken_again now c feed)\<lparr>f_next_fetch_at := due\<rparr>) ?row"] exI [of _ "fl_weekly trip"] exI [of _ due])
      (simp add: merge_column_def broken_again_def reactivate_def assms(3))
qed

definition broken_world :: world where
  "broken_world = sample_world\<lparr>w_db := flush_feed sample_db (sample_feed\<lparr>f_status := BROKEN, f_consecutive_failures := 5,
     f_last_successful_fetch_at := Some (sample_now - 3600000000)\<rparr>)\<rparr>"

abbreviation reactivated_in_flight :: "(world, exn, bool) outcome" where
  "reactivated_in_flight \<equiv> process_feed_during (\<lambda>v. fst (reactivate_feed (sample_now + 1000000) 1 v))
     (sample_feed_env (sample_env (sample_response 503))) sample_config sample_now 1 broken_world"

theorem reactivation_during_fetch_is_half_undone_witness:
  "\<exists>g. feed_by_id (w_db (fst reactivated_in_flight)) 1 = Some g \<and> f_status g = ACTIVE \<and>
     f_consecutive_failures g = 6 \<and> f_next_fetch_at g = sample_now + 480 * US"
proof -
  let ?f = "sample_feed\<lparr>f_status := BROKEN, f_consecutive_failures := 5,
     f_last_successful_fetch_at := Some (sample_now - 3600000000)\<rparr>"
  have f: "feed_by_id (w_db broken_world) 1 = Some ?f" by code_simp
  have h: "request_headers sample_config ?f = request_headers sample_config sample_feed"
    by (simp add: request_headers_def conditional_headers_def sample_feed_def py_or_def)
  have a: "answered (fe_fetch (sample_feed_env (sample_env (sample_response 503)))) sample_config
      (fetch_session ?f broken_world) (sample_response 503)"
    using sample_answered [of "sample_response 503"] h
    by (simp add: answered_def sample_feed_env_def fetch_session_def sample_state_def broken_world_def sample_world_def)
  have r: "documented_response (sample_response 503)" "400 \<le> h_status_code (sample_response 503)"
    "h_status_code (sample_response 503) < 600" "h_status_code (sample_response 503) \<notin> {403, 410, 429}"
    by (simp_all add: sample_response_def documented_response_def)
  have t: "timedelta_days (fc_dead_duration_days sample_config) = Inr 604800000000" by code_simp
  have "snd reactivated_in_flight = Inr True" by code_simp
  then have p: "reactivated_in_flight = (fst reactivated_in_flight, Inr True)" by (metis prod.collapse)
  have c: "compute_next_fetch_at (broken_again sample_now HTTP_5XX ?f) sample_now (fc_policy sample_config) None weekly
      (env_random (fe_fetch (sample_feed_env (sample_env (sample_response 503))))) = Inr (sample_now + 480 * US)" for weekly
    by code_simp
  show ?thesis
    using reactivation_during_fetch_is_half_undone [OF _ f _ a r t _ p refl] c
    by (auto simp: int4_def reference_time_def sample_response_def US_def sample_feed_def sample_now_def)
qed

end
