(* ===== verification/Documents.thy ===== *)
theory Documents
  imports Scheduler
begin

text \<open>
  A document on its way through \<open>fetch_one\<close> and \<open>_process_feed\<close>: the situation in which the server
  of a feed serves one, what \<open>ingest\<close> makes of it when the database accepts its entries and when it
  does not, and what a session leaves when it commits and when it rolls back.
\<close>

section \<open>Situations\<close>

text \<open>
  The server serves \<open>parsed\<close> with the headers \<open>hs\<close>: it answers the request with a 2xx response whose
  body is read to the end, is not refused by its content type and parses to \<open>parsed\<close>.
\<close>

definition serves_document :: "fetch_env \<Rightarrow> fetch_config \<Rightarrow> fetch_state \<Rightarrow> headers \<Rightarrow> string \<Rightarrow> parsed_feed \<Rightarrow> bool" where
  "serves_document env cfg s hs body parsed \<longleftrightarrow>
     (\<exists>resp. answered env cfg s resp \<and> documented_response resp \<and> 200 \<le> h_status_code resp \<and> h_status_code resp < 300 \<and>
        h_headers resp = hs \<and> read_body (fc_max_bytes cfg) (h_chunks resp) 0 [] = Inr body) \<and>
     \<not> is_not_a_feed_content_type (hs ''content-type'') \<and> parse_sync (env_fp_parse env) body = Inr parsed"

text \<open>It publishes \<open>parsed\<close>: also, the cache headers can be evaluated and the database accepts the entries.\<close>

definition publishes :: "fetch_env \<Rightarrow> fetch_config \<Rightarrow> instant \<Rightarrow> fetch_state \<Rightarrow> bool \<Rightarrow> parsed_feed \<Rightarrow> bool" where
  "publishes env cfg now s existing parsed \<longleftrightarrow>
     (\<exists>hs body hint. serves_document env cfg s hs body parsed \<and>
        list_all (env_accepts env) (entries_to_upsert cfg existing (pf_entries parsed)) \<and>
        parse_cache_hint (env_parsedate env) hs now = Inr hint)"

section \<open>The stages of a fetch\<close>

lemma obtain_received:
  assumes "serves_document env cfg s hs body parsed"
  obtains resp where "obtain_document env cfg now weekly (started now s) =
    (on_feed (persist_moved resp) (started now s), Inr (Document hs body))"
proof -
  obtain resp where r: "answered env cfg s resp" "documented_response resp" "200 \<le> h_status_code resp" "h_status_code resp < 300"
    "h_headers resp = hs" "read_body (fc_max_bytes cfg) (h_chunks resp) 0 [] = Inr body"
    using assms by (auto simp: serves_document_def)
  have "h_raise_for_status resp = Inr ()" using r(2-4) by (simp add: documented_response_def)
  then have "handle_response env cfg now weekly host resp x =
      (on_feed (persist_moved resp) x, Inr (Document hs body))" for host x
    using r(3-6) by (simp add: handle_response_def receive_def lift_result_def)
  with obtain_answered [OF r(1), of now weekly] show thesis using that by auto
qed

text \<open>The rest of the attempt, from the state in which the document has arrived.\<close>

lemma attempt_received:
  assumes "serves_document env cfg s hs body parsed"
  obtains resp where "attempt env cfg now weekly (started now s) =
    apsnd (map_sum id (\<lambda>_. False)) (ingest env cfg now hs body (on_feed (persist_moved resp) (started now s)))"
proof -
  obtain resp where r: "obtain_document env cfg now weekly (started now s) =
    (on_feed (persist_moved resp) (started now s), Inr (Document hs body))" by (rule obtain_received [OF assms])
  obtain x y where "ingest env cfg now hs body (on_feed (persist_moved resp) (started now s)) = (x, y)" by fastforce
  then have "attempt env cfg now weekly (started now s) =
      apsnd (map_sum id (\<lambda>_. False)) (ingest env cfg now hs body (on_feed (persist_moved resp) (started now s)))"
    by (cases y) (simp_all add: attempt_def r)
  then show thesis by (rule that)
qed

lemma store_entries_accepted:
  assumes "i = f_id (fs_feed s)" "ps = entries_to_upsert cfg (has_entries (fs_db s) i) qs" "list_all (env_accepts env) ps"
  shows "\<exists>t. store_entries env cfg now qs s = (t, Inr ()) \<and> fs_db t = foldl (upsert_one i now (env_db_now env)) (fs_db s) ps"
proof -
  have tw: "takeWhile (env_accepts env) ps = ps" using assms(3) by (simp add: list_all_iff)
  have "qs = [] \<Longrightarrow> ps = []" using assms(2) by (simp add: entries_to_upsert_def slice_to_def)
  with assms(3) show ?thesis unfolding store_entries_def Let_def assms(1) [symmetric] assms(2) [symmetric]
    by (auto simp: upsert_entries_eq tw)
qed

lemma ingest_accepted:
  assumes "\<not> is_not_a_feed_content_type (hs ''content-type'')" "parse_sync (env_fp_parse env) body = Inr parsed"
    and "parse_cache_hint (env_parsedate env) hs now = Inr hint"
    and "i = f_id (fs_feed s)" "ps = entries_to_upsert cfg (has_entries (fs_db s) i) (pf_entries parsed)"
    and "list_all (env_accepts env) ps"
  shows "\<exists>t. ingest env cfg now hs body s = (t, Inr ()) \<and> fs_db t = foldl (upsert_one i now (env_db_now env)) (fs_db s) ps \<and>
    fs_server_hint t = ttl_hint (pf_ttl_seconds parsed) hint"
proof -
  obtain u where u: "store_entries env cfg now (pf_entries parsed) s = (u, Inr ())"
    "fs_db u = foldl (upsert_one i now (env_db_now env)) (fs_db s) ps" using store_entries_accepted [OF assms(4-6)] by blast
  have "fs_db (succeed now title x) = fs_db x" for title x using calm_db [OF calm_succeed] .
  with u assms(1-3) show ?thesis by (simp add: ingest_def lift_result_def)
qed

lemma ingest_rejected:
  assumes "\<not> is_not_a_feed_content_type (hs ''content-type'')" "parse_sync (env_fp_parse env) body = Inr parsed"
    and "ps = entries_to_upsert cfg (has_entries (fs_db s) (f_id (fs_feed s))) (pf_entries parsed)"
    and "\<not> list_all (env_accepts env) ps" "env_reject_aborts env"
  shows "\<exists>t. ingest env cfg now hs body s = (t, Inl (raise_exn DBAPIError)) \<and> fs_aborted t \<and> fs_events t = fs_events s"
proof -
  have "pf_entries parsed = [] \<Longrightarrow> ps = []" using assms(3) by (simp add: entries_to_upsert_def slice_to_def)
  with assms(4) have "pf_entries parsed \<noteq> []" by auto
  with assms show ?thesis
    by (simp add: ingest_def lift_result_def store_entries_def Let_def upsert_entries_eq case_prod_unfold)
qed

section \<open>The end of a session\<close>

lemma process_feed_committed:
  assumes "process_feed fe cfg now i w = (w', Inr True)" "feed_by_id (w_db w) i = Some feed"
  obtains t where
    "fetch_one (fe_fetch fe) cfg now (fetch_session feed (emit [InflightFetches 1] w)) = (t, Inr ())"
    "w_db w' = flush_feed (fs_db t) (fs_feed t)"
proof -
  let ?v = "emit [InflightFetches 1] w"
  obtain t r where t: "fetch_one (fe_fetch fe) cfg now (fetch_session feed ?v) = (t, r)" by fastforce
  obtain undone saved q where b: "process_body fe cfg now i ?v = ((undone, saved), q)" by (metis prod.exhaust)
  with assms(1) have q: "q = Inr ()" "w' = emit [InflightFetches (- 1)] saved"
    by (auto simp: process_feed_def split: sum.splits if_splits)
  with b t assms(2) have "r = Inr ()" "saved = commit_session ?v t"
    by (auto simp: process_body_def Let_def split: sum.splits if_splits)
  with t q(2) show thesis using that by (simp add: commit_session_def)
qed

text \<open>
  A fetch that ends in an \<open>Exception\<close>, or in a transaction the database has aborted, ends the session
  with a rollback.
\<close>

lemma process_feed_undone:
  assumes "fe_load fe = Inr ()" "feed_by_id (w_db w) i = Some feed"
    and "fetch_one (fe_fetch fe) cfg now (fetch_session feed (emit [InflightFetches 1] w)) = (t, q)"
    and "case q of Inl e \<Rightarrow> caught e | Inr _ \<Rightarrow> fs_aborted t"
  shows "\<exists>w'. process_feed fe cfg now i w = (w', Inr False) \<and> feeds_tbl (w_db w') = feeds_tbl (w_db w) \<and>
    entries_tbl (w_db w') = entries_tbl (w_db w) \<and> results_of (w_events w') = results_of (fs_events t)"
proof -
  let ?v = "emit [InflightFetches 1] w"
  obtain e where "process_body fe cfg now i ?v = ((roll_back ?v t, roll_back ?v t), Inl e)" "caught e"
    using assms by (cases q) (simp_all add: process_body_def is_Exception_def Let_def)
  then show ?thesis by (simp add: process_feed_def roll_back_def rollback_to_def)
qed

section \<open>A concrete document\<close>

lemma sample_serves:
  assumes "resp = (sample_response 200)\<lparr>h_headers := hs\<rparr>" "\<not> is_not_a_feed_content_type (hs ''content-type'')" "w_domains w = {}"
  shows "serves_document ((sample_env resp)\<lparr>env_accepts := acc\<rparr>) sample_config (fetch_session sample_feed w) hs ''<rss/>'' sample_parsed_feed"
proof -
  have "answered ((sample_env resp)\<lparr>env_accepts := acc\<rparr>) sample_config (fetch_session sample_feed w) resp"
    using sample_answered [of resp] assms(3) by (simp add: answered_def fetch_session_def sample_state_def)
  moreover have "documented_response resp" "200 \<le> h_status_code resp" "h_status_code resp < 300" "h_headers resp = hs"
    "read_body (fc_max_bytes sample_config) (h_chunks resp) 0 [] = Inr ''<rss/>''"
    by (simp_all add: assms(1) sample_response_def documented_response_def sample_config_def)
  moreover have "parse_sync (env_fp_parse ((sample_env resp)\<lparr>env_accepts := acc\<rparr>)) ''<rss/>'' = Inr sample_parsed_feed"
    using sample_parse by (simp add: sample_env_def)
  ultimately show ?thesis using assms(2) unfolding serves_document_def by blast
qed

end
