(* ===== verification/Delivery.thy ===== *)
theory Delivery
  imports Documents Api_App
begin

text \<open>
  From the publisher to the reader: the composition of \<open>tick_once\<close> (the claim and the sessions of
  \<open>_process_feed\<close>), \<open>fetch_one\<close>, the parser, the upsert and \<open>GET /v1/entries\<close>. What the server of a
  claimed feed answers with is what a client finds when it pages through the entries of the feed.
\<close>

section \<open>What a successful fetch has stored\<close>






section \<open>From the answer of the server to the pages of the API\<close>




section \<open>The session among the others of its tick\<close>








section \<open>From the publisher to the reader\<close>





end
