(* ===== verification/Lost_Attempts.thy ===== *)
theory Lost_Attempts
  imports Documents
begin

text \<open>
  Where the bookkeeping of \<open>fetch_one\<close> is lost: attempts that the metrics count and of which the
  rollback of \<open>_process_feed\<close> (\<open>fetcher/scheduler.py\<close>) leaves no trace in the database.
\<close>

section \<open>Facts\<close>

lemma compute_next_fetch_at_raises:
  "compute_next_fetch_at feed now cfg hint weekly u = Inl e \<Longrightarrow> caught e"
  by (auto simp: compute_next_fetch_at_def Let_def try_bind_eq_Inl is_Exception_def timedelta_seconds_def
      dest!: check_timedelta_err dt_add_err split: if_splits)

lemma schedule_next_raises:
  assumes "schedule_next env cfg now weekly s = (t, Inl e)"
  shows "caught e"
  using assms compute_next_fetch_at_raises by (auto simp: schedule_next_def lift_result_def and_then_def split: sum.splits)

text \<open>A server hint that leads beyond the calendar makes the schedule raise, whatever the other numbers are.\<close>

lemma hint_beyond_calendar:
  assumes "f_status feed \<noteq> BROKEN" "0 \<le> h" "dt_max < now + h * US"
  shows "\<exists>e. compute_next_fetch_at feed now cfg (Some h) weekly u = Inl e"
proof (rule ccontr)
  assume "\<not> ?thesis"
  then obtain t where "compute_next_fetch_at feed now cfg (Some h) weekly u = Inr t"
    by (cases "compute_next_fetch_at feed now cfg (Some h) weekly u") auto
  then obtain c where "try_bind (timedelta_seconds (max c (of_int h))) (\<lambda>d. dt_add now d) = Inr t"
    using assms(1) by (auto simp: compute_next_fetch_at_def try_bind_eq_Inr Let_def split: if_splits)
  from try_timedelta [OF this] have "t = now + us_of_seconds (max c (of_int h))" "valid_instant t" by blast+
  moreover have "h * 1000000 \<le> us_of_seconds (max c (of_int h))" by (rule us_of_seconds_ge [OF assms(2)]) simp
  ultimately show False using assms(3) by (simp add: valid_instant_def US_def)
qed

lemma record_failure_counts:
  assumes "timedelta_days (fc_dead_duration_days cfg) = Inr limit"
  obtains t where "record_failure env cfg now e s = (t, Inr ())" "fs_aborted t = fs_aborted s"
    "results_of (fs_events t) = results_of (fs_events s) @ [''error'']"
proof -
  have m: "snd (mark_fetch_failure (fs_feed s) now c bt (fc_dead_duration_days cfg) ev) = Inr ()" for c bt ev
    using assms by (auto simp: mark_fetch_failure_def Let_def)
  obtain t where "record_failure env cfg now e s = (t, Inr ())" "fs_aborted t = fs_aborted s"
    using m [of "classify_error e" "broken_threshold (fc_policy cfg)" "fs_events s"]
    by (cases "mark_fetch_failure (fs_feed s) now (classify_error e) (broken_threshold (fc_policy cfg))
      (fc_dead_duration_days cfg) (fs_events s)") (auto simp: record_failure_def Let_def split: prod.splits)
  with that reports_record_failure [of s env cfg now e] show thesis by (simp add: reports_def)
qed

lemma rejected_attempt:
  assumes "serves_document env cfg s hs body parsed" "week_before now = Inr cutoff"
    and "\<not> list_all (env_accepts env) (entries_to_upsert cfg (has_entries (fs_db s) (f_id (fs_feed s))) (pf_entries parsed))"
    and "env_reject_aborts env" "timedelta_days (fc_dead_duration_days cfg) = Inr limit"
    and "fetch_one env cfg now s = (t, q)"
  shows "(case q of Inl e \<Rightarrow> caught e | Inr _ \<Rightarrow> fs_aborted t) \<and> results_of (fs_events t) = results_of (fs_events s) @ [''error'']"
proof -
  let ?w = "recent_entries s cutoff"
  obtain resp where att: "attempt env cfg now ?w (started now s) =
    apsnd (map_sum id (\<lambda>_. False)) (ingest env cfg now hs body (on_feed (persist_moved resp) (started now s)))"
    by (rule attempt_received [OF assms(1), where now = now and weekly = ?w])
  obtain x where x: "ingest env cfg now hs body (on_feed (persist_moved resp) (started now s)) = (x, Inl (raise_exn DBAPIError))"
    "fs_aborted x" "fs_events x = fs_events s"
    using ingest_rejected [of hs env body parsed _ cfg "on_feed (persist_moved resp) (started now s)", OF _ _ refl] assms(1,3,4)
    by (auto simp: serves_document_def)
  obtain y where y: "record_failure env cfg now (raise_exn DBAPIError) x = (y, Inr ())" "fs_aborted y"
    "results_of (fs_events y) = results_of (fs_events s) @ [''error'']"
    using record_failure_counts [OF assms(5), of env now "raise_exn DBAPIError" x] x(2,3) by metis
  have t: "schedule_next env cfg now ?w y = (t, q)"
    using assms(6) fetch_one_unfold [OF assms(2), of env cfg s] att x(1) y(1) by (simp add: is_Exception_def)
  moreover have "fs_aborted t = fs_aborted y" using t by (auto simp: schedule_next_def lift_result_def and_then_def split: sum.splits)
  moreover have "fs_events t = fs_events y" using t schedule_next_frame(8) by (metis fst_conv)
  ultimately show ?thesis using y(2,3) schedule_next_raises by (auto split: sum.splits)
qed

lemma discarded_success:
  assumes "serves_document env cfg s hs body parsed" "week_before now = Inr cutoff"
    and "list_all (env_accepts env) (entries_to_upsert cfg (has_entries (fs_db s) (f_id (fs_feed s))) (pf_entries parsed))"
    and "parse_cache_hint (env_parsedate env) hs now = Inr hint" "ttl_hint (pf_ttl_seconds parsed) hint = Some h"
    and "0 \<le> h" "dt_max < now + h * US" "fetch_one env cfg now s = (t, q)"
  shows "(\<exists>e. q = Inl e \<and> caught e) \<and> results_of (fs_events t) = results_of (fs_events s) @ [''success'']"
proof -
  let ?w = "recent_entries s cutoff"
  obtain resp where att: "attempt env cfg now ?w (started now s) =
    apsnd (map_sum id (\<lambda>_. False)) (ingest env cfg now hs body (on_feed (persist_moved resp) (started now s)))"
    by (rule attempt_received [OF assms(1), where now = now and weekly = ?w])
  let ?u = "on_feed (persist_moved resp) (started now s)"
  obtain x where x: "ingest env cfg now hs body ?u = (x, Inr ())" "fs_server_hint x = Some h"
    using ingest_accepted [of hs env body parsed now hint _ ?u _ cfg, OF _ _ assms(4) refl refl] assms(1,3,5)
    by (auto simp: serves_document_def)
  have r: "results_of (fs_events x) = results_of (fs_events s) @ [''success'']"
    using reports_ingest [of ?u env cfg now hs body] x(1) by (simp add: reports_def)
  have "f_status (fs_feed x) \<noteq> BROKEN" using ingest_ok [OF x(1)] by simp
  then obtain e where "compute_next_fetch_at (fs_feed x) now (fc_policy cfg) (fs_server_hint x) ?w (env_random env) = Inl e"
    using hint_beyond_calendar [OF _ assms(6,7)] x(2) by metis
  then have "schedule_next env cfg now ?w x = (x, Inl e)" "caught e"
    using compute_next_fetch_at_raises by (auto simp: schedule_next_def lift_result_def)
  moreover have "schedule_next env cfg now ?w x = (t, q)"
    using assms(8) fetch_one_unfold [OF assms(2), of env cfg s] att x(1) by simp
  ultimately show ?thesis using r by simp
qed

lemma hint_nonneg:
  assumes "parse_cache_hint pd hs now = Inr hint" "ttl_hint ttl hint = Some h"
  shows "0 \<le> h"
  using assms parse_cache_hint_nonneg by (auto simp: ttl_hint_def Let_def split: option.splits if_splits)

section \<open>Properties\<close>

text \<open>
  C34: Attempts that are counted and lost. The server of a feed serves a document that parses. If
  PostgreSQL rejects one of the entries that pass the caps, and so aborts the transaction, the
  session ends as fatal: the metrics count an error, but both tables keep every row as it was,
  the failure counter of the feed included, so that the feed never becomes broken however
  often this happens. And if all entries are accepted but the hint of the cache headers or of the
  document's \<open>ttl\<close> leads beyond the calendar, the next fetch cannot be computed, outside the \<open>try\<close>:
  the metrics count a success, and both tables keep every row as it was, without the entries.
\<close>

theorem counted_attempts_are_lost:
  assumes "fe_load fe = Inr ()" "feed_by_id (w_db w) i = Some feed" "week_before now = Inr cutoff"
    and "serves_document (fe_fetch fe) cfg (fetch_session feed w) hs body parsed"
    and "accepted \<longleftrightarrow> list_all (env_accepts (fe_fetch fe)) (entries_to_upsert cfg (has_entries (w_db w) i) (pf_entries parsed))"
    and "(if accepted
        then \<exists>hint h. parse_cache_hint (env_parsedate (fe_fetch fe)) hs now = Inr hint \<and>
          ttl_hint (pf_ttl_seconds parsed) hint = Some h \<and> dt_max < now + h * US
        else env_reject_aborts (fe_fetch fe) \<and> (\<exists>limit. timedelta_days (fc_dead_duration_days cfg) = Inr limit))"
  shows "\<exists>w'. process_feed fe cfg now i w = (w', Inr False) \<and>
    results_of (w_events w') = results_of (w_events w) @ [if accepted then ''success'' else ''error''] \<and>
    feeds_tbl (w_db w') = feeds_tbl (w_db w) \<and> entries_tbl (w_db w') = entries_tbl (w_db w)"
proof -
  let ?s = "fetch_session feed (emit [InflightFetches 1] w)"
  obtain t q where f: "fetch_one (fe_fetch fe) cfg now ?s = (t, q)" by fastforce
  have s: "serves_document (fe_fetch fe) cfg ?s hs body parsed" "f_id (fs_feed ?s) = i" "fs_db ?s = w_db w"
    "results_of (fs_events ?s) = results_of (w_events w)"
    using assms(4) feed_by_id_Some [OF assms(2)] by (simp_all add: serves_document_def answered_def fetch_session_def)
  have "(case q of Inl e \<Rightarrow> caught e | Inr _ \<Rightarrow> fs_aborted t) \<and>
    results_of (fs_events t) = results_of (w_events w) @ [if accepted then ''success'' else ''error'']"
  proof (cases accepted)
    case True
    then obtain hint h where h: "parse_cache_hint (env_parsedate (fe_fetch fe)) hs now = Inr hint"
      "ttl_hint (pf_ttl_seconds parsed) hint = Some h" "dt_max < now + h * US" using assms(6) by auto
    with discarded_success [OF s(1) assms(3) _ h(1,2) hint_nonneg [OF h(1,2)] h(3) f] True assms(5) s(2-4)
    show ?thesis by auto
  next
    case False
    then obtain limit where "timedelta_days (fc_dead_duration_days cfg) = Inr limit" using assms(6) by auto
    from rejected_attempt [OF s(1) assms(3) _ _ this f] False assms(5,6) s(2-4) show ?thesis by simp
  qed
  with process_feed_undone [OF assms(1,2) f] show ?thesis by auto
qed

text \<open>Two such runs: a rejected entry, and a \<open>max-age\<close> of some thirty million years.\<close>

definition endless_max_age :: headers where
  "endless_max_age = (\<lambda>k. if k = ''cache-control'' then Some ''max-age=999999999999999'' else None)"

theorem counted_attempts_are_lost_witness:
  "(\<exists>w'. process_feed (sample_feed_env ((sample_env (sample_response 200))\<lparr>env_accepts := \<lambda>_. False\<rparr>)) sample_config sample_now 1
       sample_world = (w', Inr False) \<and> results_of (w_events w') = [''error''] \<and> feeds_tbl (w_db w') = [sample_feed]) \<and>
   (\<exists>w'. process_feed (sample_feed_env (sample_env ((sample_response 200)\<lparr>h_headers := endless_max_age\<rparr>))) sample_config sample_now 1
       sample_world = (w', Inr False) \<and> results_of (w_events w') = [''success''] \<and> entries_tbl (w_db w') = entries_tbl sample_db)"
proof -
  have w: "feed_by_id (w_db sample_world) 1 = Some sample_feed" "w_domains sample_world = {}" "w_db sample_world = sample_db"
    "w_events sample_world = []" "feeds_tbl sample_db = [sample_feed]"
    by (simp_all add: sample_world_def feed_by_id_def sample_db_def) (simp add: sample_feed_def)
  have load: "fe_load (sample_feed_env env) = Inr ()" "fe_fetch (sample_feed_env env) = env" for env
    by (simp_all add: sample_feed_env_def)
  let ?r = "sample_response 200" and ?m = "(sample_response 200)\<lparr>h_headers := endless_max_age\<rparr>"
  let ?no = "(sample_env ?r)\<lparr>env_accepts := \<lambda>_. False\<rparr>"
  have no: "serves_document ?no sample_config (fetch_session sample_feed sample_world) (h_headers ?r) ''<rss/>'' sample_parsed_feed"
    using sample_serves [of ?r "h_headers ?r" sample_world "\<lambda>_. False"] w(2) by (simp add: sample_response_def is_not_a_feed_content_type_def)
  have rejected: "\<not> list_all (env_accepts ?no) (entries_to_upsert sample_config (has_entries (w_db sample_world) 1) (pf_entries sample_parsed_feed))"
    "env_reject_aborts ?no" "timedelta_days (fc_dead_duration_days sample_config) = Inr 604800000000" by code_simp+
  have mx: "serves_document (sample_env ?m) sample_config (fetch_session sample_feed sample_world) endless_max_age ''<rss/>'' sample_parsed_feed"
    using sample_serves [of ?m endless_max_age sample_world "env_accepts (sample_env ?m)"] w(2)
    by (simp add: endless_max_age_def is_not_a_feed_content_type_def)
  have accepted: "list_all (env_accepts (sample_env ?m)) (entries_to_upsert sample_config (has_entries (w_db sample_world) 1) (pf_entries sample_parsed_feed))"
    "parse_cache_hint (env_parsedate (sample_env ?m)) endless_max_age sample_now = Inr (Some 999999999999999)"
    "ttl_hint (pf_ttl_seconds sample_parsed_feed) (Some 999999999999999) = Some 999999999999999"
    "dt_max < sample_now + 999999999999999 * US" by code_simp+
  have "\<exists>w'. process_feed (sample_feed_env ?no) sample_config sample_now 1 sample_world = (w', Inr False) \<and>
      results_of (w_events w') = results_of (w_events sample_world) @ [if False then ''success'' else ''error''] \<and>
      feeds_tbl (w_db w') = feeds_tbl (w_db sample_world) \<and> entries_tbl (w_db w') = entries_tbl (w_db sample_world)"
    by (rule counted_attempts_are_lost [OF load(1) w(1) sample_week, unfolded load(2), OF no]) (use rejected in auto)
  moreover have "\<exists>w'. process_feed (sample_feed_env (sample_env ?m)) sample_config sample_now 1 sample_world = (w', Inr False) \<and>
      results_of (w_events w') = results_of (w_events sample_world) @ [if True then ''success'' else ''error''] \<and>
      feeds_tbl (w_db w') = feeds_tbl (w_db sample_world) \<and> entries_tbl (w_db w') = entries_tbl (w_db sample_world)"
    by (rule counted_attempts_are_lost [OF load(1) w(1) sample_week, unfolded load(2), OF mx]) (use accepted in auto)
  ultimately show ?thesis using w(3-5) by auto
qed

end
