(* ===== verification/Migrations.thy ===== *)
theory Migrations
  imports PyExn
begin

text \<open>
  \<open>alembic/versions\<close>: the five revisions of the schema as lists of statements, what each statement
  does to a schema (or that PostgreSQL refuses it), and the schema that the ORM classes of
  \<open>models.py\<close> declare. \<open>alembic\<close> runs the pending revisions of one command in one transaction, so a
  refused statement leaves the schema as it was. Tables, columns and indexes are kept in the order
  of their creation; two schemas are the same if they differ in the order of columns and
  indexes only, because every statement of the program names its columns.
\<close>

section \<open>Schemas\<close>

datatype sql_type = SInteger | SText | SString int | STimestamptz

datatype server_default = DefaultText string | DefaultNow

record db_column =
  c_name :: string
  c_type :: sql_type
  c_nullable :: bool
  c_default :: "server_default option"
  c_autoincrement :: bool

datatype db_constraint =
    PrimaryKeyConstraint "string list"
  | UniqueConstraint "string option" "string list"
  | ForeignKeyCascade "string list" string "string list"

record db_table =
  t_name :: string
  t_columns :: "db_column list"
  t_constraints :: "db_constraint list"

record db_index =
  ix_name :: string
  ix_table :: string
  ix_columns :: "(string \<times> bool) list"
  ix_where :: "string option"

record db_schema =
  s_tables :: "db_table list"
  s_indexes :: "db_index list"

definition empty_schema :: db_schema where
  "empty_schema = \<lparr>s_tables = [], s_indexes = []\<rparr>"

section \<open>Statements\<close>

datatype ddl =
    CreateTable db_table
  | DropTable string
  | CreateIndex db_index
  | DropIndex string
  | AddColumn string db_column
  | DropColumn string string

definition has_columns :: "db_schema \<Rightarrow> string \<Rightarrow> string list \<Rightarrow> bool" where
  "has_columns s n cs = list_ex (\<lambda>t. t_name t = n \<and> list_all (\<lambda>c. c \<in> c_name ` set (t_columns t)) cs) (s_tables s)"

fun refers_to :: "string \<Rightarrow> string list \<Rightarrow> db_constraint \<Rightarrow> bool" where
  "refers_to n cs (ForeignKeyCascade _ m ds) = (n = m \<and> (cs = [] \<or> list_ex (\<lambda>d. d \<in> set cs) ds))"
| "refers_to n cs _ = False"

text \<open>Whether another table has a foreign key to one of the columns (to any, for no columns).\<close>

definition referenced :: "db_schema \<Rightarrow> string \<Rightarrow> string list \<Rightarrow> bool" where
  "referenced s n cs = list_ex (\<lambda>t. t_name t \<noteq> n \<and> list_ex (refers_to n cs) (t_constraints t)) (s_tables s)"

fun mentions :: "string \<Rightarrow> db_constraint \<Rightarrow> bool" where
  "mentions c (PrimaryKeyConstraint cs) = (c \<in> set cs)"
| "mentions c (UniqueConstraint _ cs) = (c \<in> set cs)"
| "mentions c (ForeignKeyCascade cs _ _) = (c \<in> set cs)"

fun key_exists :: "db_schema \<Rightarrow> db_constraint \<Rightarrow> bool" where
  "key_exists s (ForeignKeyCascade _ n ds) = has_columns s n ds"
| "key_exists s _ = True"

definition relation_names :: "db_schema \<Rightarrow> string set" where
  "relation_names s = t_name ` set (s_tables s) \<union> ix_name ` set (s_indexes s)"

definition refuse_unless :: "bool \<Rightarrow> 'a \<Rightarrow> exn + 'a" where
  "refuse_unless ok a = (if ok then Inr a else Inl (raise_exn DBAPIError))"

fun apply_ddl :: "ddl \<Rightarrow> db_schema \<Rightarrow> exn + db_schema" where
  "apply_ddl (CreateTable t) s =
     refuse_unless (t_name t \<notin> relation_names s \<and> list_all (key_exists s) (t_constraints t))
       (s\<lparr>s_tables := s_tables s @ [t]\<rparr>)"
| "apply_ddl (DropTable n) s =
     refuse_unless (has_columns s n [] \<and> \<not> referenced s n [])
       (s\<lparr>s_tables := filter (\<lambda>t. t_name t \<noteq> n) (s_tables s), s_indexes := filter (\<lambda>i. ix_table i \<noteq> n) (s_indexes s)\<rparr>)"
| "apply_ddl (CreateIndex i) s =
     refuse_unless (ix_name i \<notin> relation_names s \<and> has_columns s (ix_table i) (map fst (ix_columns i)))
       (s\<lparr>s_indexes := s_indexes s @ [i]\<rparr>)"
| "apply_ddl (DropIndex n) s =
     refuse_unless (n \<in> ix_name ` set (s_indexes s)) (s\<lparr>s_indexes := filter (\<lambda>i. ix_name i \<noteq> n) (s_indexes s)\<rparr>)"
| "apply_ddl (AddColumn n c) s =
     refuse_unless (has_columns s n [] \<and> \<not> has_columns s n [c_name c])
       (s\<lparr>s_tables := update_where (\<lambda>t. t_name t = n) (\<lambda>t. t\<lparr>t_columns := t_columns t @ [c]\<rparr>) (s_tables s)\<rparr>)"
| "apply_ddl (DropColumn n c) s =
     refuse_unless (has_columns s n [c] \<and> \<not> referenced s n [c])
       (s\<lparr>s_tables := update_where (\<lambda>t. t_name t = n)
            (\<lambda>t. t\<lparr>t_columns := filter (\<lambda>d. c_name d \<noteq> c) (t_columns t),
                   t_constraints := filter (\<lambda>k. \<not> mentions c k) (t_constraints t)\<rparr>) (s_tables s),
          s_indexes := filter (\<lambda>i. \<not> (ix_table i = n \<and> c \<in> fst ` set (ix_columns i))) (s_indexes s)\<rparr>)"

fun apply_all :: "ddl list \<Rightarrow> db_schema \<Rightarrow> exn + db_schema" where
  "apply_all [] s = Inr s"
| "apply_all (x # xs) s = try_bind (apply_ddl x s) (apply_all xs)"

section \<open>Revisions\<close>

definition column :: "string \<Rightarrow> sql_type \<Rightarrow> bool \<Rightarrow> db_column" where
  "column n ty nullable = \<lparr>c_name = n, c_type = ty, c_nullable = nullable, c_default = None, c_autoincrement = False\<rparr>"

definition upgrade_0001 :: "ddl list" where
  "upgrade_0001 =
     [CreateTable
        \<lparr>t_name = ''feeds'',
         t_columns =
           [(column ''id'' SInteger False)\<lparr>c_autoincrement := True\<rparr>,
            column ''url'' SText False,
            column ''effective_url'' SText False,
            column ''title'' SText True,
            (column ''status'' (SString 32) False)\<lparr>c_default := Some (DefaultText ''active'')\<rparr>,
            column ''last_successful_fetch_at'' STimestamptz True,
            column ''last_attempt_at'' STimestamptz True,
            column ''last_error_code'' (SString 64) True,
            (column ''created_at'' STimestamptz False)\<lparr>c_default := Some DefaultNow\<rparr>,
            (column ''next_fetch_at'' STimestamptz False)\<lparr>c_default := Some DefaultNow\<rparr>,
            column ''etag'' SText True,
            column ''last_modified'' SText True,
            (column ''consecutive_failures'' SInteger False)\<lparr>c_default := Some (DefaultText ''0'')\<rparr>],
         t_constraints = [PrimaryKeyConstraint [''id''], UniqueConstraint None [''url'']]\<rparr>,
      CreateIndex \<lparr>ix_name = ''ix_feeds_status'', ix_table = ''feeds'', ix_columns = [(''status'', False)], ix_where = None\<rparr>,
      CreateIndex \<lparr>ix_name = ''ix_feeds_next_fetch_at_active'', ix_table = ''feeds'', ix_columns = [(''next_fetch_at'', False)],
                   ix_where = Some (''status = '' @ [CHR 0x27] @ ''active'' @ [CHR 0x27])\<rparr>,
      CreateTable
        \<lparr>t_name = ''entries'',
         t_columns =
           [(column ''id'' SInteger False)\<lparr>c_autoincrement := True\<rparr>,
            column ''feed_id'' SInteger False,
            column ''guid'' SText False,
            column ''url'' SText False,
            column ''title'' SText True,
            column ''content'' SText True,
            column ''author'' SText True,
            column ''published_at'' STimestamptz True,
            column ''fetched_at'' STimestamptz False,
            column ''content_updated_at'' STimestamptz False],
         t_constraints =
           [ForeignKeyCascade [''feed_id''] ''feeds'' [''id''], PrimaryKeyConstraint [''id''],
            UniqueConstraint (Some ''uq_entries_feed_guid'') [''feed_id'', ''guid'']]\<rparr>,
      CreateIndex \<lparr>ix_name = ''ix_entries_fetched_at'', ix_table = ''entries'', ix_columns = [(''fetched_at'', False)], ix_where = None\<rparr>,
      CreateIndex \<lparr>ix_name = ''ix_entries_feed_pub_id'', ix_table = ''entries'',
                   ix_columns = [(''feed_id'', False), (''published_at'', True), (''id'', True)], ix_where = None\<rparr>]"

definition downgrade_0001 :: "ddl list" where
  "downgrade_0001 =
     [DropIndex ''ix_entries_feed_pub_id'', DropIndex ''ix_entries_fetched_at'', DropTable ''entries'',
      DropIndex ''ix_feeds_next_fetch_at_active'', DropIndex ''ix_feeds_status'', DropTable ''feeds'']"

definition upgrade_0002 :: "ddl list" where
  "upgrade_0002 =
     [DropIndex ''ix_feeds_next_fetch_at_active'',
      CreateIndex \<lparr>ix_name = ''ix_feeds_due_not_dead'', ix_table = ''feeds'', ix_columns = [(''next_fetch_at'', False)],
                   ix_where = Some (''status <> '' @ [CHR 0x27] @ ''dead'' @ [CHR 0x27])\<rparr>,
      CreateIndex \<lparr>ix_name = ''ix_feeds_dead_last_attempt'', ix_table = ''feeds'', ix_columns = [(''last_attempt_at'', False)],
                   ix_where = Some (''status = '' @ [CHR 0x27] @ ''dead'' @ [CHR 0x27])\<rparr>]"

definition downgrade_0002 :: "ddl list" where
  "downgrade_0002 =
     [DropIndex ''ix_feeds_dead_last_attempt'', DropIndex ''ix_feeds_due_not_dead'',
      CreateIndex \<lparr>ix_name = ''ix_feeds_next_fetch_at_active'', ix_table = ''feeds'', ix_columns = [(''next_fetch_at'', False)],
                   ix_where = Some (''status = '' @ [CHR 0x27] @ ''active'' @ [CHR 0x27])\<rparr>]"

definition upgrade_0003 :: "ddl list" where
  "upgrade_0003 =
     [CreateIndex \<lparr>ix_name = ''ix_entries_feed_fetched_id'', ix_table = ''entries'',
                   ix_columns = [(''feed_id'', False), (''fetched_at'', True), (''id'', True)], ix_where = None\<rparr>]"

definition downgrade_0003 :: "ddl list" where
  "downgrade_0003 = [DropIndex ''ix_entries_feed_fetched_id'']"

definition upgrade_0004 :: "ddl list" where
  "upgrade_0004 = [DropColumn ''feeds'' ''etag'', DropColumn ''feeds'' ''last_modified'']"

definition downgrade_0004 :: "ddl list" where
  "downgrade_0004 =
     [AddColumn ''feeds'' (column ''etag'' SText True), AddColumn ''feeds'' (column ''last_modified'' SText True)]"

definition upgrade_0005 :: "ddl list" where
  "upgrade_0005 =
     [AddColumn ''feeds'' (column ''etag'' SText True), AddColumn ''feeds'' (column ''last_modified'' SText True)]"

definition downgrade_0005 :: "ddl list" where
  "downgrade_0005 = [DropColumn ''feeds'' ''last_modified'', DropColumn ''feeds'' ''etag'']"

text \<open>The revisions along \<open>down_revision\<close>, each with its statements up and down.\<close>

definition revisions :: "(ddl list \<times> ddl list) list" where
  "revisions = [(upgrade_0001, downgrade_0001), (upgrade_0002, downgrade_0002), (upgrade_0003, downgrade_0003),
     (upgrade_0004, downgrade_0004), (upgrade_0005, downgrade_0005)]"

text \<open>
  \<open>alembic upgrade\<close> and \<open>alembic downgrade\<close> to a revision, given by the number of revisions that are
  then applied.
\<close>

definition migrate_to :: "nat \<Rightarrow> nat \<times> db_schema \<Rightarrow> exn + nat \<times> db_schema" where
  "migrate_to target st = (case st of (k, s) \<Rightarrow>
     try_bind
       (if k \<le> target then apply_all (concat (map fst (drop k (take target revisions)))) s
        else apply_all (concat (map snd (rev (drop target (take k revisions))))) s)
       (\<lambda>s'. Inr (target, s')))"

fun migrate :: "nat list \<Rightarrow> nat \<times> db_schema \<Rightarrow> exn + nat \<times> db_schema" where
  "migrate [] st = Inr st"
| "migrate (target # targets) st = try_bind (migrate_to target st) (migrate targets)"

section \<open>The schema of the ORM classes\<close>

definition models_schema :: db_schema where
  "models_schema =
     \<lparr>s_tables =
        [\<lparr>t_name = ''feeds'',
          t_columns =
            [(column ''id'' SInteger False)\<lparr>c_autoincrement := True\<rparr>,
             column ''url'' SText False,
             column ''effective_url'' SText False,
             column ''title'' SText True,
             (column ''status'' (SString 32) False)\<lparr>c_default := Some (DefaultText ''active'')\<rparr>,
             column ''last_successful_fetch_at'' STimestamptz True,
             column ''last_attempt_at'' STimestamptz True,
             column ''last_error_code'' (SString 64) True,
             (column ''created_at'' STimestamptz False)\<lparr>c_default := Some DefaultNow\<rparr>,
             (column ''next_fetch_at'' STimestamptz False)\<lparr>c_default := Some DefaultNow\<rparr>,
             (column ''consecutive_failures'' SInteger False)\<lparr>c_default := Some (DefaultText ''0'')\<rparr>,
             column ''etag'' SText True,
             column ''last_modified'' SText True],
          t_constraints = [PrimaryKeyConstraint [''id''], UniqueConstraint None [''url'']]\<rparr>,
         \<lparr>t_name = ''entries'',
          t_columns =
            [(column ''id'' SInteger False)\<lparr>c_autoincrement := True\<rparr>,
             column ''feed_id'' SInteger False,
             column ''guid'' SText False,
             column ''url'' SText False,
             column ''title'' SText True,
             column ''content'' SText True,
             column ''author'' SText True,
             column ''published_at'' STimestamptz True,
             column ''fetched_at'' STimestamptz False,
             column ''content_updated_at'' STimestamptz False],
          t_constraints =
            [ForeignKeyCascade [''feed_id''] ''feeds'' [''id''], PrimaryKeyConstraint [''id''],
             UniqueConstraint (Some ''uq_entries_feed_guid'') [''feed_id'', ''guid'']]\<rparr>],
      s_indexes =
        [\<lparr>ix_name = ''ix_feeds_status'', ix_table = ''feeds'', ix_columns = [(''status'', False)], ix_where = None\<rparr>,
         \<lparr>ix_name = ''ix_feeds_due_not_dead'', ix_table = ''feeds'', ix_columns = [(''next_fetch_at'', False)],
          ix_where = Some (''status <> '' @ [CHR 0x27] @ ''dead'' @ [CHR 0x27])\<rparr>,
         \<lparr>ix_name = ''ix_feeds_dead_last_attempt'', ix_table = ''feeds'', ix_columns = [(''last_attempt_at'', False)],
          ix_where = Some (''status = '' @ [CHR 0x27] @ ''dead'' @ [CHR 0x27])\<rparr>,
         \<lparr>ix_name = ''ix_entries_fetched_at'', ix_table = ''entries'', ix_columns = [(''fetched_at'', False)], ix_where = None\<rparr>,
         \<lparr>ix_name = ''ix_entries_feed_pub_id'', ix_table = ''entries'',
          ix_columns = [(''feed_id'', False), (''published_at'', True), (''id'', True)], ix_where = None\<rparr>,
         \<lparr>ix_name = ''ix_entries_feed_fetched_id'', ix_table = ''entries'',
          ix_columns = [(''feed_id'', False), (''fetched_at'', True), (''id'', True)], ix_where = None\<rparr>]\<rparr>"

section \<open>Facts\<close>

definition same_table :: "db_table \<Rightarrow> db_table \<Rightarrow> bool" where
  "same_table a b \<longleftrightarrow> t_name a = t_name b \<and> mset (t_columns a) = mset (t_columns b) \<and> t_constraints a = t_constraints b"

definition same_schema :: "db_schema \<Rightarrow> db_schema \<Rightarrow> bool" where
  "same_schema s t \<longleftrightarrow> list_all2 same_table (s_tables s) (s_tables t) \<and> mset (s_indexes s) = mset (s_indexes t)"

lemma same_tableD:
  "same_table a b \<Longrightarrow> t_name a = t_name b" "same_table a b \<Longrightarrow> t_constraints a = t_constraints b"
  "same_table a b \<Longrightarrow> set (t_columns a) = set (t_columns b)"
  by (simp_all add: same_table_def) (metis set_mset_mset)

lemma list_all2_ex_cong:
  assumes "list_all2 R xs ys" "\<And>x y. R x y \<Longrightarrow> p x = q y"
  shows "list_ex p xs = list_ex q ys"
  using assms(1) by (induction rule: list_all2_induct) (simp_all add: assms(2))

lemma same_table_trans: "same_table a b \<Longrightarrow> same_table b c \<Longrightarrow> same_table a c"
  by (simp add: same_table_def)

lemma same_schema_refl: "same_schema s s"
  by (simp add: same_schema_def same_table_def list_all2_refl)

lemma same_schema_trans:
  assumes "same_schema s t" "same_schema t u"
  shows "same_schema s u"
  using assms by (auto simp: same_schema_def list_all2_conv_all_nth same_table_def)

lemma same_schema_queries:
  assumes "same_schema s t"
  shows "has_columns s n cs = has_columns t n cs" "referenced s n cs = referenced t n cs"
    "relation_names s = relation_names t" "ix_name ` set (s_indexes s) = ix_name ` set (s_indexes t)"
proof -
  have l: "list_all2 same_table (s_tables s) (s_tables t)" and m: "mset (s_indexes s) = mset (s_indexes t)"
    using assms by (simp_all add: same_schema_def)
  show "has_columns s n cs = has_columns t n cs"
    unfolding has_columns_def by (rule list_all2_ex_cong [OF l]) (simp add: same_tableD)
  show "referenced s n cs = referenced t n cs"
    unfolding referenced_def by (rule list_all2_ex_cong [OF l]) (simp add: same_tableD)
  have "map t_name (s_tables s) = map t_name (s_tables t)"
    using l by (induction rule: list_all2_induct) (simp_all add: same_tableD)
  then have "t_name ` set (s_tables s) = t_name ` set (s_tables t)" by (metis set_map)
  moreover show ix: "ix_name ` set (s_indexes s) = ix_name ` set (s_indexes t)" using m by (metis set_mset_mset)
  ultimately show "relation_names s = relation_names t" by (simp add: relation_names_def)
qed

lemma key_exists_cong: "same_schema s t \<Longrightarrow> key_exists s k = key_exists t k"
  by (cases k) (simp_all add: same_schema_queries)

lemma same_tables_map:
  assumes "list_all2 same_table xs ys" "\<And>a b. same_table a b \<Longrightarrow> same_table (f a) (f b)"
  shows "list_all2 same_table (update_where (\<lambda>t. t_name t = n) f xs) (update_where (\<lambda>t. t_name t = n) f ys)"
  using assms(1) by (induction rule: list_all2_induct) (auto simp: update_where_def assms(2) same_tableD)

lemma same_tables_filter:
  "list_all2 same_table xs ys \<Longrightarrow>
    list_all2 same_table (filter (\<lambda>t. t_name t \<noteq> n) xs) (filter (\<lambda>t. t_name t \<noteq> n) ys)"
  by (induction rule: list_all2_induct) (auto dest: same_tableD(1))

text \<open>A statement does the same to schemas that are the same.\<close>

lemma apply_ddl_cong:
  assumes "same_schema s t"
  shows "rel_sum (=) same_schema (apply_ddl x s) (apply_ddl x t)"
proof -
  note q = same_schema_queries [OF assms] key_exists_cong [OF assms]
  have l: "list_all2 same_table (s_tables s) (s_tables t)" and m: "mset (s_indexes s) = mset (s_indexes t)"
    using assms by (simp_all add: same_schema_def)
  have r: "rel_sum (=) same_schema (refuse_unless ok a) (refuse_unless ok b)" if "same_schema a b" for ok a b
    using that by (simp add: refuse_unless_def)
  show ?thesis
  proof (cases x)
    case (CreateTable tb)
    have "same_table tb tb" by (simp add: same_table_def)
    then show ?thesis using l m unfolding CreateTable apply_ddl.simps q
      by (intro r) (simp add: same_schema_def list_all2_appendI)
  next
    case (DropTable n)
    show ?thesis using same_tables_filter [OF l] m unfolding DropTable apply_ddl.simps q
      by (intro r) (simp add: same_schema_def)
  next
    case (CreateIndex i)
    show ?thesis using l m unfolding CreateIndex apply_ddl.simps q by (intro r) (simp add: same_schema_def)
  next
    case (DropIndex n)
    show ?thesis using l m unfolding DropIndex apply_ddl.simps q by (intro r) (simp add: same_schema_def)
  next
    case (AddColumn n c)
    have "list_all2 same_table (update_where (\<lambda>t. t_name t = n) (\<lambda>t. t\<lparr>t_columns := t_columns t @ [c]\<rparr>) (s_tables s))
        (update_where (\<lambda>t. t_name t = n) (\<lambda>t. t\<lparr>t_columns := t_columns t @ [c]\<rparr>) (s_tables t))"
      by (rule same_tables_map [OF l]) (simp add: same_table_def)
    then show ?thesis using m unfolding AddColumn apply_ddl.simps q by (intro r) (simp add: same_schema_def)
  next
    case (DropColumn n c)
    let ?f = "\<lambda>t. t\<lparr>t_columns := filter (\<lambda>d. c_name d \<noteq> c) (t_columns t),
      t_constraints := filter (\<lambda>k. \<not> mentions c k) (t_constraints t)\<rparr>"
    have "list_all2 same_table (update_where (\<lambda>t. t_name t = n) ?f (s_tables s)) (update_where (\<lambda>t. t_name t = n) ?f (s_tables t))"
      by (rule same_tables_map [OF l]) (simp add: same_table_def)
    then show ?thesis using m unfolding DropColumn apply_ddl.simps q by (intro r) (simp add: same_schema_def)
  qed
qed

lemma apply_all_cong: "same_schema s t \<Longrightarrow> rel_sum (=) same_schema (apply_all xs s) (apply_all xs t)"
proof (induction xs arbitrary: s t)
  case (Cons x xs)
  show ?case
    using apply_ddl_cong [OF Cons.prems, of x] Cons.IH
    by (cases "apply_ddl x s"; cases "apply_ddl x t") simp_all
qed simp

lemma apply_all_append: "apply_all (xs @ ys) s = try_bind (apply_all xs s) (apply_all ys)"
proof (induction xs arbitrary: s)
  case (Cons x xs)
  then show ?case by (cases "apply_ddl x s") simp_all
qed simp

section \<open>Going up and down\<close>

text \<open>The schema after the first \<open>k\<close> revisions, and that the next one can be undone.\<close>

definition schema_after :: "nat \<Rightarrow> exn + db_schema" where
  "schema_after k = apply_all (concat (map fst (take k revisions))) empty_schema"

definition undoes :: "nat \<Rightarrow> bool" where
  "undoes k = (case (schema_after k, schema_after (Suc k)) of
     (Inr s, Inr t) \<Rightarrow> (case apply_all (snd (revisions ! k)) t of Inr u \<Rightarrow> same_schema u s | Inl _ \<Rightarrow> False)
   | _ \<Rightarrow> False)"

lemma revisions_undo: "undoes 0" "undoes 1" "undoes 2" "undoes 3" "undoes 4"
  by code_simp+

lemma head_is_models: "case schema_after 5 of Inr s \<Rightarrow> same_schema s models_schema | Inl _ \<Rightarrow> False"
  by code_simp

text \<open>A schema as it is at a revision, up to the order of columns and indexes.\<close>

definition at_revision :: "nat \<Rightarrow> db_schema \<Rightarrow> bool" where
  "at_revision k s \<longleftrightarrow> (\<exists>t. schema_after k = Inr t \<and> same_schema s t)"

lemma length_revisions [simp]: "length revisions = 5"
  by (simp add: revisions_def)

lemma revision_undoes: "k < 5 \<Longrightarrow> undoes k"
  using revisions_undo by (auto simp: less_Suc_eq eval_nat_numeral)

lemma schema_after_Suc:
  "k < 5 \<Longrightarrow> schema_after (Suc k) = try_bind (schema_after k) (apply_all (fst (revisions ! k)))"
  by (simp add: schema_after_def take_Suc_conv_app_nth apply_all_append)

lemma rel_sum_Inr_iff: "rel_sum R S r (Inr b) \<longleftrightarrow> (\<exists>a. r = Inr a \<and> S a b)"
  by (cases r) auto

lemma step_up:
  assumes "at_revision k s" "k < 5"
  shows "\<exists>s'. apply_all (fst (revisions ! k)) s = Inr s' \<and> at_revision (Suc k) s'"
proof -
  from revision_undoes [OF assms(2)] obtain t t' where t: "schema_after k = Inr t" "schema_after (Suc k) = Inr t'"
    by (auto simp: undoes_def split: sum.splits)
  with schema_after_Suc [OF assms(2)] have u: "apply_all (fst (revisions ! k)) t = Inr t'" by simp
  have "same_schema s t" using assms(1) t by (auto simp: at_revision_def)
  from apply_all_cong [OF this, of "fst (revisions ! k)"] obtain s' where
    "apply_all (fst (revisions ! k)) s = Inr s'" "same_schema s' t'"
    by (auto simp: u rel_sum_Inr_iff)
  with t show ?thesis by (auto simp: at_revision_def)
qed

lemma step_down:
  assumes "at_revision (Suc k) s" "k < 5"
  shows "\<exists>s'. apply_all (snd (revisions ! k)) s = Inr s' \<and> at_revision k s'"
proof -
  from revision_undoes [OF assms(2)] obtain t t' u where t: "schema_after k = Inr t" "schema_after (Suc k) = Inr t'"
    and u: "apply_all (snd (revisions ! k)) t' = Inr u" "same_schema u t"
    by (auto simp: undoes_def split: sum.splits)
  have "same_schema s t'" using assms(1) t by (auto simp: at_revision_def)
  from apply_all_cong [OF this, of "snd (revisions ! k)"] obtain s' where
    "apply_all (snd (revisions ! k)) s = Inr s'" "same_schema s' u"
    by (auto simp: u rel_sum_Inr_iff)
  with t u(2) show ?thesis by (auto simp: at_revision_def intro: same_schema_trans)
qed

lemma steps_up:
  "at_revision k s \<Longrightarrow> k \<le> target \<Longrightarrow> target \<le> 5 \<Longrightarrow>
    \<exists>s'. apply_all (concat (map fst (drop k (take target revisions)))) s = Inr s' \<and> at_revision target s'"
proof (induction "target - k" arbitrary: k s)
  case (Suc n)
  then have k: "k < target" "k < 5" by simp_all
  have d: "drop k (take target revisions) = revisions ! k # drop (Suc k) (take target revisions)"
    using k Suc.prems(3) by (simp add: Cons_nth_drop_Suc [symmetric])
  from step_up [OF Suc.prems(1) k(2)] obtain s1 where
    "apply_all (fst (revisions ! k)) s = Inr s1" "at_revision (Suc k) s1" by blast
  with Suc.hyps(1) [of "Suc k" s1] Suc.hyps(2) k Suc.prems(3) show ?case
    by (simp add: d apply_all_append)
qed auto

lemma steps_down:
  "at_revision k s \<Longrightarrow> target \<le> k \<Longrightarrow> k \<le> 5 \<Longrightarrow>
    \<exists>s'. apply_all (concat (map snd (rev (drop target (take k revisions))))) s = Inr s' \<and> at_revision target s'"
proof (induction k arbitrary: s)
  case (Suc k)
  show ?case
  proof (cases "target = Suc k")
    case False
    then have t: "target \<le> k" "k < 5" using Suc.prems by simp_all
    have d: "rev (drop target (take (Suc k) revisions)) = revisions ! k # rev (drop target (take k revisions))"
      using t by (simp add: take_Suc_conv_app_nth)
    from step_down [OF Suc.prems(1) t(2)] obtain s1 where
      "apply_all (snd (revisions ! k)) s = Inr s1" "at_revision k s1" by blast
    with Suc.IH [of s1] t show ?thesis by (simp add: d apply_all_append)
  qed (use Suc.prems in simp)
qed auto

lemma migrate_to_revision:
  assumes "at_revision k s" "k \<le> 5" "target \<le> 5"
  shows "\<exists>s'. migrate_to target (k, s) = Inr (target, s') \<and> at_revision target s'"
proof (cases "k \<le> target")
  case True
  with steps_up [OF assms(1) True assms(3)] show ?thesis by (auto simp: migrate_to_def)
next
  case False
  with steps_down [OF assms(1) _ assms(2), of target] show ?thesis by (auto simp: migrate_to_def)
qed

lemma migrate_keeps_revision:
  "at_revision k s \<Longrightarrow> k \<le> 5 \<Longrightarrow> \<forall>t \<in> set targets. t \<le> 5 \<Longrightarrow>
    \<exists>s'. migrate targets (k, s) = Inr (last (k # targets), s') \<and> at_revision (last (k # targets)) s'"
proof (induction targets arbitrary: k s)
  case (Cons target targets)
  from migrate_to_revision [of k s target] Cons.prems obtain s1 where
    "migrate_to target (k, s) = Inr (target, s1)" "at_revision target s1" by auto
  with Cons.IH [of target s1] Cons.prems show ?case by (auto split: if_splits)
qed simp

section \<open>Properties\<close>

text \<open>
  C37: The migrations and the ORM classes agree. Starting from an empty database, upgrading and
  downgrading to any revisions in any order, no statement is ever refused; the schema that is
  reached depends on the last revision only, up to the order of columns and indexes; at the head it
  is the schema that \<open>models.py\<close> declares, and at the base the database is empty again.
\<close>

theorem migrations_agree_with_models:
  assumes "\<forall>t \<in> set targets. t \<le> 5" "k = last (0 # targets)"
  shows "\<exists>s t. migrate targets (0, empty_schema) = Inr (k, s) \<and> schema_after k = Inr t \<and> same_schema s t \<and>
    (k = 5 \<longrightarrow> same_schema s models_schema) \<and> (k = 0 \<longrightarrow> s = empty_schema)"
proof -
  have "at_revision 0 empty_schema" by (simp add: at_revision_def schema_after_def same_schema_refl)
  from migrate_keeps_revision [OF this, of targets] assms obtain s where
    s: "migrate targets (0, empty_schema) = Inr (k, s)" "at_revision k s" by auto
  then obtain t where t: "schema_after k = Inr t" "same_schema s t" by (auto simp: at_revision_def)
  have "same_schema s models_schema" if "k = 5"
    using head_is_models t that same_schema_trans by (auto split: sum.splits)
  moreover have "s = empty_schema" if "k = 0"
    using t that by (cases s) (auto simp: schema_after_def same_schema_def empty_schema_def)
  ultimately show ?thesis using s t by blast
qed

theorem migrations_agree_with_models_witness:
  "\<exists>s. migrate [5, 2, 4, 0, 5] (0, empty_schema) = Inr (5, s) \<and> same_schema s models_schema"
  using migrations_agree_with_models [of "[5, 2, 4, 0, 5]" 5] by auto

end
