(* ===== verification/Alembic_Env.thy ===== *)
theory Alembic_Env
  imports Migrations PyText
begin

text \<open>
  \<open>alembic/env.py\<close>: where the migrations get the database URL from and how they run. The options of
  \<open>alembic.ini\<close> live in a \<open>configparser.ConfigParser\<close>, to which alembic documents that it hands values
  unchanged; so a value is checked when it is set (\<open>before_set\<close>) and expanded when it is read
  (\<open>interpolate\<close>), as \<open>configparser.BasicInterpolation\<close> does. \<open>logging.config.fileConfig\<close> and
  \<open>get_settings\<close> are arguments. A database server is the revision and schema under its URL; a
  run in online mode is one transaction on one of them, a run in offline mode writes a script.
\<close>

section \<open>Interpolation\<close>

abbreviation percent :: char where
  "percent \<equiv> CHR ''%''"

text \<open>\<open>value.replace('%%', '')\<close>\<close>

fun drop_pairs :: "string \<Rightarrow> string" where
  "drop_pairs (c # d # cs) = (if c = percent \<and> d = percent then drop_pairs cs else c # drop_pairs (d # cs))"
| "drop_pairs cs = cs"

text \<open>The pattern \<open>%\(([^)]+)\)s\<close> at the start of a text: the name in it and the text after it.\<close>

definition match_key :: "string \<Rightarrow> (string \<times> string) option" where
  "match_key s =
     (case s of
        p # q # cs \<Rightarrow>
          if p = percent \<and> q = CHR ''('' then
            (let name = takeWhile (\<lambda>c. c \<noteq> CHR '')'') cs
             in case dropWhile (\<lambda>c. c \<noteq> CHR '')'') cs of
                  _ # e # rest \<Rightarrow> if name \<noteq> [] \<and> e = CHR ''s'' then Some (name, rest) else None
                | _ \<Rightarrow> None)
          else None
      | _ \<Rightarrow> None)"

lemma match_key_shorter:
  assumes "match_key s = Some (name, rest)"
  shows "length rest < length s"
proof -
  obtain p q cs where s: "s = p # q # cs" using assms by (auto simp: match_key_def split: list.splits)
  with assms obtain x e where "dropWhile (\<lambda>c. c \<noteq> CHR '')'') cs = x # e # rest"
    by (auto simp: match_key_def Let_def split: if_splits list.splits)
  then have "length (x # e # rest) \<le> length cs" by (metis length_dropWhile_le)
  then show ?thesis by (simp add: s)
qed

text \<open>\<open>_KEYCRE.sub('', value)\<close>\<close>

function sub_keys :: "string \<Rightarrow> string" where
  "sub_keys [] = []"
| "sub_keys (c # cs) = (case match_key (c # cs) of Some (name, rest) \<Rightarrow> sub_keys rest | None \<Rightarrow> c # sub_keys cs)"
  by pat_completeness auto
termination by (relation "measure length") (auto dest: match_key_shorter)

definition before_set :: "string \<Rightarrow> exn + string" where
  "before_set v = (if percent \<in> set (sub_keys (drop_pairs v)) then Inl (raise_exn ValueError) else Inr v)"

text \<open>
  \<open>_interpolate_some\<close>, where the number is how many levels of references may still be entered: ten
  (\<open>MAX_INTERPOLATION_DEPTH\<close>) for the value itself. Its errors are no \<open>ValueError\<close>s.
\<close>

function interpolate :: "(string \<Rightarrow> string option) \<Rightarrow> nat \<Rightarrow> string \<Rightarrow> exn + string" where
  "interpolate options 0 s = Inl (raise_exn OtherException)"
| "interpolate options (Suc n) [] = Inr []"
| "interpolate options (Suc n) (c # cs) =
     (if c \<noteq> percent then try_bind (interpolate options (Suc n) cs) (\<lambda>r. Inr (c # r))
      else (case cs of
              [] \<Rightarrow> Inl (raise_exn OtherException)
            | d # ds \<Rightarrow>
                if d = percent then try_bind (interpolate options (Suc n) ds) (\<lambda>r. Inr (percent # r))
                else (case match_key (c # cs) of
                        None \<Rightarrow> Inl (raise_exn OtherException)
                      | Some (name, rest) \<Rightarrow>
                          (case options (lower name) of
                             None \<Rightarrow> Inl (raise_exn OtherException)
                           | Some v \<Rightarrow>
                               try_bind (if percent \<in> set v then interpolate options n v else Inr v) (\<lambda>x.
                                 try_bind (interpolate options (Suc n) rest) (\<lambda>r. Inr (x @ r)))))))"
  by pat_completeness auto
termination
  by (relation "measures [\<lambda>(options, n, s). n, \<lambda>(options, n, s). length s]") (auto dest: match_key_shorter)

section \<open>The configuration\<close>

text \<open>The file name of the configuration and the options of its main section with the defaults.\<close>

record alembic_config =
  ac_file_name :: "string option"
  ac_options :: "(string \<times> string) list"

definition sqlalchemy_url :: string where
  "sqlalchemy_url = ''sqlalchemy.url''"

definition read_option :: "alembic_config \<Rightarrow> string \<Rightarrow> exn + string" where
  "read_option cfg v = interpolate (map_of (ac_options cfg)) 10 v"

definition get_main_option :: "string \<Rightarrow> alembic_config \<Rightarrow> exn + string option" where
  "get_main_option name cfg =
     (case map_of (ac_options cfg) name of
        None \<Rightarrow> Inr None
      | Some v \<Rightarrow> try_bind (read_option cfg v) (\<lambda>x. Inr (Some x)))"

definition set_main_option :: "string \<Rightarrow> string \<Rightarrow> alembic_config \<Rightarrow> exn + alembic_config" where
  "set_main_option name v cfg =
     try_bind (before_set v) (\<lambda>v. Inr (cfg\<lparr>ac_options := (name, v) # filter (\<lambda>(k, _). k \<noteq> name) (ac_options cfg)\<rparr>))"

fun read_all :: "alembic_config \<Rightarrow> (string \<times> string) list \<Rightarrow> exn + (string \<times> string) list" where
  "read_all cfg [] = Inr []"
| "read_all cfg ((k, v) # os) =
     try_bind (read_option cfg v) (\<lambda>x. try_bind (read_all cfg os) (\<lambda>xs. Inr ((k, x) # xs)))"

definition get_section :: "alembic_config \<Rightarrow> exn + (string \<times> string) list" where
  "get_section cfg = read_all cfg (ac_options cfg)"

text \<open>The statements at the top of the module.\<close>

definition configure_url ::
  "(string \<Rightarrow> exn + unit) \<Rightarrow> (exn + string) \<Rightarrow> alembic_config \<Rightarrow> exn + alembic_config" where
  "configure_url file_config database_url cfg =
     try_bind (case ac_file_name cfg of None \<Rightarrow> Inr () | Some f \<Rightarrow> file_config f) (\<lambda>_.
       try_bind (get_main_option sqlalchemy_url cfg) (\<lambda>u.
         if u = None \<or> u = Some [] then try_bind database_url (\<lambda>url. set_main_option sqlalchemy_url url cfg)
         else Inr cfg))"

section \<open>Running\<close>

type_synonym servers = "string \<Rightarrow> (nat \<times> db_schema) option"

datatype run_result = Script "ddl list" | Migrated

definition migration_script :: "nat \<Rightarrow> nat \<Rightarrow> ddl list" where
  "migration_script k target =
     (if k \<le> target then concat (map fst (drop k (take target revisions)))
      else concat (map snd (rev (drop target (take k revisions)))))"

definition run_migrations_offline :: "nat \<Rightarrow> nat \<Rightarrow> alembic_config \<Rightarrow> exn + run_result" where
  "run_migrations_offline start target cfg =
     try_bind (get_main_option sqlalchemy_url cfg) (\<lambda>url. Inr (Script (migration_script start target)))"

text \<open>One transaction on the connection: all pending statements or none.\<close>

definition do_run_migrations :: "nat \<Rightarrow> nat \<times> db_schema \<Rightarrow> exn + nat \<times> db_schema" where
  "do_run_migrations target connection = migrate_to target connection"

definition run_migrations_online :: "nat \<Rightarrow> alembic_config \<Rightarrow> servers \<Rightarrow> (servers, exn, run_result) outcome" where
  "run_migrations_online target cfg db =
     (case get_section cfg of
        Inl e \<Rightarrow> (db, Inl e)
      | Inr section \<Rightarrow>
          (case map_of section sqlalchemy_url of
             None \<Rightarrow> (db, Inl (raise_exn KeyError))
           | Some url \<Rightarrow>
               (case db url of
                  None \<Rightarrow> (db, Inl (raise_exn OtherException))
                | Some connection \<Rightarrow>
                    (case do_run_migrations target connection of
                       Inl e \<Rightarrow> (db, Inl e)
                     | Inr st \<Rightarrow> (db(url \<mapsto> st), Inr Migrated)))))"

definition env_py ::
  "(string \<Rightarrow> exn + unit) \<Rightarrow> (exn + string) \<Rightarrow> bool \<Rightarrow> nat \<Rightarrow> nat \<Rightarrow> alembic_config \<Rightarrow> servers \<Rightarrow>
   (servers, exn, run_result) outcome" where
  "env_py file_config database_url offline start target cfg db =
     (case configure_url file_config database_url cfg of
        Inl e \<Rightarrow> (db, Inl e)
      | Inr cfg' \<Rightarrow>
          if offline then (db, run_migrations_offline start target cfg')
          else run_migrations_online target cfg' db)"

section \<open>Facts\<close>

lemma interpolate_plain: "percent \<notin> set s \<Longrightarrow> interpolate options (Suc n) s = Inr s"
  by (induction s) auto

lemma drop_pairs_plain: "percent \<notin> set s \<Longrightarrow> drop_pairs s = s"
  by (induction s rule: drop_pairs.induct) auto

lemma match_key_no_percent: "c \<noteq> percent \<Longrightarrow> match_key (c # cs) = None"
  by (simp add: match_key_def split: list.splits)

lemma match_key_other: "d \<noteq> CHR ''('' \<Longrightarrow> match_key (c # d # cs) = None"
  by (simp add: match_key_def)

lemma set_sub_keys: "set (sub_keys s) \<subseteq> set s"
proof (induction s rule: sub_keys.induct)
  case (2 c cs)
  show ?case
  proof (cases "match_key (c # cs)")
    case (Some x)
    obtain name rest where x: "x = (name, rest)" by fastforce
    have "set rest \<subseteq> set (c # cs)"
    proof -
      obtain q ds y e where "cs = q # ds" "dropWhile (\<lambda>c. c \<noteq> CHR '')'') ds = y # e # rest"
        using Some x by (auto simp: match_key_def Let_def split: if_splits list.splits)
      then have "set rest \<subseteq> set ds" by (metis list.set_intros(2) set_dropWhileD subsetI)
      then show ?thesis using \<open>cs = q # ds\<close> by auto
    qed
    moreover have "set (sub_keys rest) \<subseteq> set rest" using 2 Some x by auto
    ultimately show ?thesis by (auto simp: Some x)
  qed (use 2 in auto)
qed simp

text \<open>What the program would have to write for a URL to come out as it is.\<close>

fun double_percent :: "string \<Rightarrow> string" where
  "double_percent [] = []"
| "double_percent (c # cs) = (if c = percent then [percent, percent] else [c]) @ double_percent cs"

lemma double_percent_plain: "percent \<notin> set s \<Longrightarrow> double_percent s = s"
  by (induction s) auto

lemma interpolate_doubled: "interpolate options (Suc n) (double_percent s) = Inr s"
  by (induction s) auto

lemma drop_pairs_doubled: "percent \<notin> set (drop_pairs (double_percent s))"
proof (induction s)
  case (Cons c s)
  show ?case
  proof (cases "c = percent")
    case False
    have "drop_pairs (c # t) = c # drop_pairs t" for t using False by (cases t) auto
    with False Cons show ?thesis by auto
  qed (use Cons in simp)
qed simp

lemma before_set_doubled: "before_set (double_percent s) = Inr (double_percent s)"
  using set_sub_keys drop_pairs_doubled by (auto simp: before_set_def)

lemma lone_percent_refused:
  assumes "u = a @ percent # x # b" "percent \<notin> set a" "x \<noteq> percent" "x \<noteq> CHR ''(''"
  shows "before_set u = Inl (raise_exn ValueError)"
proof -
  have pairs: "drop_pairs (a @ percent # x # b) = a @ percent # drop_pairs (x # b)"
    using assms(2)
  proof (induction a)
    case (Cons c a)
    then have "drop_pairs (c # t) = c # drop_pairs t" for t by (cases t) auto
    with Cons show ?case by simp
  qed (use assms(3) in simp)
  have x: "\<exists>y. drop_pairs (x # b) = x # y" using assms(3) by (cases b) auto
  have "percent \<in> set (sub_keys (a @ percent # x # y))" for y
    using assms(2)
  proof (induction a)
    case Nil
    then show ?case using match_key_other [OF assms(4), of percent y] by simp
  next
    case (Cons c a)
    then have "c \<noteq> percent" by auto
    with Cons show ?case by (simp add: match_key_no_percent)
  qed
  with x show ?thesis by (auto simp: before_set_def assms(1) pairs)
qed

lemma configure_url_set:
  assumes "ac_file_name cfg = None \<or> (\<exists>f. ac_file_name cfg = Some f \<and> file_config f = Inr ())"
    and "get_main_option sqlalchemy_url cfg = Inr u" "u = None \<or> u = Some []"
  shows "configure_url file_config (Inr url) cfg = set_main_option sqlalchemy_url url cfg"
  using assms by (auto simp: configure_url_def)

lemma get_after_set:
  "set_main_option name (double_percent v) cfg = Inr cfg' \<Longrightarrow> get_main_option name cfg' = Inr (Some v)"
  using interpolate_doubled [of _ 9 v]
  by (auto simp: set_main_option_def before_set_doubled get_main_option_def read_option_def numeral_eq_Suc)

section \<open>Properties\<close>

text \<open>
  C38: The configuration names no URL, so the migrations take \<open>database_url\<close> of the settings. A URL
  whose percent signs are doubled, in particular one without any, comes out of the configuration as
  it was before the doubling. A URL with a percent sign as URLs use it, before anything but
  another percent sign or a parenthesis, as in a percent-encoded password, ends the run with a
  \<open>ValueError\<close> in either mode, before any database is touched.
\<close>

theorem percent_in_database_url:
  assumes "ac_file_name cfg = None \<or> (\<exists>f. ac_file_name cfg = Some f \<and> file_config f = Inr ())"
    and "get_main_option sqlalchemy_url cfg = Inr u" "u = None \<or> u = Some []"
  shows "(\<exists>cfg'. configure_url file_config (Inr (double_percent url)) cfg = Inr cfg' \<and>
        get_main_option sqlalchemy_url cfg' = Inr (Some url)) \<and>
    (percent \<notin> set url \<longrightarrow> double_percent url = url) \<and>
    (\<forall>a x b. url = a @ percent # x # b \<and> percent \<notin> set a \<and> x \<noteq> percent \<and> x \<noteq> CHR ''('' \<longrightarrow>
       env_py file_config (Inr url) offline start target cfg db = (db, Inl (raise_exn ValueError)))"
proof (intro conjI allI impI)
  obtain cfg' where s: "set_main_option sqlalchemy_url (double_percent url) cfg = Inr cfg'"
    by (simp add: set_main_option_def before_set_doubled)
  with get_after_set [OF s] show "\<exists>cfg'. configure_url file_config (Inr (double_percent url)) cfg = Inr cfg' \<and>
      get_main_option sqlalchemy_url cfg' = Inr (Some url)"
    by (auto simp: configure_url_set [OF assms])
next
  show "double_percent url = url" if "percent \<notin> set url" using that by (rule double_percent_plain)
next
  fix a x b
  assume "url = a @ percent # x # b \<and> percent \<notin> set a \<and> x \<noteq> percent \<and> x \<noteq> CHR ''(''"
  then have "before_set url = Inl (raise_exn ValueError)" using lone_percent_refused by blast
  then show "env_py file_config (Inr url) offline start target cfg db = (db, Inl (raise_exn ValueError))"
    by (simp add: env_py_def configure_url_set [OF assms] set_main_option_def)
qed

text \<open>The main section of \<open>alembic.ini\<close>.\<close>

definition ini_config :: alembic_config where
  "ini_config = \<lparr>ac_file_name = Some ''alembic.ini'', ac_options =
     [(''here'', ''/app''), (''script_location'', ''alembic''), (''prepend_sys_path'', ''. src''), (''path_separator'', ''os''),
      (''version_path_separator'', ''os''), (sqlalchemy_url, [])]\<rparr>"

lemma ini_url: "get_main_option sqlalchemy_url ini_config = Inr (Some [])"
  by code_simp

theorem percent_in_database_url_witness:
  "env_py (\<lambda>_. Inr ()) (Inr ''postgresql://u:p%40ss@db/x'') False 0 5 ini_config (\<lambda>_. None) = (\<lambda>_. None, Inl (raise_exn ValueError))"
proof -
  have u: "''postgresql://u:p%40ss@db/x'' = ''postgresql://u:p'' @ percent # CHR ''4'' # ''0ss@db/x'' \<and>
      percent \<notin> set ''postgresql://u:p'' \<and> CHR ''4'' \<noteq> percent \<and> CHR ''4'' \<noteq> CHR ''(''" by simp
  have "ac_file_name ini_config = None \<or> (\<exists>f. ac_file_name ini_config = Some f \<and> (\<lambda>_. Inr ()) f = (Inr () :: exn + unit))"
    by (simp add: ini_config_def)
  from percent_in_database_url [OF this ini_url, of "''postgresql://u:p%40ss@db/x''" False 0 5 "\<lambda>_. None"] u show ?thesis
    by blast
qed

text \<open>
  With the shipped configuration and a URL without percent signs, an online run to the head brings
  the database under that URL from any revision to the schema of the ORM classes and touches
  no other database; an offline run only writes the statements.
\<close>

lemma read_all_plain:
  "\<forall>(k, v) \<in> set os. percent \<notin> set v \<Longrightarrow> read_all cfg os = Inr os"
  by (induction os) (auto simp: read_option_def numeral_eq_Suc interpolate_plain)

theorem head_run_reaches_models:
  assumes "file_config ''alembic.ini'' = Inr ()" "percent \<notin> set url" "db url = Some (k, s)" "at_revision k s" "k \<le> 5"
  shows "\<exists>s'. env_py file_config (Inr url) False start 5 ini_config db = (db(url \<mapsto> (5, s')), Inr Migrated) \<and>
      same_schema s' models_schema"
    and "env_py file_config (Inr url) True start 5 ini_config db = (db, Inr (Script (migration_script start 5)))"
proof -
  let ?cfg = "ini_config\<lparr>ac_options := (sqlalchemy_url, url) # filter (\<lambda>(k, _). k \<noteq> sqlalchemy_url) (ac_options ini_config)\<rparr>"
  have e: "double_percent url = url" using assms(2) by (rule double_percent_plain)
  have c: "configure_url file_config (Inr url) ini_config = Inr ?cfg"
    using configure_url_set [OF _ ini_url, of file_config url] assms(1) before_set_doubled [of url]
    by (simp add: set_main_option_def e) (simp add: ini_config_def)
  have "\<forall>(k, v) \<in> set (ac_options ?cfg). percent \<notin> set v"
    using assms(2) by (simp add: ini_config_def sqlalchemy_url_def)
  then have sec: "get_section ?cfg = Inr (ac_options ?cfg)" unfolding get_section_def by (rule read_all_plain)
  obtain s' where m: "migrate_to 5 (k, s) = Inr (5, s')" "at_revision 5 s'"
    using migrate_to_revision [OF assms(4,5), of 5] by auto
  then have "same_schema s' models_schema"
    using head_is_models same_schema_trans by (auto simp: at_revision_def split: sum.splits)
  with m(1) assms(3) show "\<exists>s'. env_py file_config (Inr url) False start 5 ini_config db = (db(url \<mapsto> (5, s')), Inr Migrated) \<and>
      same_schema s' models_schema"
    by (intro exI [of _ s']) (simp add: env_py_def c run_migrations_online_def sec do_run_migrations_def)
  have "get_main_option sqlalchemy_url ?cfg = Inr (Some url)"
    using get_after_set [of sqlalchemy_url url ini_config ?cfg] before_set_doubled [of url] by (simp add: set_main_option_def e)
  then show "env_py file_config (Inr url) True start 5 ini_config db = (db, Inr (Script (migration_script start 5)))"
    by (simp add: env_py_def c run_migrations_offline_def)
qed

end
