(* ===== verification/Seed.thy ===== *)
theory Seed
  imports Api_App
begin

text \<open>
  \<open>scripts/seed_feeds.py\<close>: a client that registers a catalog of feeds through the API, one request
  after the other, and counts the answers. The network is the argument \<open>urlopen\<close>, a function of the
  request body and of the state of the world outside; a response below 400 is opened, any other is
  an \<open>HTTPError\<close>. What the script prints is not modelled, except that formatting an id of the
  wrong type raises.
\<close>

section \<open>The script\<close>

definition SEED_FEEDS :: "(string \<times> string) list" where
  "SEED_FEEDS =
     [(''ai-research'', ''https://huggingface.co/blog/feed.xml''),
      (''ai-research'', ''https://openai.com/news/rss.xml''),
      (''ai-research'', ''https://deepmind.google/blog/rss.xml''),
      (''ai-research'', ''https://engineering.fb.com/feed/''),
      (''ai-infra'', ''https://developer.nvidia.com/blog/feed''),
      (''ai-infra'', ''https://pytorch.org/blog/feed.xml''),
      (''eng-blogs'', ''https://netflixtechblog.com/feed''),
      (''eng-blogs'', ''https://www.uber.com/blog/engineering/rss/''),
      (''eng-blogs'', ''https://blog.cloudflare.com/rss/''),
      (''eng-blogs'', ''https://stripe.com/blog/feed.rss''),
      (''eng-blogs'', ''https://tailscale.com/blog/index.xml''),
      (''eng-blogs'', ''https://dropbox.tech/feed''),
      (''eng-blogs'', ''https://fly.io/blog/feed.xml''),
      (''k8s-cloudnative'', ''https://www.cncf.io/feed/''),
      (''k8s-cloudnative'', ''https://kubernetes.io/feed.xml''),
      (''lowlevel'', ''https://simonwillison.net/atom/everything/''),
      (''lowlevel'', ''https://lwn.net/headlines/newrss''),
      (''hardware'', ''https://blogs.nvidia.com/feed/''),
      (''hardware'', ''https://www.nextplatform.com/feed/''),
      (''hardware'', ''https://chipsandcheese.com/feed/''),
      (''hardware'', ''https://nvidianews.nvidia.com/releases.xml''),
      (''misc'', ''https://blog.python.org/feeds/posts/default'')]"

datatype urlopen_result = Opened int string | HTTPError int string | URLError string | OpenRaised exn

datatype seed_body = BodyJson json | BodyText string

record seed_report =
  sr_created :: int
  sr_existing :: int
  sr_failed :: "(string \<times> string \<times> int \<times> seed_body) list"

text \<open>\<open>json.dumps({"url": url}).encode()\<close>, with the default separators.\<close>

definition seed_payload :: "string \<Rightarrow> string" where
  "seed_payload url = ''{'' @ dumps_str ''url'' @ '': '' @ dumps_str url @ ''}''"

definition post_feed :: "int \<Rightarrow> urlopen_result \<Rightarrow> exn + int \<times> seed_body" where
  "post_feed depth answer = (case answer of
     Opened status raw \<Rightarrow>
       try_bind (bytes_decode raw) (\<lambda>text. try_bind (json_loads depth text) (\<lambda>j. Inr (status, BodyJson j)))
   | HTTPError code text \<Rightarrow> Inr (code, BodyText text)
   | URLError msg \<Rightarrow> Inr (0, BodyText (''network error: '' @ msg))
   | OpenRaised e \<Rightarrow> Inl e)"

text \<open>\<open>body["id"] if isinstance(body, dict) else "?"\<close>, and its formatting with \<open>:<4\<close>.\<close>

definition show_id :: "seed_body \<Rightarrow> exn + unit" where
  "show_id body = (case body of
     BodyJson (JObj kvs) \<Rightarrow>
       (case member kvs ''id'' of
          None \<Rightarrow> Inl (raise_exn KeyError)
        | Some JNull \<Rightarrow> Inl (raise_exn TypeError)
        | Some (JArr _) \<Rightarrow> Inl (raise_exn TypeError)
        | Some (JObj _) \<Rightarrow> Inl (raise_exn TypeError)
        | Some _ \<Rightarrow> Inr ())
   | _ \<Rightarrow> Inr ())"

definition count_answer :: "string \<Rightarrow> string \<Rightarrow> int \<times> seed_body \<Rightarrow> seed_report \<Rightarrow> exn + seed_report" where
  "count_answer category url answer r = (case answer of (status, body) \<Rightarrow>
     if status = 201 then try_bind (show_id body) (\<lambda>_. Inr (r\<lparr>sr_created := sr_created r + 1\<rparr>))
     else if status = 200 then try_bind (show_id body) (\<lambda>_. Inr (r\<lparr>sr_existing := sr_existing r + 1\<rparr>))
     else Inr (r\<lparr>sr_failed := sr_failed r @ [(category, url, status, body)]\<rparr>))"

fun seed_loop ::
  "int \<Rightarrow> (string \<Rightarrow> 'w \<Rightarrow> 'w \<times> urlopen_result) \<Rightarrow> (string \<times> string) list \<Rightarrow> seed_report \<Rightarrow> 'w \<Rightarrow>
   ('w, exn, seed_report) outcome" where
  "seed_loop depth urlopen [] r w = (w, Inr r)"
| "seed_loop depth urlopen ((category, url) # feeds) r w =
     (let (w1, answer) = urlopen (seed_payload url) w in
      and_then (lift_result w1 (try_bind (post_feed depth answer) (\<lambda>a. count_answer category url a r)))
        (\<lambda>w2 r1. seed_loop depth urlopen feeds r1 w2))"

text \<open>\<open>main\<close>: the report and the exit status.\<close>

definition seed_main ::
  "int \<Rightarrow> (string \<Rightarrow> 'w \<Rightarrow> 'w \<times> urlopen_result) \<Rightarrow> 'w \<Rightarrow> ('w, exn, seed_report \<times> int) outcome" where
  "seed_main depth urlopen w =
     and_then (seed_loop depth urlopen SEED_FEEDS \<lparr>sr_created = 0, sr_existing = 0, sr_failed = []\<rparr> w)
       (\<lambda>w1 r. (w1, Inr (r, if sr_failed r \<noteq> [] then 1 else 0)))"

section \<open>The script against the service\<close>

text \<open>
  The request as the API sees it: FastAPI hands the member \<open>url\<close> of the JSON body to \<open>FeedCreate\<close>
  (\<open>parse_body\<close>) and writes the response model as a JSON object (\<open>render\<close>). The script sends no
  API key.
\<close>

definition seed_request :: "(string \<Rightarrow> url_field) \<Rightarrow> string \<Rightarrow> request" where
  "seed_request parse_body body = \<lparr>rq_path = ''/v1/feeds'', rq_key = None, rq_endpoint = PostFeed (parse_body body)\<rparr>"

definition service_urlopen ::
  "(string \<Rightarrow> url_field) \<Rightarrow> (response \<Rightarrow> string) \<Rightarrow> api_state \<Rightarrow> (string \<Rightarrow> api_env) \<Rightarrow> string \<Rightarrow> world \<Rightarrow> world \<times> urlopen_result" where
  "service_urlopen parse_body render st env body w =
     (let (w1, rs) = serve st (env body) (seed_request parse_body body) w
      in (w1, if rs_status rs < 400 then Opened (rs_status rs) (render rs) else HTTPError (rs_status rs) (render rs)))"

definition json_of :: "int \<Rightarrow> string \<Rightarrow> exn + json" where
  "json_of depth raw = try_bind (bytes_decode raw) (json_loads depth)"

text \<open>What is documented of the two: the field is the string in the body, and the id is written.\<close>

definition body_documented :: "int \<Rightarrow> (string \<Rightarrow> url_field) \<Rightarrow> bool" where
  "body_documented depth parse_body \<longleftrightarrow>
     (\<forall>body kvs u. json_of depth body = Inr (JObj kvs) \<longrightarrow> member kvs ''url'' = Some (JStr (pts u)) \<longrightarrow>
        parse_body body = UrlText u)"

definition render_documented :: "int \<Rightarrow> (response \<Rightarrow> string) \<Rightarrow> bool" where
  "render_documented depth render \<longleftrightarrow>
     (\<forall>status r. int4 (fr_id r) \<longrightarrow> (\<exists>kvs. json_of depth (render \<lparr>rs_status = status, rs_body = ReplyBody (FeedReply r)\<rparr>) =
        Inr (JObj kvs) \<and> member kvs ''id'' = Some (JInt (fr_id r))))"

section \<open>Facts: one request\<close>

lemma tokens_space: "tokens (32 # s) = tokens s"
  by (simp add: tokens.simps [of "32 # s"] tokens.simps [of s] json_space_def)

lemma url_key_plain: "list_all plain_char ''url''"
  by (simp add: plain_char_def cp_def ord_def)

lemma seed_payload_json:
  assumes "list_all plain_char url" "1 \<le> depth"
  shows "json_of depth (seed_payload url) = Inr (JObj [(pts ''url'', JStr (pts url))])"
proof -
  have a: "is_ascii (seed_payload url)"
    unfolding seed_payload_def
    using is_ascii_plain [OF url_key_plain] is_ascii_plain [OF assms(1)] by (simp add: ord_def)
  have p: "pts (seed_payload url) = 123 # pts (dumps_str ''url'') @ 58 # 32 # pts (dumps_str url) @ [125]"
    by (simp add: seed_payload_def cp_literals) (simp add: cp_def ord_def)
  have "tokens (pts (seed_payload url)) = [TLBrace, TStr (pts ''url''), TColon, TStr (pts url), TRBrace]"
    unfolding p by (simp only: tokens_punctuation tokens_plain [OF url_key_plain] tokens_space tokens_plain [OF assms(1)] tokens_Nil)
  then show ?thesis
    using assms(2) by (simp add: json_of_def bytes_decode_ascii [OF a] json_loads_def step_value_def token_scalar_def)
qed

lemma seed_payload_field:
  assumes "body_documented depth parse_body" "list_all plain_char url" "1 \<le> depth"
  shows "parse_body (seed_payload url) = UrlText url"
proof -
  have "member [(pts ''url'', JStr (pts url))] ''url'' = Some (JStr (pts url))"
    using member_simps(2) [of "[]" "''url''" "JStr (pts url)" "''url''"] by simp
  with assms seed_payload_json show ?thesis unfolding body_documented_def by blast
qed

text \<open>The service and its surroundings let a request for the URL through and commit it.\<close>

definition lets_through :: "(string \<Rightarrow> string) \<Rightarrow> api_env \<Rightarrow> string \<Rightarrow> bool" where
  "lets_through hu e url \<longleftrightarrow> \<not> ae_refused e \<and> \<not> ae_route_limited e \<and> ae_commit e \<and>
     feed_create (ae_http_url e) (UrlText url) = Inr (hu url)"

text \<open>The URL as pydantic writes it (\<open>hu\<close>) has a normal form that the guard accepts.\<close>

definition registrable :: "(string \<Rightarrow> string) \<Rightarrow> string \<Rightarrow> bool" where
  "registrable hu url \<longleftrightarrow> list_all plain_char url \<and>
     (case normalize_url (hu url) of Inl _ \<Rightarrow> False | Inr v \<Rightarrow> validate_public_url (\<lambda>_. Inr []) v False = Inr ())"

definition present :: "(string \<Rightarrow> string) \<Rightarrow> db \<Rightarrow> string \<Rightarrow> bool" where
  "present hu d url \<longleftrightarrow> (\<exists>v. normalize_url (hu url) = Inr v \<and> feed_by_url d v \<noteq> None)"

text \<open>What registrations do to the database: rows are added at the end, ids are drawn.\<close>

definition registers :: "db \<Rightarrow> db \<Rightarrow> int \<Rightarrow> bool" where
  "registers d d' n \<longleftrightarrow> feeds_seq d' = feeds_seq d + n \<and> entries_tbl d' = entries_tbl d \<and>
     (\<exists>fs. feeds_tbl d' = feeds_tbl d @ fs) \<and> feed_ids_int4 d'"

lemma registers_trans: "registers d d1 m \<Longrightarrow> registers d1 d2 n \<Longrightarrow> registers d d2 (m + n)"
  by (auto simp: registers_def)

lemma present_registers:
  assumes "registers d d' n" "present hu d url"
  shows "present hu d' url"
proof -
  obtain fs where fs: "feeds_tbl d' = feeds_tbl d @ fs" using assms(1) by (auto simp: registers_def)
  obtain v where v: "normalize_url (hu url) = Inr v" "feed_by_url d v \<noteq> None" using assms(2) by (auto simp: present_def)
  have "find P xs \<noteq> None \<Longrightarrow> find P (xs @ fs) \<noteq> None" for P xs by (auto simp: find_None_iff)
  with v fs show ?thesis unfolding present_def feed_by_url_def by metis
qed

lemma create_feed_succeeds:
  assumes "normalize_url u = Inr v" "validate_public_url (\<lambda>_. Inr []) v False = Inr ()" "int4 (feeds_seq (w_db w))"
    and "feed_ids_int4 (w_db w)"
  shows "\<exists>w1 status r. create_feed dns now db_now u w = (w1, Inr (status, r)) \<and> int4 (fr_id r) \<and>
    status = (if feed_by_url (w_db w) v = None then 201 else 200) \<and> registers (w_db w) (w_db w1) 1 \<and>
    (feed_by_url (w_db w) v \<noteq> None \<longrightarrow> feeds_tbl (w_db w1) = feeds_tbl (w_db w)) \<and> feed_by_url (w_db w1) v \<noteq> None"
proof -
  let ?d = "w_db w"
  have ok: "validate_public_url dns v False = Inr ()" using assms(2) validate_static_dns by metis
  show ?thesis
  proof (cases "feed_by_url ?d v")
    case (Some f)
    have "f \<in> set (feeds_tbl ?d)" using Some by (simp add: feed_by_url_Some)
    then have "int4 (f_id f)" using assms(4) by (simp add: feed_ids_int4_def list_all_iff)
    moreover have "feed_by_url (?d\<lparr>feeds_seq := feeds_seq ?d + 1\<rparr>) v = Some f" using Some by (simp add: feed_by_url_def)
    ultimately show ?thesis using assms Some ok
      by (simp add: create_feed_def insert_feed_def Let_def registers_def feed_ids_int4_def)
  next
    case None
    let ?f = "new_feed (feeds_seq ?d) v now db_now"
    have "feed_by_url (?d\<lparr>feeds_seq := feeds_seq ?d + 1, feeds_tbl := feeds_tbl ?d @ [?f]\<rparr>) v = Some ?f"
      using None by (simp add: feed_by_url_append)
    then show ?thesis using assms None ok
      by (simp add: create_feed_def insert_feed_def Let_def registers_def feed_ids_int4_def)
  qed
qed

lemma service_answers:
  assumes "st_api_key st = []" "1 \<le> depth" "body_documented depth parse_body" "render_documented depth render"
    and "lets_through hu (env (seed_payload url)) url" "registrable hu url" "int4 (feeds_seq (w_db w))" "feed_ids_int4 (w_db w)"
  shows "\<exists>w1 status kvs i. service_urlopen parse_body render st env (seed_payload url) w = (w1, Opened status (render i)) \<and>
    json_of depth (render i) = Inr (JObj kvs) \<and> member kvs ''id'' \<in> Some ` JInt ` UNIV \<and>
    status = (if present hu (w_db w) url then 200 else 201) \<and> registers (w_db w) (w_db w1) 1 \<and>
    (present hu (w_db w) url \<longrightarrow> feeds_tbl (w_db w1) = feeds_tbl (w_db w)) \<and> present hu (w_db w1) url"
proof -
  let ?e = "env (seed_payload url)"
  from assms(6) obtain v where v: "normalize_url (hu url) = Inr v" "validate_public_url (\<lambda>_. Inr []) v False = Inr ()"
    and plain: "list_all plain_char url"
    by (cases "normalize_url (hu url)") (simp_all add: registrable_def)
  have p: "present hu d url \<longleftrightarrow> feed_by_url d v \<noteq> None" for d by (simp add: present_def v)
  obtain w1 status r where c: "create_feed (ae_dns ?e) (ae_now ?e) (ae_db_now ?e) (hu url) w = (w1, Inr (status, r))"
    and r: "int4 (fr_id r)" "status = (if feed_by_url (w_db w) v = None then 201 else 200)"
      "registers (w_db w) (w_db w1) 1" "feed_by_url (w_db w) v \<noteq> None \<longrightarrow> feeds_tbl (w_db w1) = feeds_tbl (w_db w)"
      "feed_by_url (w_db w1) v \<noteq> None"
    using create_feed_succeeds [OF v assms(7,8), of "ae_dns ?e" "ae_now ?e" "ae_db_now ?e"] by (elim exE conjE)
  let ?rs = "\<lparr>rs_status = status, rs_body = ReplyBody (FeedReply r)\<rparr>"
  let ?w2 = "emit (metrics_events ?e (seed_request parse_body (seed_payload url)) ?rs) w1"
  have "parse_body (seed_payload url) = UrlText url" by (rule seed_payload_field [OF assms(3) plain assms(2)])
  then have "route_request st ?e (seed_request parse_body (seed_payload url)) w = (w1, Inr ?rs)"
    using assms(1,5) c
    by (simp add: route_request_def seed_request_def require_api_key_def lets_through_def call_endpoint_def
        feed_reply_def get_session_def)
  moreover have "rq_path (seed_request parse_body (seed_payload url)) \<noteq> ''/metrics''" by (simp add: seed_request_def)
  ultimately have w2: "serve st ?e (seed_request parse_body (seed_payload url)) w = (?w2, ?rs)" "w_db ?w2 = w_db w1"
    by (simp_all add: serve_def)
  obtain kvs where kvs: "json_of depth (render ?rs) = Inr (JObj kvs)" "member kvs ''id'' = Some (JInt (fr_id r))"
    using assms(4) r(1) unfolding render_documented_def by blast
  have "service_urlopen parse_body render st env (seed_payload url) w = (?w2, Opened status (render ?rs))"
    using r(2) by (simp add: service_urlopen_def w2)
  moreover have "status = (if present hu (w_db w) url then 200 else 201)" using r(2) by (simp add: p)
  moreover have "member kvs ''id'' \<in> Some ` JInt ` UNIV" using kvs(2) by blast
  ultimately show ?thesis using kvs(1) r(3-5) unfolding w2(2) [symmetric] p by blast
qed

section \<open>Facts: the loop\<close>

lemma seed_loop_registers:
  assumes "st_api_key st = []" "1 \<le> depth" "body_documented depth parse_body" "render_documented depth render"
    and "\<forall>(c, u) \<in> set feeds. registrable hu u \<and> lets_through hu (env (seed_payload u)) u"
    and "feed_ids_int4 (w_db w)" "- 2147483648 \<le> feeds_seq (w_db w)" "feeds_seq (w_db w) + int (length feeds) \<le> 2147483648"
  shows "\<exists>w1 r1. seed_loop depth (service_urlopen parse_body render st env) feeds r w = (w1, Inr r1) \<and>
    sr_failed r1 = sr_failed r \<and> sr_created r1 + sr_existing r1 = sr_created r + sr_existing r + int (length feeds) \<and>
    registers (w_db w) (w_db w1) (int (length feeds)) \<and> (\<forall>(c, u) \<in> set feeds. present hu (w_db w1) u) \<and>
    ((\<forall>(c, u) \<in> set feeds. present hu (w_db w) u) \<longrightarrow>
       sr_created r1 = sr_created r \<and> feeds_tbl (w_db w1) = feeds_tbl (w_db w))"
  using assms(5-)
proof (induction feeds arbitrary: r w)
  case Nil
  then show ?case by (simp add: registers_def)
next
  case (Cons cu feeds)
  obtain c u where cu: "cu = (c, u)" by (cases cu)
  have seq: "int4 (feeds_seq (w_db w))" using Cons.prems by (simp add: int4_def)
  obtain w1 status kvs i where a: "service_urlopen parse_body render st env (seed_payload u) w = (w1, Opened status (render i))"
      "json_of depth (render i) = Inr (JObj kvs)" "member kvs ''id'' \<in> Some ` JInt ` UNIV"
      "status = (if present hu (w_db w) u then 200 else 201)" "registers (w_db w) (w_db w1) 1"
      "present hu (w_db w) u \<longrightarrow> feeds_tbl (w_db w1) = feeds_tbl (w_db w)" "present hu (w_db w1) u"
    using service_answers [OF assms(1-4), of hu env u w] Cons.prems seq cu by auto
  let ?r = "if present hu (w_db w) u then r\<lparr>sr_existing := sr_existing r + 1\<rparr> else r\<lparr>sr_created := sr_created r + 1\<rparr>"
  have "post_feed depth (Opened status (render i)) = Inr (status, BodyJson (JObj kvs))"
    using a(2) by (cases "bytes_decode (render i)") (simp_all add: post_feed_def json_of_def)
  moreover have "show_id (BodyJson (JObj kvs)) = Inr ()" using a(3) by (auto simp: show_id_def)
  ultimately have step: "seed_loop depth (service_urlopen parse_body render st env) (cu # feeds) r w =
      seed_loop depth (service_urlopen parse_body render st env) feeds ?r w1"
    using a(1,4) by (simp add: cu count_answer_def lift_result_def)
  have w1: "feed_ids_int4 (w_db w1)" "feeds_seq (w_db w1) = feeds_seq (w_db w) + 1" using a(5) by (auto simp: registers_def)
  have rest: "\<forall>(c, u) \<in> set feeds. registrable hu u \<and> lets_through hu (env (seed_payload u)) u"
    using Cons.prems(1) by auto
  have bounds: "- 2147483648 \<le> feeds_seq (w_db w1)" "feeds_seq (w_db w1) + int (length feeds) \<le> 2147483648"
    using w1(2) Cons.prems(3,4) by simp_all
  obtain w2 r2 where b: "seed_loop depth (service_urlopen parse_body render st env) feeds ?r w1 = (w2, Inr r2)"
      "sr_failed r2 = sr_failed ?r" "sr_created r2 + sr_existing r2 = sr_created ?r + sr_existing ?r + int (length feeds)"
      "registers (w_db w1) (w_db w2) (int (length feeds))" "\<forall>(c, u) \<in> set feeds. present hu (w_db w2) u"
      "(\<forall>(c, u) \<in> set feeds. present hu (w_db w1) u) \<longrightarrow> sr_created r2 = sr_created ?r \<and> feeds_tbl (w_db w2) = feeds_tbl (w_db w1)"
    using Cons.IH [OF rest w1(1) bounds, of ?r] by blast
  have reg: "registers (w_db w) (w_db w2) (int (length (cu # feeds)))"
    using registers_trans [OF a(5) b(4)] by (simp add: add.commute)
  have pres: "\<forall>(c, u) \<in> set (cu # feeds). present hu (w_db w2) u"
    using b(5) present_registers [OF b(4) a(7)] cu by auto
  have stay: "sr_created r2 = sr_created r \<and> feeds_tbl (w_db w2) = feeds_tbl (w_db w)"
    if "\<forall>(c, u) \<in> set (cu # feeds). present hu (w_db w) u"
  proof -
    have "\<forall>(c, u) \<in> set feeds. present hu (w_db w1) u" "present hu (w_db w) u"
      using that present_registers [OF a(5)] cu by auto
    with b(6) a(6) show ?thesis by simp
  qed
  have "sr_failed ?r = sr_failed r" "sr_created ?r + sr_existing ?r = sr_created r + sr_existing r + 1" by simp_all
  with b(1-3) reg pres stay show ?case unfolding step by (intro exI [of _ w2] exI [of _ r2]) simp
qed

lemma seed_loop_accounts:
  "seed_loop depth urlopen feeds r w = (w', Inr r') \<Longrightarrow>
    sr_created r' + sr_existing r' + int (length (sr_failed r')) =
      sr_created r + sr_existing r + int (length (sr_failed r)) + int (length feeds)"
proof (induction feeds arbitrary: r w)
  case (Cons cu feeds)
  obtain c u where cu: "cu = (c, u)" by (cases cu)
  obtain w1 answer where o: "urlopen (seed_payload u) w = (w1, answer)" by fastforce
  from Cons.prems obtain r1 where r1: "try_bind (post_feed depth answer) (\<lambda>a. count_answer c u a r) = Inr r1"
    "seed_loop depth urlopen feeds r1 w1 = (w', Inr r')"
    by (auto simp: cu o lift_result_def and_then_def split: sum.splits)
  from r1(1) have "sr_created r1 + sr_existing r1 + int (length (sr_failed r1)) =
      sr_created r + sr_existing r + int (length (sr_failed r)) + 1"
    by (auto simp: try_bind_eq_Inr count_answer_def split: if_splits)
  with Cons.IH [OF r1(2)] show ?case by simp
qed simp

section \<open>Properties\<close>

text \<open>
  Whatever the network answers, a run of the script that ends counts every feed of the catalog
  exactly once, as created, existing or failed, and its exit status is 0 exactly if none failed.
\<close>

theorem seed_main_accounts:
  assumes "seed_main depth urlopen w = (w', Inr (r, code))"
  shows "sr_created r + sr_existing r + int (length (sr_failed r)) = int (length SEED_FEEDS) \<and>
    code = (if sr_failed r = [] then 0 else 1)"
proof -
  let ?z = "\<lparr>sr_created = 0, sr_existing = 0, sr_failed = []\<rparr>"
  from assms obtain r1 where l: "seed_loop depth urlopen SEED_FEEDS ?z w = (w', Inr r1)"
    and r: "r1 = r" "code = (if sr_failed r \<noteq> [] then 1 else 0)"
    by (auto simp: seed_main_def and_then_def split: prod.splits sum.splits)
  from seed_loop_accounts [OF l] r show ?thesis by simp
qed

theorem seed_main_accounts_witness:
  "\<exists>r code. seed_main 10 (\<lambda>body n. (n + 1 :: int, if n = 3 then HTTPError 503 [] else URLError ''refused'')) 0 = (22, Inr (r, code)) \<and>
     sr_created r + sr_existing r + int (length (sr_failed r)) = 22 \<and> code = 1"
proof -
  let ?open = "\<lambda>(body :: string) n. (n + 1 :: int, if n = 3 then HTTPError 503 [] else URLError ''refused'')"
  have len: "int (length SEED_FEEDS) = 22" by (simp add: SEED_FEEDS_def)
  have "\<exists>r code. seed_main 10 ?open 0 = (22, Inr (r, code)) \<and> sr_failed r \<noteq> []"
    by (simp add: seed_main_def SEED_FEEDS_def post_feed_def count_answer_def lift_result_def)
  then obtain r code where s: "seed_main 10 ?open 0 = (22, Inr (r, code))" "sr_failed r \<noteq> []" by blast
  from seed_main_accounts [OF s(1)] s len show ?thesis by auto
qed

text \<open>
  C39: Seeding is idempotent, end to end. Against a service without API key that accepts the catalog's
  URLs, does not limit the requests and commits them, the script registers every feed and exits with
  0; a second run finds all 22 existing, exits with 0, and changes no row. Only ids are used up: each
  run draws one per feed.
\<close>

theorem seeding_is_idempotent:
  assumes "st_api_key st = []" "1 \<le> depth" "body_documented depth parse_body" "render_documented depth render"
    and "\<forall>(c, u) \<in> set SEED_FEEDS. registrable hu u \<and> lets_through hu (env (seed_payload u)) u \<and>
           lets_through hu (env' (seed_payload u)) u"
    and "feed_ids_int4 (w_db w)" "- 2147483648 \<le> feeds_seq (w_db w)" "feeds_seq (w_db w) + 44 \<le> 2147483648"
  shows "\<exists>w1 w2 r. seed_main depth (service_urlopen parse_body render st env) w = (w1, Inr (r, 0)) \<and>
    sr_created r + sr_existing r = 22 \<and> (\<forall>(c, u) \<in> set SEED_FEEDS. present hu (w_db w1) u) \<and>
    seed_main depth (service_urlopen parse_body render st env') w1 =
      (w2, Inr (\<lparr>sr_created = 0, sr_existing = 22, sr_failed = []\<rparr>, 0)) \<and>
    feeds_tbl (w_db w2) = feeds_tbl (w_db w1) \<and> entries_tbl (w_db w2) = entries_tbl (w_db w) \<and>
    feeds_seq (w_db w2) = feeds_seq (w_db w) + 44"
proof -
  let ?z = "\<lparr>sr_created = 0, sr_existing = 0, sr_failed = []\<rparr>"
  have len: "int (length SEED_FEEDS) = 22" by (simp add: SEED_FEEDS_def)
  have e: "\<forall>(c, u) \<in> set SEED_FEEDS. registrable hu u \<and> lets_through hu (env (seed_payload u)) u"
    "\<forall>(c, u) \<in> set SEED_FEEDS. registrable hu u \<and> lets_through hu (env' (seed_payload u)) u"
    using assms(5) by auto
  have b: "feeds_seq (w_db w) + int (length SEED_FEEDS) \<le> 2147483648" using assms(8) len by simp
  obtain w1 r where f: "seed_loop depth (service_urlopen parse_body render st env) SEED_FEEDS ?z w = (w1, Inr r)"
    "sr_failed r = sr_failed ?z" "sr_created r + sr_existing r = sr_created ?z + sr_existing ?z + int (length SEED_FEEDS)"
    "registers (w_db w) (w_db w1) (int (length SEED_FEEDS))" "\<forall>(c, u) \<in> set SEED_FEEDS. present hu (w_db w1) u"
    using seed_loop_registers [OF assms(1-4) e(1) assms(6,7) b, of ?z] by blast
  have w1: "feed_ids_int4 (w_db w1)" "feeds_seq (w_db w1) = feeds_seq (w_db w) + 22" "entries_tbl (w_db w1) = entries_tbl (w_db w)"
    using f(4) len by (simp_all add: registers_def)
  have b': "- 2147483648 \<le> feeds_seq (w_db w1)" "feeds_seq (w_db w1) + int (length SEED_FEEDS) \<le> 2147483648"
    using w1(2) assms(7,8) len by simp_all
  obtain w2 q where g: "seed_loop depth (service_urlopen parse_body render st env') SEED_FEEDS ?z w1 = (w2, Inr q)"
    "sr_failed q = sr_failed ?z" "sr_created q + sr_existing q = sr_created ?z + sr_existing ?z + int (length SEED_FEEDS)"
    "registers (w_db w1) (w_db w2) (int (length SEED_FEEDS))" "sr_created q = sr_created ?z" "feeds_tbl (w_db w2) = feeds_tbl (w_db w1)"
    using seed_loop_registers [OF assms(1-4) e(2) w1(1) b', of ?z] f(5) by blast
  have "q = \<lparr>sr_created = 0, sr_existing = 22, sr_failed = []\<rparr>" using g(2,3,5) len by (cases q) simp
  moreover have "seed_main depth (service_urlopen parse_body render st env) w = (w1, Inr (r, 0))"
    "seed_main depth (service_urlopen parse_body render st env') w1 = (w2, Inr (q, 0))"
    using f(1,2) g(1,2) by (simp_all add: seed_main_def)
  moreover have "feeds_seq (w_db w2) = feeds_seq (w_db w) + 44" "entries_tbl (w_db w2) = entries_tbl (w_db w)"
    using g(4) w1 len by (simp_all add: registers_def)
  moreover have "sr_created r + sr_existing r = 22" using f(3) len by simp
  ultimately show ?thesis using f(5) g(6) by blast
qed

definition sample_parse_body :: "string \<Rightarrow> url_field" where
  "sample_parse_body body = (case json_of 10 body of
     Inr (JObj kvs) \<Rightarrow> (case member kvs ''url'' of Some (JStr t) \<Rightarrow> UrlText (map (\<lambda>p. char_of (nat p)) t) | _ \<Rightarrow> UrlOther)
   | _ \<Rightarrow> UrlOther)"

definition sample_render :: "response \<Rightarrow> string" where
  "sample_render rs = (case rs_body rs of
     ReplyBody (FeedReply r) \<Rightarrow> json_dumps [(''id'', PInt (fr_id r))] | _ \<Rightarrow> [])"

lemma sample_body_documented: "body_documented 10 sample_parse_body"
proof -
  have "map (\<lambda>p. char_of (nat p)) (pts u) = u" for u by (induction u) (simp_all add: pts_def cp_def ord_def)
  then show ?thesis by (simp add: body_documented_def sample_parse_body_def)
qed

lemma sample_render_documented: "render_documented 10 sample_render"
  unfolding render_documented_def
proof (intro allI impI)
  fix status :: int and r :: feed_response
  assume i: "int4 (fr_id r)"
  let ?j = "json_dumps [(''id'', PInt (fr_id r))]"
  have p: "list_all plain_char ''id''" by (simp add: plain_char_def cp_def ord_def)
  have a: "is_ascii ?j" using is_ascii_plain [OF p] by (simp add: json_dumps_def is_ascii_str_of_int ord_def)
  have "tokens (pts (str_of_int (fr_id r)) @ [125]) = TInt (fr_id r) # tokens [125]"
    by (rule tokens_decimal [OF int4_printable [OF i] stops_number_punctuation(1)])
  moreover have "pts ?j = 123 # pts (dumps_str ''id'') @ 58 # pts (str_of_int (fr_id r)) @ [125]"
    by (simp add: json_dumps_def cp_literals)
  ultimately have "tokens (pts ?j) = [TLBrace, TStr (pts ''id''), TColon, TInt (fr_id r), TRBrace]"
    by (simp only: tokens_punctuation tokens_plain [OF p] tokens_Nil)
  then have "json_of 10 ?j = Inr (JObj [(pts ''id'', JInt (fr_id r))])"
    by (simp add: json_of_def bytes_decode_ascii [OF a] json_loads_def step_value_def token_scalar_def)
  moreover have "member [(pts ''id'', JInt (fr_id r))] ''id'' = Some (JInt (fr_id r))"
    using member_simps(2) [of "[]" "''id''" "JInt (fr_id r)" "''id''"] by simp
  ultimately show "\<exists>kvs. json_of 10 (sample_render \<lparr>rs_status = status, rs_body = ReplyBody (FeedReply r)\<rparr>) = Inr (JObj kvs) \<and>
      member kvs ''id'' = Some (JInt (fr_id r))"
    by (simp add: sample_render_def)
qed

lemma catalog_registrable: "list_all (\<lambda>(c, u). registrable id u) SEED_FEEDS"
  by code_simp

lemma catalog_accepted: "list_all (\<lambda>(c, u). \<not> reject_internal_whitespace u) SEED_FEEDS"
  by code_simp

theorem seeding_is_idempotent_witness:
  "\<exists>w1 w2 r. seed_main 10 (service_urlopen sample_parse_body sample_render (sample_api_state\<lparr>st_api_key := []\<rparr>) (\<lambda>_. sample_api_env))
      sample_api_world = (w1, Inr (r, 0)) \<and> sr_created r + sr_existing r = 22 \<and>
    seed_main 10 (service_urlopen sample_parse_body sample_render (sample_api_state\<lparr>st_api_key := []\<rparr>) (\<lambda>_. sample_api_env))
      w1 = (w2, Inr (\<lparr>sr_created = 0, sr_existing = 22, sr_failed = []\<rparr>, 0))"
proof -
  let ?st = "sample_api_state\<lparr>st_api_key := []\<rparr>" and ?env = "\<lambda>_ :: string. sample_api_env"
  have "lets_through id sample_api_env u" if "\<not> reject_internal_whitespace u" for u
    using that by (simp add: lets_through_def sample_api_env_def feed_create_def)
  then have c: "\<forall>(c, u) \<in> set SEED_FEEDS. registrable id u \<and> lets_through id (?env (seed_payload u)) u \<and>
      lets_through id (?env (seed_payload u)) u"
    using catalog_registrable catalog_accepted by (auto simp: list_all_iff)
  have w: "feed_ids_int4 (w_db sample_api_world)" "- 2147483648 \<le> feeds_seq (w_db sample_api_world)"
    "feeds_seq (w_db sample_api_world) + 44 \<le> 2147483648"
    by (simp_all add: feed_ids_int4_def sample_api_world_def sample_db_def sample_feed_def int4_def)
  have k: "st_api_key ?st = []" "(1 :: int) \<le> 10" by simp_all
  from seeding_is_idempotent [OF k sample_body_documented sample_render_documented c w] show ?thesis by blast
qed

end
