(* ===== verification/Log_Config.thy ===== *)
theory Log_Config
  imports PyExn PyText
begin

text \<open>
  \<open>logging_config.py\<close>: \<open>configure_logging\<close> as a change of the process-wide tree of loggers, and the
  filter of the access log. The tree is a function from dotted names to loggers (the root has the
  empty name; a logger nobody has touched has level \<open>NOTSET\<close>, no handlers and propagates). What
  the standard library does with a record is \<open>emitted\<close>: the handlers a record of a logger reaches.
  The processors of structlog only shape the text of a line and are left out.
\<close>

section \<open>The logging tree\<close>

datatype log_filter = SilentPathFilter | OtherFilter "string \<Rightarrow> bool"

datatype log_handler = ServiceHandler bool | OtherHandler int

record logger =
  lg_level :: int
  lg_handlers :: "log_handler list"
  lg_propagate :: bool
  lg_filters :: "log_filter list"

type_synonym log_tree = "string \<Rightarrow> logger"

text \<open>The name of a logger, of its parent, and so on up to the root.\<close>

definition names_up :: "string \<Rightarrow> string list" where
  "names_up name =
     filter (\<lambda>n. n \<noteq> [])
       (map (\<lambda>k. join_on CHR ''.'' (take k (split_on CHR ''.'' name))) (rev [1..<Suc (length (split_on CHR ''.'' name))])) @ [[]]"

fun effective_level :: "log_tree \<Rightarrow> string list \<Rightarrow> int" where
  "effective_level t [] = 0"
| "effective_level t (n # ns) = (if lg_level (t n) \<noteq> 0 then lg_level (t n) else effective_level t ns)"

fun handlers_up :: "log_tree \<Rightarrow> string list \<Rightarrow> log_handler list" where
  "handlers_up t [] = []"
| "handlers_up t (n # ns) = lg_handlers (t n) @ (if lg_propagate (t n) then handlers_up t ns else [])"

definition substring :: "string \<Rightarrow> string \<Rightarrow> bool" where
  "substring p s = list_ex (\<lambda>k. startswith (drop k s) p) [0..<Suc (length s)]"

definition SILENT_PATHS :: "string list" where
  "SILENT_PATHS = [''/healthz'', ''/metrics'']"

definition silent_path_filter :: "string \<Rightarrow> bool" where
  "silent_path_filter msg = (\<not> list_ex (\<lambda>path. substring path msg) SILENT_PATHS)"

fun run_filter :: "log_filter \<Rightarrow> string \<Rightarrow> bool" where
  "run_filter SilentPathFilter msg = silent_path_filter msg"
| "run_filter (OtherFilter f) msg = f msg"

definition emitted :: "log_tree \<Rightarrow> string \<Rightarrow> int \<Rightarrow> string \<Rightarrow> log_handler list" where
  "emitted t name level msg =
     (if effective_level t (names_up name) \<le> level \<and> list_all (\<lambda>f. run_filter f msg) (lg_filters (t name))
      then handlers_up t (names_up name) else [])"

section \<open>Configuration\<close>

definition upper_char :: "char \<Rightarrow> char" where
  "upper_char c = (if 97 \<le> ord c \<and> ord c \<le> 122 then char_of (ord c - 32) else c)"

text \<open>
  \<open>getattr(logging, level_name, logging.INFO)\<close>: the attributes of the module that are their own upper
  case. Two of them are no levels, and \<open>setLevel\<close> refuses them.
\<close>

definition level_of :: "string \<Rightarrow> exn + int" where
  "level_of log_level =
     (let level_name = map upper_char log_level in
      if level_name = ''BASIC_FORMAT'' then Inl (raise_exn ValueError)
      else if level_name = ''_STYLES'' then Inl (raise_exn TypeError)
      else (case map_of [(''CRITICAL'', 50), (''FATAL'', 50), (''ERROR'', 40), (''WARNING'', 30), (''WARN'', 30), (''INFO'', 20),
                  (''DEBUG'', 10), (''NOTSET'', 0)] level_name of
              Some n \<Rightarrow> Inr n | None \<Rightarrow> Inr 20))"

definition reset_logger :: "int \<Rightarrow> logger \<Rightarrow> logger" where
  "reset_logger level lg = lg\<lparr>lg_handlers := [], lg_propagate := True, lg_level := level\<rparr>"

fun reset_loggers :: "int \<Rightarrow> string list \<Rightarrow> log_tree \<Rightarrow> log_tree" where
  "reset_loggers level [] t = t"
| "reset_loggers level (n # ns) t = reset_loggers level ns (t(n := reset_logger level (t n)))"

definition configure_logging :: "string \<Rightarrow> bool \<Rightarrow> log_tree \<Rightarrow> (log_tree, exn, unit) outcome" where
  "configure_logging log_level json_logs t =
     (let t = t([] := (t [])\<lparr>lg_handlers := [ServiceHandler json_logs]\<rparr>) in
      and_then (lift_result t (level_of log_level)) (\<lambda>t level.
        let t = t([] := (t [])\<lparr>lg_level := level\<rparr>);
            t = reset_loggers level [''uvicorn'', ''uvicorn.error'', ''fastapi''] t;
            t = t(''uvicorn.access'' := (t ''uvicorn.access'')\<lparr>lg_handlers := [], lg_filters := [], lg_propagate := True,
                    lg_level := level\<rparr>);
            t = t(''uvicorn.access'' := (t ''uvicorn.access'')\<lparr>lg_filters := [SilentPathFilter]\<rparr>);
            t = reset_loggers 30 [''sqlalchemy'', ''sqlalchemy.engine'', ''sqlalchemy.pool''] t
        in (t, Inr ())))"

section \<open>Facts\<close>

lemma startswith_iff: "startswith s p \<longleftrightarrow> (\<exists>vs. s = p @ vs)"
  unfolding startswith_def by (metis append_eq_conv_conj append_take_drop_id)

lemma substring_iff: "substring p s \<longleftrightarrow> (\<exists>us vs. s = us @ p @ vs)"
proof
  assume "substring p s"
  then obtain k vs where "drop k s = p @ vs" unfolding substring_def list_ex_iff startswith_iff by blast
  then show "\<exists>us vs. s = us @ p @ vs" by (metis append_take_drop_id)
next
  assume "\<exists>us vs. s = us @ p @ vs"
  then obtain us vs where s: "s = us @ p @ vs" by blast
  then have "startswith (drop (length us) s) p" "length us \<in> set [0..<Suc (length s)]" by (simp_all add: startswith_iff)
  then show "substring p s" unfolding substring_def list_ex_iff by blast
qed

lemma names_up_known:
  "names_up [] = [[]]" "names_up ''uvicorn'' = [''uvicorn'', []]" "names_up ''fastapi'' = [''fastapi'', []]"
  "names_up ''uvicorn.error'' = [''uvicorn.error'', ''uvicorn'', []]"
  "names_up ''uvicorn.access'' = [''uvicorn.access'', ''uvicorn'', []]"
  "names_up ''sqlalchemy'' = [''sqlalchemy'', []]"
  "names_up ''sqlalchemy.engine'' = [''sqlalchemy.engine'', ''sqlalchemy'', []]"
  "names_up ''sqlalchemy.pool'' = [''sqlalchemy.pool'', ''sqlalchemy'', []]"
  "names_up ''sqlalchemy.engine.Engine'' = [''sqlalchemy.engine.Engine'', ''sqlalchemy.engine'', ''sqlalchemy'', []]"
  by code_simp+

text \<open>The tree that a successful configuration leaves, logger by logger.\<close>

definition configured :: "int \<Rightarrow> bool \<Rightarrow> log_tree \<Rightarrow> log_tree" where
  "configured level json_logs t =
     (\<lambda>n. if n = [] then (t n)\<lparr>lg_handlers := [ServiceHandler json_logs], lg_level := level\<rparr>
          else if n \<in> {''uvicorn'', ''uvicorn.error'', ''fastapi''} then reset_logger level (t n)
          else if n = ''uvicorn.access'' then (reset_logger level (t n))\<lparr>lg_filters := [SilentPathFilter]\<rparr>
          else if n \<in> {''sqlalchemy'', ''sqlalchemy.engine'', ''sqlalchemy.pool''} then reset_logger 30 (t n)
          else t n)"

lemma configure_logging_ok:
  assumes "level_of log_level = Inr level"
  shows "configure_logging log_level json_logs t = (configured level json_logs t, Inr ())"
  using assms by (auto simp: configure_logging_def configured_def lift_result_def Let_def reset_logger_def fun_eq_iff)

lemma configured_twice: "configured level json_logs (configured level' json' t) = configured level json_logs t"
  by (auto simp: configured_def reset_logger_def fun_eq_iff)

lemma configured_at:
  "configured level json_logs t [] = (t [])\<lparr>lg_handlers := [ServiceHandler json_logs], lg_level := level\<rparr>"
  "configured level json_logs t ''uvicorn'' = reset_logger level (t ''uvicorn'')"
  "configured level json_logs t ''uvicorn.error'' = reset_logger level (t ''uvicorn.error'')"
  "configured level json_logs t ''fastapi'' = reset_logger level (t ''fastapi'')"
  "configured level json_logs t ''uvicorn.access'' = (reset_logger level (t ''uvicorn.access''))\<lparr>lg_filters := [SilentPathFilter]\<rparr>"
  "configured level json_logs t ''sqlalchemy'' = reset_logger 30 (t ''sqlalchemy'')"
  "configured level json_logs t ''sqlalchemy.engine'' = reset_logger 30 (t ''sqlalchemy.engine'')"
  "configured level json_logs t ''sqlalchemy.pool'' = reset_logger 30 (t ''sqlalchemy.pool'')"
  by (simp_all add: configured_def)

lemma reset_logger_fields [simp]:
  "lg_level (reset_logger l g) = l" "lg_handlers (reset_logger l g) = []" "lg_propagate (reset_logger l g)"
  "lg_filters (reset_logger l g) = lg_filters g"
  by (simp_all add: reset_logger_def)

lemma emitted_server:
  "name = ''uvicorn'' \<or> name = ''uvicorn.error'' \<or> name = ''fastapi'' \<Longrightarrow>
   emitted (configured level json_logs t) name lv msg =
     (if level \<le> lv \<and> list_all (\<lambda>f. run_filter f msg) (lg_filters (t name)) then [ServiceHandler json_logs] else [])"
  by (elim disjE) (simp_all only: emitted_def names_up_known configured_at effective_level.simps handlers_up.simps, simp_all)

lemma emitted_sqlalchemy:
  "name = ''sqlalchemy'' \<or> name = ''sqlalchemy.engine'' \<or> name = ''sqlalchemy.pool'' \<Longrightarrow>
   emitted (configured level json_logs t) name lv msg =
     (if 30 \<le> lv \<and> list_all (\<lambda>f. run_filter f msg) (lg_filters (t name)) then [ServiceHandler json_logs] else [])"
  by (elim disjE) (simp_all only: emitted_def names_up_known configured_at effective_level.simps handlers_up.simps, simp_all)

lemma emitted_access:
  "emitted (configured level json_logs t) ''uvicorn.access'' lv msg =
     (if level \<le> lv \<and> silent_path_filter msg then [ServiceHandler json_logs] else [])"
  by (simp only: emitted_def names_up_known configured_at effective_level.simps handlers_up.simps) simp

text \<open>A logger that neither the program nor a library has configured.\<close>

definition fresh :: "log_tree \<Rightarrow> string \<Rightarrow> bool" where
  "fresh t n \<longleftrightarrow> lg_level (t n) = 0 \<and> lg_handlers (t n) = [] \<and> lg_propagate (t n) \<and> lg_filters (t n) = []"

definition service_loggers :: "string list" where
  "service_loggers = [''uvicorn'', ''uvicorn.error'', ''fastapi'', ''uvicorn.access'', ''sqlalchemy'', ''sqlalchemy.engine'', ''sqlalchemy.pool'']"

text \<open>A logger on whose handlers and propagation the service relies: its own, or one that nobody gave a handler.\<close>

definition plain :: "log_tree \<Rightarrow> string \<Rightarrow> bool" where
  "plain t n \<longleftrightarrow> n = [] \<or> n \<in> set service_loggers \<or> lg_handlers (t n) = [] \<and> lg_propagate (t n)"

lemma configured_other: "n \<noteq> [] \<Longrightarrow> n \<notin> set service_loggers \<Longrightarrow> configured level json_logs t n = t n"
  by (simp add: configured_def service_loggers_def)

lemma configured_service:
  "n \<in> set service_loggers \<Longrightarrow>
     lg_handlers (configured level json_logs t n) = [] \<and> lg_propagate (configured level json_logs t n)"
  by (auto simp: configured_def service_loggers_def)

lemma handlers_chain:
  assumes "\<forall>n \<in> set ns. n \<noteq> [] \<and> plain t n"
  shows "handlers_up (configured level json_logs t) (ns @ [[]]) = [ServiceHandler json_logs]"
  using assms
proof (induction ns)
  case (Cons n ns)
  then have "lg_handlers (configured level json_logs t n) = [] \<and> lg_propagate (configured level json_logs t n)"
    by (cases "n \<in> set service_loggers") (auto simp: plain_def configured_service configured_other)
  with Cons show ?case by simp
qed (simp add: configured_at)

lemma single_handler:
  assumes "\<forall>n \<in> set (names_up name). plain t n"
  shows "handlers_up (configured level json_logs t) (names_up name) = [ServiceHandler json_logs]"
  using assms unfolding names_up_def by (intro handlers_chain) simp

text \<open>Loggers that nobody has configured, below \<open>ns\<close>: they take the level they find above.\<close>

lemma fresh_chain:
  "\<forall>n \<in> set ns. fresh t n \<Longrightarrow> effective_level t (ns @ ms) = effective_level t ms"
  "\<forall>n \<in> set ns. fresh t n \<Longrightarrow> handlers_up t (ns @ ms) = handlers_up t ms"
  by (induction ns) (auto simp: fresh_def)

definition below :: "log_tree \<Rightarrow> string \<Rightarrow> string \<Rightarrow> bool" where
  "below t name anc \<longleftrightarrow> (\<exists>ns. names_up name = ns @ names_up anc \<and>
     (\<forall>n \<in> set (name # ns). fresh t n \<and> n \<noteq> [] \<and> n \<notin> set service_loggers))"

definition sqlalchemy_loggers :: "string list" where
  "sqlalchemy_loggers = [''sqlalchemy'', ''sqlalchemy.engine'', ''sqlalchemy.pool'']"

lemma at_service:
  assumes "anc = [] \<or> anc \<in> set service_loggers"
  shows "effective_level (configured level json_logs t) (names_up anc) = (if anc \<in> set sqlalchemy_loggers then 30 else level)"
    "handlers_up (configured level json_logs t) (names_up anc) = [ServiceHandler json_logs]"
  using assms unfolding service_loggers_def set_simps insert_iff empty_iff
  by (elim disjE; simp only: names_up_known configured_at effective_level.simps handlers_up.simps; simp add: sqlalchemy_loggers_def)+

lemma emitted_below:
  assumes "below t name anc" "anc = [] \<or> anc \<in> set service_loggers"
  shows "emitted (configured level json_logs t) name lv msg =
    (if (if anc \<in> set sqlalchemy_loggers then 30 else level) \<le> lv then [ServiceHandler json_logs] else [])"
proof -
  let ?t = "configured level json_logs t"
  from assms(1) obtain ns where ns: "names_up name = ns @ names_up anc"
    "\<forall>n \<in> set (name # ns). fresh t n \<and> n \<noteq> [] \<and> n \<notin> set service_loggers" unfolding below_def by blast
  have f: "\<forall>n \<in> set ns. fresh ?t n" "lg_filters (?t name) = []"
    using ns(2) configured_other by (auto simp: fresh_def)
  show ?thesis by (simp add: emitted_def ns(1) fresh_chain [OF f(1)] f(2) at_service [OF assms(2)])
qed

lemma silent_path_filter_iff:
  "silent_path_filter msg \<longleftrightarrow> (\<nexists>us vs. msg = us @ ''/healthz'' @ vs) \<and> (\<nexists>us vs. msg = us @ ''/metrics'' @ vs)"
  unfolding silent_path_filter_def SILENT_PATHS_def substring_iff by simp

section \<open>Properties\<close>

text \<open>
  C40: After \<open>configure_logging\<close>, whatever handlers the root and the loggers of uvicorn, FastAPI and
  SQLAlchemy had before: a record is written at most once, and then by the service's handler, if
  every other logger between its own and the root propagates and has no handler of its own. And it
  is written from a level on: records of uvicorn and FastAPI from the configured one, those of
  SQLAlchemy from \<open>WARNING\<close>, as far as filters on these loggers let them through; records of a logger
  nobody has configured from the level of the next logger above it, so \<open>WARNING\<close> for
  \<open>sqlalchemy.engine.Engine\<close> and the configured level for the service's own modules; and records of
  the access log from the configured level, unless their text contains \<open>/healthz\<close> or \<open>/metrics\<close>
  anywhere. Configuring again changes nothing. (A library that puts a handler on a logger of its own
  is outside the first sentence: that handler writes its records a second time.)
\<close>

theorem every_line_once:
  assumes "level_of log_level = Inr level"
  shows "\<exists>t'. configure_logging log_level json_logs t = (t', Inr ()) \<and> configure_logging log_level json_logs t' = (t', Inr ()) \<and>
    (\<forall>name lv msg. (\<forall>n \<in> set (names_up name). plain t n) \<longrightarrow> emitted t' name lv msg \<in> {[], [ServiceHandler json_logs]}) \<and>
    (\<forall>name lv msg. name \<in> set [''uvicorn'', ''uvicorn.error'', ''fastapi''] \<longrightarrow>
       emitted t' name lv msg =
         (if level \<le> lv \<and> list_all (\<lambda>f. run_filter f msg) (lg_filters (t name)) then [ServiceHandler json_logs] else [])) \<and>
    (\<forall>name lv msg. name \<in> set sqlalchemy_loggers \<longrightarrow>
       emitted t' name lv msg =
         (if 30 \<le> lv \<and> list_all (\<lambda>f. run_filter f msg) (lg_filters (t name)) then [ServiceHandler json_logs] else [])) \<and>
    (\<forall>name anc lv msg. below t name anc \<longrightarrow> anc = [] \<or> anc \<in> set service_loggers \<longrightarrow>
       emitted t' name lv msg =
         (if (if anc \<in> set sqlalchemy_loggers then 30 else level) \<le> lv then [ServiceHandler json_logs] else [])) \<and>
    (\<forall>lv msg. emitted t' ''uvicorn.access'' lv msg =
       (if level \<le> lv \<and> (\<nexists>us vs. msg = us @ ''/healthz'' @ vs) \<and> (\<nexists>us vs. msg = us @ ''/metrics'' @ vs)
        then [ServiceHandler json_logs] else []))"
proof (intro exI [of _ "configured level json_logs t"] conjI allI impI)
  let ?t = "configured level json_logs t"
  show "configure_logging log_level json_logs t = (?t, Inr ())" "configure_logging log_level json_logs ?t = (?t, Inr ())"
    by (simp_all only: configure_logging_ok [OF assms] configured_twice)
  fix name lv msg
  show "emitted ?t name lv msg \<in> {[], [ServiceHandler json_logs]}" if "\<forall>n \<in> set (names_up name). plain t n"
    using single_handler [OF that] by (simp add: emitted_def)
  show "emitted ?t name lv msg =
      (if level \<le> lv \<and> list_all (\<lambda>f. run_filter f msg) (lg_filters (t name)) then [ServiceHandler json_logs] else [])"
    if "name \<in> set [''uvicorn'', ''uvicorn.error'', ''fastapi'']"
    by (rule emitted_server) (use that in simp)
  show "emitted ?t name lv msg =
      (if 30 \<le> lv \<and> list_all (\<lambda>f. run_filter f msg) (lg_filters (t name)) then [ServiceHandler json_logs] else [])"
    if "name \<in> set sqlalchemy_loggers"
    by (rule emitted_sqlalchemy) (use that in \<open>simp add: sqlalchemy_loggers_def\<close>)
  show "emitted ?t name lv msg =
      (if (if anc \<in> set sqlalchemy_loggers then 30 else level) \<le> lv then [ServiceHandler json_logs] else [])"
    if "below t name anc" "anc = [] \<or> anc \<in> set service_loggers" for anc
    using that by (rule emitted_below)
  show "emitted ?t ''uvicorn.access'' lv msg =
      (if level \<le> lv \<and> (\<nexists>us vs. msg = us @ ''/healthz'' @ vs) \<and> (\<nexists>us vs. msg = us @ ''/metrics'' @ vs)
       then [ServiceHandler json_logs] else [])"
    unfolding emitted_access silent_path_filter_iff by (rule refl)
qed

theorem every_line_once_witness:
  "\<exists>t'. configure_logging ''debug'' True
       (\<lambda>n. if n = ''sqlalchemy.engine.Engine'' then \<lparr>lg_level = 0, lg_handlers = [], lg_propagate = True, lg_filters = []\<rparr>
            else \<lparr>lg_level = 0, lg_handlers = [OtherHandler 1], lg_propagate = False, lg_filters = []\<rparr>) = (t', Inr ()) \<and>
     emitted t' ''uvicorn.error'' 10 ''started'' = [ServiceHandler True] \<and>
     emitted t' ''sqlalchemy.engine.Engine'' 20 ''BEGIN'' = [] \<and>
     emitted t' ''sqlalchemy.engine.Engine'' 30 ''slow'' = [ServiceHandler True] \<and>
     emitted t' ''uvicorn.access'' 20 (''GET /v1/feeds?'' @ ''next='' @ ''/metrics'' @ '' HTTP/1.1'') = []"
proof -
  let ?t = "\<lambda>n. if n = ''sqlalchemy.engine.Engine'' then \<lparr>lg_level = 0, lg_handlers = [], lg_propagate = True, lg_filters = []\<rparr>
    else \<lparr>lg_level = 0, lg_handlers = [OtherHandler 1], lg_propagate = False, lg_filters = []\<rparr>"
  have l: "level_of ''debug'' = Inr 10" by code_simp
  have "\<exists>us vs. ''GET /v1/feeds?'' @ ''next='' @ ''/metrics'' @ '' HTTP/1.1'' = us @ ''/metrics'' @ vs"
    by (intro exI [of _ "''GET /v1/feeds?'' @ ''next=''"] exI [of _ "'' HTTP/1.1''"]) simp
  moreover have "below ?t ''sqlalchemy.engine.Engine'' ''sqlalchemy.engine''"
    unfolding below_def names_up_known by (rule exI [of _ "[''sqlalchemy.engine.Engine'']"]) (simp add: fresh_def service_loggers_def)
  moreover have "''sqlalchemy.engine'' \<in> set service_loggers" "''sqlalchemy.engine'' \<in> set sqlalchemy_loggers"
    by (simp_all add: service_loggers_def sqlalchemy_loggers_def)
  ultimately show ?thesis using every_line_once [OF l, of True ?t]
    by (elim exE conjE) (intro exI conjI, assumption, auto)
qed

end
