(* ===== verification/Spec2Isabelle.thy ===== *)
theory Spec2Isabelle
  imports App Interleaving Delivery Lost_Attempts Alembic_Env Seed Log_Config
begin

text \<open>
  A verification library for feedgate-fetcher, the feed fetching service of this repository
  (Python package \<open>src/src/feedgate_fetcher\<close>).

  \<^bold>\<open>The program.\<close> A scheduler claims due feeds from PostgreSQL, fetches each over HTTP behind an
  SSRF guard, parses the document, upserts its entries, moves the feed through its lifecycle
  (active, broken, dead) and computes when to fetch it next. A retention task deletes old
  entries. An HTTP API lists and edits feeds and pages through entries. Prometheus counters and
  log lines record what happened.

  \<^bold>\<open>The theories\<close>, in import order, with the code they model.
  \<^item> \<open>Prelude\<close>: results and outcomes, tables as lists of rows, \<open>LIMIT\<close> over \<open>ORDER BY\<close>, the
    locale \<open>state_evolution\<close> for relations that sequences of steps respect.
  \<^item> \<open>PyText\<close>, \<open>PyFloat\<close>, \<open>PyExn\<close>, \<open>PyNet\<close>: the parts of the language and its standard library
    the program computes with: string methods and \<open>int()\<close>, binary floating point with
    round-half-even and \<open>datetime\<close>/\<open>timedelta\<close> arithmetic in microseconds, exceptions with their
    causes, \<open>ipaddress\<close> on 32- and 128-bit words and \<open>urllib.parse.urlsplit\<close>.
  \<^item> \<open>Models\<close> (\<open>models.py\<close>): rows, tables, constraints (\<open>db_ok\<close>).
  \<^item> \<open>Metrics\<close> (\<open>metrics.py\<close>): the trace of counters and log lines, \<open>observe_fetch\<close>.
  \<^item> \<open>Feed_State\<close> (\<open>feed_state.py\<close>): lifecycle operations, the documented state machine
    \<open>lifecycle\<close>, the locale \<open>lifecycle_operation\<close>.
  \<^item> \<open>Fetch_Errors\<close> (\<open>fetcher/errors.py\<close>): classification of exceptions.
  \<^item> \<open>Policy\<close> (\<open>fetcher/policy.py\<close>): next fetch time, \<open>Retry-After\<close>, cache hints, content types.
  \<^item> \<open>Address_Ranges\<close>: the documented rule of the guard as ranges of numbers, independent of the
    library's tables, which are shown to decide it. \<open>Ssrf\<close> (\<open>ssrf.py\<close>): \<open>validate_public_url\<close> and the guarding transport.
  \<^item> \<open>Fallback\<close> (\<open>fetcher/fallback.py\<close>): the impersonating client.
  \<^item> \<open>Upsert\<close> (\<open>fetcher/upsert.py\<close>): the conditional upsert and its documented policy.
  \<^item> \<open>Feed_Parser\<close> (\<open>fetcher/parser.py\<close>): from feedparser's result to entries, with the
    Gregorian calendar of the \<open>datetime\<close> constructor.
  \<^item> \<open>Http\<close> (\<open>fetcher/http.py\<close>): the whole of \<open>fetch_one\<close>; \<open>Fetch_Outcomes\<close>: what it does in each
    situation.
  \<^item> \<open>Background_Loop\<close>: the loop \<open>run\<close> of the scheduler and the sweeper, with the locale
    \<open>background_task\<close>.
  \<^item> \<open>Scheduler\<close> (\<open>fetcher/scheduler.py\<close>): claim with lease, per-feed sessions, tick, loop.
  \<^item> \<open>Retention\<close> (\<open>fetcher/retention.py\<close>): the sweep, tick, loop.
  \<^item> \<open>Collector\<close> (\<open>metrics.py\<close>): the state gauges, one collection, the collector loop.
  \<^item> \<open>PyJson\<close>, \<open>Iso_Date\<close>, \<open>PyUrl\<close>: base64, UTF-8, \<open>json.dumps\<close> and \<open>json.loads\<close>, \<open>isoformat\<close> and
    \<open>fromisoformat\<close>, and \<open>urlunsplit\<close> against \<open>urlsplit\<close>.
  \<^item> \<open>Keyset\<close>: keyset pagination as a locale: a client's walk along cursors, over a table at rest and
    over one that is edited meanwhile. It is interpreted for feeds and for entries.
  \<^item> \<open>Api_Errors\<close> (\<open>api/errors.py\<close>), \<open>Api_Cursor\<close> (what both cursors share), \<open>Schemas\<close> (\<open>schemas.py\<close>).
  \<^item> \<open>Api_Feeds\<close> (\<open>api/feeds.py\<close>): normalisation, registration, listing, deletion, reactivation.
  \<^item> \<open>Api_Entries\<close> (\<open>api/entries.py\<close>): the cursor, the parameters, the listing.
  \<^item> \<open>Api_App\<close> (\<open>api/dependencies.py\<close>, \<open>api/router.py\<close>, \<open>api/middleware.py\<close>): \<open>serve\<close>, the path of a
    request through limiter, key check, handler, session and metrics; the relation \<open>ages\<close>.
  \<^item> \<open>Interleaving\<close> (\<open>fetcher/scheduler.py\<close>, \<open>fetcher/http.py\<close>): \<open>_process_feed\<close> in two halves, up to
    the first network wait and after the last, with anything happening in between: column-wise
    write-back, vanished feeds, two runs side by side.
  \<^item> \<open>Documents\<close>: what \<open>_process_feed\<close> makes of a publisher's document, from the bytes to the committed
    rows. \<open>Delivery\<close>: the composition of a whole tick (claim, all its fetches, parser, upsert) with
    \<open>GET /v1/entries\<close>: what is published is what is served. \<open>Lost_Attempts\<close>: the transactions of a tick that
    are undone after the attempt was counted.
  \<^item> \<open>App\<close> (\<open>config.py\<close>, \<open>main.py\<close>): settings, wiring, the length of a tick under the semaphore,
    draining of the background tasks at shutdown.
  \<^item> \<open>Log_Config\<close> (\<open>logging_config.py\<close>): the tree of loggers and the filter of the access log.
  \<^item> \<open>Migrations\<close> (\<open>alembic/versions\<close>, \<open>models.py\<close>): the revisions of the schema, up and down, and the
    schema of the ORM classes.
  \<^item> \<open>Alembic_Env\<close> (\<open>alembic/env.py\<close>): where a migration run gets its URL, with the interpolation of
    \<open>configparser\<close>, and its two modes.
  \<^item> \<open>Seed\<close> (\<open>scripts/seed_feeds.py\<close>): the seeding script, alone and against the service.
  \<^item> This theory: the background tasks together (\<open>system_step\<close>), the whole service with its API
    (\<open>service_step\<close>), the service with fetches in flight (\<open>concurrent_step\<close>), and the properties that cross from one component to another.

  \<^bold>\<open>Conventions.\<close> A raised exception is \<open>Inl\<close>, a returned value \<open>Inr\<close>. Stateful code returns the
  state it reached also when it raises, because Python objects keep their mutations. Instants
  and durations are integers in microseconds, as \<open>datetime\<close> and \<open>timedelta\<close> are; a float is the
  rational number it denotes, and \<open>fl\<close> rounds to the nearest double (overflow to infinity does
  not occur in the values the program forms). Code that is not in the repository is an argument:
  the DNS resolver, the httpx client and its responses, curl_cffi, feedparser, the RFC 2822 date
  parser, the random draw, the database clock, which statements and commits PostgreSQL accepts,
  pydantic's \<open>HttpUrl\<close>, slowapi's verdict, and \<open>fromisoformat\<close> on texts of a shape that
  \<open>isoformat\<close> does not write. The hypotheses on such code are \<open>documented_response\<close>, that
  \<open>raise_for_status\<close> raises on 4xx and 5xx and not on 2xx, \<open>iso_documented\<close>, which exceptions
  \<open>fromisoformat\<close> raises, and, for the seeding script against the service, \<open>body_documented\<close> and
  \<open>render_documented\<close>, that a body is decoded to what was encoded.

  \<^bold>\<open>What is shown.\<close> For one fetch: it is counted exactly once, every status change is a recorded
  edge of the lifecycle, the database stays consistent and other feeds are untouched, and the
  effect of error statuses, rate limits, unmodified and stored documents, refused URLs, oversized
  bodies and entry caps. For a history of failures: when the feed breaks and dies. For the
  policy: bounds on the next fetch with rounding and jitter included. For the guard: exactly
  which URLs pass, in terms of ranges of addresses. For the upsert: refinement of the documented policy, idempotence, immutability
  of \<open>fetched_at\<close>. For the scheduler: claims, leases, accounting, isolation, survival of the
  loop. For retention: the exact keep set, the minimum per feed, convergence of batches. For the
  API: round trips of the cursors down to the bytes, complete and duplicate-free listings at rest
  and under edits, idempotent registration, atomic requests, the API key, the counters. For the
  application: the sizing rule of the shutdown budget and that shutdown completes. For the service:
  consistency and the identity of ids under every interleaving of requests, sweeps, claims and
  fetches in flight, that fetches of different feeds on different hosts do not disturb each other, that a deletion
  wins over a fetch in flight, that a feed created or reactivated by a request is claimed, and that
  what a publisher's document holds is what a reader of the API gets. For the rest of the repository: the
  migrations lead to the schema of the ORM classes from every revision, the seeding script is
  idempotent, and the service writes no log line twice. Some theorems state where the code
  departs from its documentation (the fallback's ignored status, bookkeeping lost by an aborted
  transaction or an overflowing hint, failed probes of dead feeds that are counted and re-coded, no
  limit per host, address ranges that pass the guard, a backoff shorter than
  the interval, cursors, ids and keys that end in a 500, a commit after the response, a gauge
  that misses dead feeds, a reactivation that a fetch in flight half undoes, a database
  URL that the migrations cannot take).

  \<^bold>\<open>Bounds.\<close> Every function is total. The background loops take fuel, one unit per iteration;
  the theorems about them hold for every fuel and say that it is used up, so running out is not a
  failure. The walk along exception causes is bounded by eight as in the code. JSON is parsed by a
  stack machine, one step per token; the interpreter's bound on nesting is an argument.

  \<^bold>\<open>Not modelled.\<close> The text of log lines and of what the script prints; how
  pydantic-settings reads the environment; alembic's command line and version table; interleavings
  inside the handler of a request, inside a sweep and between the statements of one landing, which
  are atomic here as no network wait separates their statements; database failures other than the ones named above; requests whose body is not JSON.
\<close>

section \<open>The system\<close>

text \<open>
  The two background tasks work on one database. A step of the system is one tick of either,
  with whatever configuration and environment, so that several workers and changes of the
  environment are covered.
\<close>

inductive system_step :: "world \<Rightarrow> world \<Rightarrow> bool" where
  schedule: "system_step w (fst (Scheduler.run_tick cfg te w))"
| retain: "system_step w (fst (Retention.run_tick rcfg env w))"

inductive reachable :: "world \<Rightarrow> world \<Rightarrow> bool" where
  start: "reachable w w"
| advance: "reachable w w' \<Longrightarrow> system_step w' w'' \<Longrightarrow> reachable w w''"

inductive_cases system_stepE: "system_step w w'"

lemma scheduler_step:
  assumes "db_ok (w_db w)"
  shows "db_ok (w_db (fst (Scheduler.run_tick cfg te w)))" "steady (w_db w) (w_db (fst (Scheduler.run_tick cfg te w)))"
proof -
  have "w_db (fst (Scheduler.run_tick cfg te w)) = w_db (fst (Scheduler.tick_once cfg te w))"
    by (auto simp: Scheduler.run_tick_def split: prod.splits sum.splits)
  then show "db_ok (w_db (fst (Scheduler.run_tick cfg te w)))" "steady (w_db w) (w_db (fst (Scheduler.run_tick cfg te w)))"
    using tick_touches [OF assms, of cfg te] by (auto simp: touches_def)
qed

lemma retention_step:
  assumes "db_ok (w_db w)"
  shows "db_ok (w_db (fst (Retention.run_tick cfg env w)))" "steady (w_db w) (w_db (fst (Retention.run_tick cfg env w)))"
proof -
  have r: "w_db (fst (Retention.run_tick cfg env w)) = w_db (fst (Retention.tick_once cfg env w))"
    by (auto simp: Retention.run_tick_def split: prod.splits sum.splits)
  show "db_ok (w_db (fst (Retention.run_tick cfg env w)))"
    using tick_once_db [of cfg env w] swept_db_ok assms unfolding r by metis
  have "steady d (fst (swept c n b d))" for d c n b
    by (auto simp: steady_def swept_rows feed_by_id_def)
  then show "steady (w_db w) (w_db (fst (Retention.run_tick cfg env w)))"
    using tick_once_db [of cfg env w] steadily.evolve_refl unfolding r by metis
qed

text \<open>
  Whatever the scheduler workers and the retention sweeper do, in any order and any number
  of times: the database stays consistent; a feed that was there is still there with the same
  id, URL and creation time; and an entry id is never reused: an entry found later under an id
  handed out earlier is the entry that had it, with the same feed, guid and \<open>fetched_at\<close>.
\<close>

theorem system_invariant:
  assumes "reachable w w'" "db_ok (w_db w)"
  shows "db_ok (w_db w') \<and>
    (\<forall>i f. feed_by_id (w_db w) i = Some f \<longrightarrow> (\<exists>g. feed_by_id (w_db w') i = Some g \<and> same_identity f g)) \<and>
    (\<forall>e \<in> set (entries_tbl (w_db w')). e_id e < entries_seq (w_db w) \<longrightarrow>
       row_identity e \<in> row_identity ` set (entries_tbl (w_db w)))"
proof -
  from assms have "db_ok (w_db w') \<and> steady (w_db w) (w_db w')"
  proof (induction rule: reachable.induct)
    case (advance w w' w'')
    then have ok: "db_ok (w_db w')" and st: "steady (w_db w) (w_db w')" by blast+
    from advance.hyps(2) have "db_ok (w_db w'') \<and> steady (w_db w') (w_db w'')"
      by (rule system_stepE) (use ok scheduler_step retention_step in blast)+
    with st show ?case using steadily.evolve_trans by blast
  qed (simp add: steadily.evolve_refl)
  then show ?thesis by (simp add: steady_def)
qed

theorem system_invariant_witness:
  "db_ok (w_db (fst (Retention.run_tick (sample_retention 0) sample_sweep_env
     (fst (Scheduler.run_tick sample_scheduler sample_tick sample_world)))))"
proof -
  have "reachable sample_world (fst (Retention.run_tick (sample_retention 0) sample_sweep_env
      (fst (Scheduler.run_tick sample_scheduler sample_tick sample_world))))"
    by (intro advance [OF advance [OF start schedule] retain])
  moreover have "db_ok (w_db sample_world)" by (simp add: sample_world_def sample_db_ok)
  ultimately show ?thesis using system_invariant by blast
qed

section \<open>The service\<close>

text \<open>
  The API works on the same database. A step of the service is a step of a background task or one
  request, in any configuration and environment. Feeds can now disappear, so the relation between
  the states is \<open>ages\<close>: what an id denotes never changes.
\<close>

inductive service_step :: "world \<Rightarrow> world \<Rightarrow> bool" where
  background: "system_step w w' \<Longrightarrow> service_step w w'"
| request: "service_step w (fst (serve st env rq w))"

inductive service_reachable :: "world \<Rightarrow> world \<Rightarrow> bool" where
  service_start: "service_reachable w w"
| service_advance: "service_reachable w w' \<Longrightarrow> service_step w' w'' \<Longrightarrow> service_reachable w w''"

inductive_cases service_stepE: "service_step w w'"

lemma touches_ages:
  assumes "touches I d d'"
  shows "ages d d'"
proof -
  have "\<exists>f \<in> set (feeds_tbl d). same_identity f g" if g: "g \<in> set (feeds_tbl d')" for g
  proof -
    have "feeds_ok d'" using assms by (simp add: touches_def db_ok_def)
    then have g': "feed_by_id d' (f_id g) = Some g"
      unfolding feed_by_id_def using g by (intro find_Some_distinct) (simp_all add: feeds_ok_def)
    have "f_id g \<in> f_id ` set (feeds_tbl d)" using assms g by (auto simp: touches_def)
    then obtain f where f: "feed_by_id d (f_id g) = Some f"
      using find_None_iff_map [of f_id "f_id g" "feeds_tbl d"] by (auto simp: feed_by_id_def)
    have "steady d d'" using assms by (simp add: touches_def)
    with f obtain g2 where "feed_by_id d' (f_id g) = Some g2" "same_identity f g2" unfolding steady_def by blast
    with g' have "same_identity f g" by simp
    with f show ?thesis by (auto dest!: find_SomeD simp: feed_by_id_def)
  qed
  with assms show ?thesis by (simp add: ages_def touches_def steady_def)
qed

lemma swept_ages: "ages d (fst (swept c n b d))"
  by (auto simp: ages_def swept_rows)

lemma system_step_ages:
  assumes "system_step w w'" "db_ok (w_db w)"
  shows "db_ok (w_db w') \<and> ages (w_db w) (w_db w')"
  using assms(1)
proof (rule system_stepE)
  fix cfg te
  assume w': "w' = fst (Scheduler.run_tick cfg te w)"
  have "w_db w' = w_db (fst (Scheduler.tick_once cfg te w))"
    by (auto simp: w' Scheduler.run_tick_def split: prod.splits sum.splits)
  then show ?thesis
    using tick_touches [OF assms(2), of cfg te] touches_ages by (auto simp: touches_def)
next
  fix cfg env
  assume w': "w' = fst (Retention.run_tick cfg env w)"
  have "w_db w' = w_db (fst (Retention.tick_once cfg env w))"
    by (auto simp: w' Retention.run_tick_def split: prod.splits sum.splits)
  then have "ages (w_db w) (w_db w')"
    using tick_once_db [of cfg env w] swept_ages ageing.evolve_refl by metis
  with w' retention_step(1) [OF assms(2)] show ?thesis by blast
qed

text \<open>
  The whole service. Whatever ticks, sweeps and requests happen, in any order and any number of
  times: the keys stay unique and the foreign keys hold; sequences only grow; a feed found later
  under an id handed out earlier is the feed that had it, with the same URL and creation time; and
  an entry found later under an id handed out earlier is the entry that had it. So ids and cursors
  that a client keeps never come to mean something else, although feeds are deleted and URLs
  registered again.
\<close>

theorem service_invariant:
  assumes "service_reachable w w'" "db_ok (w_db w)" "d = w_db w" "d' = w_db w'"
  shows "db_ok d' \<and> feeds_seq d \<le> feeds_seq d' \<and> entries_seq d \<le> entries_seq d' \<and>
    (\<forall>g \<in> set (feeds_tbl d'). f_id g < feeds_seq d \<longrightarrow> (\<exists>f \<in> set (feeds_tbl d). same_identity f g)) \<and>
    (\<forall>e \<in> set (entries_tbl d'). e_id e < entries_seq d \<longrightarrow> row_identity e \<in> row_identity ` set (entries_tbl d))"
proof -
  from assms(1,2) have "db_ok (w_db w') \<and> ages (w_db w) (w_db w')"
  proof (induction rule: service_reachable.induct)
    case (service_advance w w' w'')
    then have ok: "db_ok (w_db w')" and ag: "ages (w_db w) (w_db w')" by blast+
    from service_advance.hyps(2) have "db_ok (w_db w'') \<and> ages (w_db w') (w_db w'')"
      by (rule service_stepE) (use ok system_step_ages serve_keeps_database in blast)+
    with ag show ?case using ageing.evolve_trans by blast
  qed (simp add: ageing.evolve_refl)
  then show ?thesis by (simp add: assms(3,4) ages_def)
qed

definition deletion_request :: request where
  "deletion_request = \<lparr>rq_path = ''/v1/feeds/1'', rq_key = Some ''secret'', rq_endpoint = DeleteFeed 1\<rparr>"

theorem service_invariant_witness:
  "db_ok (w_db (fst (Scheduler.run_tick sample_scheduler sample_tick
     (fst (serve sample_api_state sample_api_env deletion_request sample_world)))))"
proof -
  let ?w = "fst (serve sample_api_state sample_api_env deletion_request sample_world)"
  have "service_reachable sample_world ?w" by (rule service_advance [OF service_start request])
  moreover have "service_step ?w (fst (Scheduler.run_tick sample_scheduler sample_tick ?w))"
    by (rule background [OF schedule])
  ultimately have r: "service_reachable sample_world (fst (Scheduler.run_tick sample_scheduler sample_tick ?w))"
    by (rule service_advance)
  have ok: "db_ok (w_db sample_world)" by (simp add: sample_world_def sample_db_ok)
  show ?thesis using service_invariant [OF r ok refl refl] by blast
qed

section \<open>Sessions in flight\<close>

text \<open>
  The service with fetches that overlap everything else. The state is the world and the fetches that
  wait for the network. A step is a step of the service, the claim of a worker, a fetch that
  departs, gives up before it departs, or lands. A worker that dies is a fetch that never lands.
\<close>

inductive concurrent_step :: "world \<times> flight list \<Rightarrow> world \<times> flight list \<Rightarrow> bool" where
  serving: "service_step w w' \<Longrightarrow> concurrent_step (w, trips) (w', trips)"
| claiming: "claim_due_feeds locked now batch ttl probe (w_db w) = Inr (d, ids) \<Longrightarrow>
    concurrent_step (w, trips) (w\<lparr>w_db := d\<rparr>, trips)"
| departing: "depart fe now i w = (w', Inr (Some trip)) \<Longrightarrow> concurrent_step (w, trips) (w', trip # trips)"
| finding_none: "depart fe now i w = (w', Inr None) \<Longrightarrow>
    concurrent_step (w, trips) (fst (arrive i ((w', w'), Inr ())), trips)"
| failing_early: "depart fe now i w = (w', Inl e) \<Longrightarrow>
    concurrent_step (w, trips) (fst (arrive i ((w', w'), Inl e)), trips)"
| landing: "concurrent_step (w, before @ trip # after)
    (fst (arrive (f_id (fl_loaded trip)) (land fe cfg trip w)), before @ after)"

inductive concurrent_reachable :: "world \<times> flight list \<Rightarrow> world \<times> flight list \<Rightarrow> bool" where
  concurrent_start: "concurrent_reachable c c"
| concurrent_advance: "concurrent_reachable c c' \<Longrightarrow> concurrent_step c' c'' \<Longrightarrow> concurrent_reachable c c''"

inductive_cases concurrent_stepE: "concurrent_step (w, trips) c'"

text \<open>A fetch in flight knows its feed: a row found under its id is the row it has loaded, aged.\<close>

definition trip_ok :: "db \<Rightarrow> flight \<Rightarrow> bool" where
  "trip_ok d trip \<longleftrightarrow> f_id (fl_loaded trip) < feeds_seq d \<and>
     (\<forall>g \<in> set (feeds_tbl d). f_id g = f_id (fl_loaded trip) \<longrightarrow> same_identity (fl_loaded trip) g)"

lemma trip_ok_ages:
  assumes "trip_ok d trip" "ages d d'"
  shows "trip_ok d' trip"
proof -
  have "same_identity (fl_loaded trip) g" if g: "g \<in> set (feeds_tbl d')" "f_id g = f_id (fl_loaded trip)" for g
  proof -
    obtain f where f: "f \<in> set (feeds_tbl d)" "same_identity f g"
      using assms g unfolding ages_def trip_ok_def by metis
    then have "f_id f = f_id (fl_loaded trip)" using g(2) by (simp add: same_identity_def)
    with f assms(1) show ?thesis unfolding trip_ok_def by (blast intro: same_identity_trans)
  qed
  with assms show ?thesis by (auto simp: trip_ok_def ages_def)
qed

lemma departing_trip_ok:
  assumes "depart fe now i w = (v, Inr (Some trip))" "db_ok (w_db w)"
  shows "trip_ok (w_db v) trip"
proof -
  note d = departure [OF assms(1)]
  have fo: "feeds_ok (w_db w)" using assms(2) by (simp add: db_ok_def)
  have l: "fl_loaded trip \<in> set (feeds_tbl (w_db w))" using feed_by_id_Some [OF d(2)] by simp
  then have "f_id (fl_loaded trip) < feeds_seq (w_db w)" using fo by (auto simp: feeds_ok_def list_all_iff)
  moreover have "g = fl_loaded trip" if "g \<in> set (feeds_tbl (w_db w))" "f_id g = f_id (fl_loaded trip)" for g
    using that l fo by (auto simp: feeds_ok_def dest: distinct_map_eq)
  ultimately show ?thesis unfolding trip_ok_def d(1) by (simp, metis same_identity_refl)
qed

lemma arrive_keeps:
  assumes "land fe cfg trip w = p" "db_ok (w_db w)"
  shows "db_ok (w_db (fst (arrive i p))) \<and> ages (w_db w) (w_db (fst (arrive i p)))"
proof -
  obtain undone saved r where p: "p = ((undone, saved), r)" by (metis prod.exhaust)
  show ?thesis using land_keeps_database [OF assms(1) [unfolded p] assms(2)]
    by (auto simp: p arrive_def split: sum.splits)
qed

lemma depart_db: "depart fe now i w = (w', r) \<Longrightarrow> w_db w' = w_db w"
  by (auto simp: depart_def)

lemma arrive_idle: "w_db (fst (arrive i ((w, w), r))) = w_db w"
  by (auto simp: arrive_def split: sum.splits)

lemma concurrent_step_keeps:
  assumes "concurrent_step (w, trips) (w', trips')" "db_ok (w_db w)" "\<forall>trip \<in> set trips. trip_ok (w_db w) trip"
  shows "db_ok (w_db w') \<and> ages (w_db w) (w_db w') \<and> (\<forall>trip \<in> set trips'. trip_ok (w_db w') trip)"
proof -
  have old: "db_ok (w_db w') \<and> ages (w_db w) (w_db w') \<Longrightarrow> set trips' \<subseteq> set trips \<Longrightarrow> ?thesis"
    using assms(3) trip_ok_ages by blast
  from assms(1) show ?thesis
  proof (rule concurrent_stepE)
    fix v
    assume v: "(w', trips') = (v, trips)" "service_step w v"
    from v(2) have "db_ok (w_db v) \<and> ages (w_db w) (w_db v)"
      by (rule service_stepE) (use assms(2) system_step_ages serve_keeps_database in blast)+
    with v(1) show ?thesis by (intro old) auto
  next
    fix locked now batch ttl probe d ids
    assume c: "(w', trips') = (w\<lparr>w_db := d\<rparr>, trips)" "claim_due_feeds locked now batch ttl probe (w_db w) = Inr (d, ids)"
    from claim_touches [OF c(2) assms(2)] touches_ages have "db_ok d \<and> ages (w_db w) d" by (auto simp: touches_def)
    with c(1) show ?thesis by (intro old) auto
  next
    fix fe now i v trip
    assume d: "(w', trips') = (v, trip # trips)" "depart fe now i w = (v, Inr (Some trip))"
    with departing_trip_ok [OF d(2) assms(2)] assms(2,3) depart_db [OF d(2)] show ?thesis
      by (auto simp: ageing.evolve_refl)
  next
    fix fe now i v
    assume d: "(w', trips') = (fst (arrive i ((v, v), Inr ())), trips)" "depart fe now i w = (v, Inr None)"
    then have "w_db w' = w_db w" using depart_db arrive_idle by (metis prod.inject)
    with d(1) assms(2) show ?thesis by (intro old) (auto simp: ageing.evolve_refl)
  next
    fix fe now i v e
    assume d: "(w', trips') = (fst (arrive i ((v, v), Inl e)), trips)" "depart fe now i w = (v, Inl e)"
    then have "w_db w' = w_db w" using depart_db arrive_idle by (metis prod.inject)
    with d(1) assms(2) show ?thesis by (intro old) (auto simp: ageing.evolve_refl)
  next
    fix xs trip ys fe cfg
    assume l: "trips = xs @ trip # ys"
      "(w', trips') = (fst (arrive (f_id (fl_loaded trip)) (land fe cfg trip w)), xs @ ys)"
    then show ?thesis using arrive_keeps [OF refl assms(2)] by (intro old) auto
  qed
qed

text \<open>
  C1: The whole service with overlapping fetches. Whatever requests, ticks, sweeps, claims, departures and
  landings happen, in any order, with any number of fetches in flight, several of them possibly
  on one feed: the keys stay unique and the foreign keys hold; sequences only grow; a feed or an
  entry found later under an id handed out earlier is the one that had it; and the row that a
  fetch in flight finds when it lands is that of the feed it departed for.
\<close>

theorem concurrent_invariant:
  assumes "concurrent_reachable (w, []) (w', trips)" "db_ok (w_db w)" "d = w_db w" "d' = w_db w'"
  shows "db_ok d' \<and> feeds_seq d \<le> feeds_seq d' \<and> entries_seq d \<le> entries_seq d' \<and>
    (\<forall>g \<in> set (feeds_tbl d'). f_id g < feeds_seq d \<longrightarrow> (\<exists>f \<in> set (feeds_tbl d). same_identity f g)) \<and>
    (\<forall>e \<in> set (entries_tbl d'). e_id e < entries_seq d \<longrightarrow> row_identity e \<in> row_identity ` set (entries_tbl d)) \<and>
    (\<forall>trip \<in> set trips. \<forall>g. feed_by_id d' (f_id (fl_loaded trip)) = Some g \<longrightarrow> same_identity (fl_loaded trip) g)"
proof -
  have "db_ok (w_db (fst c')) \<and> ages (w_db (fst c)) (w_db (fst c')) \<and> (\<forall>trip \<in> set (snd c'). trip_ok (w_db (fst c')) trip)"
    if "concurrent_reachable c c'" "db_ok (w_db (fst c))" "snd c = []" for c c'
    using that
  proof (induction rule: concurrent_reachable.induct)
    case (concurrent_advance c c' c'')
    obtain v trips u trips' where c: "c' = (v, trips)" "c'' = (u, trips')" by fastforce
    from concurrent_advance c have "db_ok (w_db v)" "\<forall>trip \<in> set trips. trip_ok (w_db v) trip" "ages (w_db (fst c)) (w_db v)"
      by simp_all
    with concurrent_step_keeps [OF concurrent_advance.hyps(2) [unfolded c]] ageing.evolve_trans show ?case
      unfolding c fst_conv snd_conv by blast
  qed (simp add: ageing.evolve_refl)
  from this [OF assms(1)] assms(2) have "db_ok d' \<and> ages d d' \<and> (\<forall>trip \<in> set trips. trip_ok d' trip)"
    by (simp add: assms(3,4))
  then show ?thesis by (auto simp: ages_def trip_ok_def dest: feed_by_id_Some)
qed

theorem concurrent_invariant_witness:
  "db_ok (w_db (fst (arrive 1 (land (sample_feed_env (sample_env (sample_response 200))) sample_config
     \<lparr>fl_loaded = sample_feed, fl_weekly = weekly_entry_count sample_db 1 (sample_now - 604800000000), fl_now = sample_now\<rparr>
     (fst (serve sample_api_state sample_api_env deletion_request (emit [InflightFetches 1] sample_world)))))))"
proof -
  let ?fe = "sample_feed_env (sample_env (sample_response 200))"
    and ?v = "fst (serve sample_api_state sample_api_env deletion_request (emit [InflightFetches 1] sample_world))"
  let ?t = "\<lparr>fl_loaded = sample_feed, fl_weekly = weekly_entry_count sample_db 1 (sample_now - 604800000000), fl_now = sample_now\<rparr>"
  have "concurrent_reachable (sample_world, []) (emit [InflightFetches 1] sample_world, [?t])"
    by (rule concurrent_advance [OF concurrent_start departing [OF sample_departure]])
  then have "concurrent_reachable (sample_world, []) (?v, [?t])"
    by (rule concurrent_advance) (rule serving, rule request)
  moreover have "concurrent_step (?v, [] @ ?t # []) (fst (arrive (f_id (fl_loaded ?t)) (land ?fe sample_config ?t ?v)), [] @ [])"
    by (rule landing)
  ultimately have "concurrent_reachable (sample_world, []) (fst (arrive 1 (land ?fe sample_config ?t ?v)), [])"
    using concurrent_advance by (simp add: sample_feed_def)
  then show ?thesis using concurrent_invariant [OF _ _ refl refl, of sample_world] sample_db_ok by (simp add: sample_world_def)
qed

section \<open>From the API to the scheduler\<close>

lemma post_feed_answer:
  assumes "call_endpoint st env (PostFeed field) w = (v, Inr (code, FeedReply r))"
  obtains url where "create_feed (ae_dns env) (ae_now env) (ae_db_now env) url w = (v, Inr (code, r))"
proof -
  from assms obtain url where u: "feed_create (ae_http_url env) field = Inr url" "\<not> ae_route_limited env"
    by (auto simp: call_endpoint_def split: sum.splits if_splits)
  obtain x y where c: "create_feed (ae_dns env) (ae_now env) (ae_db_now env) url w = (x, y)" by fastforce
  with assms u have "x = v" "y = Inr (code, r)"
    by (auto simp: call_endpoint_def feed_reply_def map_sum_eq_Inr)
  with c that show thesis by blast
qed

lemma reactivate_answer:
  assumes "call_endpoint st env (PostReactivate i) w = (v, Inr (code, FeedReply r))"
  shows "reactivate_feed (ae_now env) i w = (v, Inr r)"
  using assms by (cases "reactivate_feed (ae_now env) i w") (auto simp: call_endpoint_def map_sum_eq_Inr)

lemma reactivated_row:
  assumes "reactivate_feed now i w = (v, Inr r)"
  shows "\<exists>g \<in> set (feeds_tbl (w_db v)). f_id g = fr_id r \<and> f_status g = ACTIVE \<and> f_next_fetch_at g = now"
proof -
  have i: "int4 i"
    using assms by (cases "int4 i") (simp_all add: reactivate_feed_def select_feed_def bind_int4_def)
  obtain f where f: "feed_by_id (w_db w) i = Some f"
    using assms i by (cases "feed_by_id (w_db w) i") (simp_all add: reactivate_feed_def select_feed_int4)
  let ?g = "fst (reactivate now f (w_events w))"
  have g: "r = feed_response_of ?g" "w_db v = flush_feed (w_db w) ?g"
    using assms unfolding reactivate_feed_found [OF i f] by auto
  have "f_id ?g = i" using f by (auto simp: reactivate_def dest: feed_by_id_Some)
  then have "feed_by_id (w_db v) i = Some ?g" using feed_by_id_flush [of "w_db w" ?g f i] f g(2) by simp
  then have "?g \<in> set (feeds_tbl (w_db v))" unfolding feed_by_id_def by (auto dest: find_SomeD)
  then show ?thesis by (rule bexI [rotated]) (simp add: g(1) reactivate_def feed_response_of_def)
qed

lemma created_row:
  assumes "create_feed dns now db_now url w = (v, Inr (201, r))"
  shows "\<exists>g \<in> set (feeds_tbl (w_db v)). f_id g = fr_id r \<and> f_status g = ACTIVE \<and> f_next_fetch_at g = now"
  using assms
  by (rule create_feed_returns) (auto simp: Let_def new_feed_def feed_response_of_def split: option.splits)

text \<open>The feed in a committed answer to a registration that created it, or to a reactivation.\<close>

lemma answered_feed_is_due:
  assumes "serve st env rq w = (w1, rs)" "rs_body rs = ReplyBody (FeedReply r)"
    and "rs_status rs = 201 \<or> (\<exists>i. rq_endpoint rq = PostReactivate i)" "ae_commit env"
  shows "\<exists>g \<in> set (feeds_tbl (w_db w1)). f_id g = fr_id r \<and> f_status g = ACTIVE \<and> f_next_fetch_at g = ae_now env"
proof -
  have err: "rs_body (error_response p e) \<noteq> ReplyBody y" for p e y
    by (auto simp: error_response_def split: option.splits api_error.splits)
  have w1: "w_db w1 = w_db (fst (route_request st env rq w))" using assms(1) serve_db by (metis fst_conv)
  have rs: "rs = (case snd (route_request st env rq w) of Inl x \<Rightarrow> x | Inr x \<Rightarrow> x)"
    using assms(1) by (auto simp: serve_def split: prod.splits sum.splits if_splits)
  show ?thesis
  proof (cases rule: route_request_cases [where st = st and env = env and rq = rq and w = w])
    case (answered code reply)
    have c: "code = rs_status rs" "reply = FeedReply r" using rs answered(4) assms(2) by auto
    obtain v where v: "call_endpoint st env (rq_endpoint rq) w = (v, Inr (code, FeedReply r))"
      using answered(3) c(2) by (metis prod.collapse)
    have d: "w_db w1 = w_db v" using assms(4) by (simp add: w1 answered(4) v get_session_def)
    show ?thesis
    proof (cases "rq_endpoint rq")
      case (PostFeed field)
      then obtain url where "create_feed (ae_dns env) (ae_now env) (ae_db_now env) url w = (v, Inr (code, r))"
        using v post_feed_answer by metis
      then show ?thesis using created_row assms(3) PostFeed c(1) d by simp
    next
      case (PostReactivate i)
      then show ?thesis using reactivated_row reactivate_answer v d by metis
    next
      case (DeleteFeed i)
      then show ?thesis using v by (auto simp: call_endpoint_def map_sum_eq_Inr split: prod.splits)
    next
      case (GetEntries x y z)
      then show ?thesis using v by (auto simp: call_endpoint_def map_sum_eq_Inr try_bind_eq_Inr)
    qed (use assms(3) v c(1) in \<open>auto simp: call_endpoint_def map_sum_eq_Inr\<close>)
  next
    case limited
    then show ?thesis using rs assms(2) err by simp
  next
    case (denied e)
    then show ?thesis using rs assms(2) err by (simp split: if_splits)
  next
    case (failed e)
    then show ?thesis using rs assms(2) err by (simp split: if_splits)
  qed
qed

lemma claims_all_when_room:
  assumes "claim_due_feeds locked now batch ttl probe d = Inr (d', ids)" "feeds_ok d" "f \<in> set (feeds_tbl d)"
    and "cutoff = now - probe * us_per_day" "eligible locked now cutoff f"
    and "int (length (filter (eligible locked now cutoff) (feeds_tbl d))) \<le> batch"
  shows "f_id f \<in> set ids"
proof -
  have "length (filter (eligible locked now cutoff) (feeds_tbl d)) \<le> nat batch" using assms(6) by linarith
  then have "set (claimed_rows locked now cutoff batch (feeds_tbl d)) = set (filter (eligible locked now cutoff) (feeds_tbl d))"
    by (simp add: claimed_rows_def)
  with assms(3,5) claim_result(3) [OF assms(1,2,4) assms(3)] show ?thesis by simp
qed

text \<open>
  C15: What the API promises the scheduler keeps: a feed that a committed request created or
  reactivated is taken by the next claim whose batch has room for what is due, unless another
  worker holds its row, and gets its lease there.
\<close>

theorem requested_feed_is_claimed:
  assumes "db_ok (w_db w)" "serve st env rq w = (w1, rs)" "rs_body rs = ReplyBody (FeedReply r)"
    and "rs_status rs = 201 \<or> (\<exists>i. rq_endpoint rq = PostReactivate i)" "ae_commit env" "ae_now env \<le> now"
    and "claim_due_feeds locked now batch ttl probe (w_db w1) = Inr (d', ids)" "\<not> locked (fr_id r)"
    and "int (length (filter (\<lambda>f. claim_predicate now (now - probe * us_per_day) f \<and> \<not> locked (f_id f))
           (feeds_tbl (w_db w1)))) \<le> batch"
  shows "fr_id r \<in> set ids \<and>
    (\<exists>f. feed_by_id d' (fr_id r) = Some f \<and> f_next_fetch_at f = now + ttl * US \<and> f_last_attempt_at f = Some now)"
proof -
  obtain g where g: "g \<in> set (feeds_tbl (w_db w1))" "f_id g = fr_id r" "f_status g = ACTIVE" "f_next_fetch_at g = ae_now env"
    using answered_feed_is_due [OF assms(2-5)] by blast
  have "db_ok (w_db w1)" using serve_keeps_database(1) [OF assms(1), of st env rq] assms(2) by simp
  then have ok: "feeds_ok (w_db w1)" by (simp add: db_ok_def)
  have e: "eligible locked now (now - probe * us_per_day) g"
    using g assms(6,8) by (simp add: claim_predicate_def)
  have i: "f_id g \<in> set ids" by (rule claims_all_when_room [OF assms(7) ok g(1) refl e assms(9)])
  have "feed_by_id (w_db w1) (fr_id r) = Some g"
    unfolding feed_by_id_def g(2) [symmetric] using ok g(1) by (intro find_Some_distinct) (simp_all add: feeds_ok_def)
  then have "feed_by_id d' (fr_id r) = Some (lease now (now + ttl * US) g)"
    unfolding feed_by_id_def claim_result(4) [OF assms(7) ok refl]
    using ok i g(2) by (subst lease_ids.find_update_where) (simp_all add: feeds_ok_def)
  with i g(2) show ?thesis by (simp add: lease_def)
qed

definition reactivation_request :: request where
  "reactivation_request = \<lparr>rq_path = ''/v1/feeds/1/reactivate'', rq_key = Some ''secret'', rq_endpoint = PostReactivate 1\<rparr>"

lemma sample_reactivation:
  fixes g defines "g \<equiv> sample_feed\<lparr>f_status := ACTIVE, f_consecutive_failures := 0, f_last_error_code := None, f_next_fetch_at := 7\<rparr>"
  shows "\<exists>ev. serve sample_api_state sample_api_env reactivation_request sample_api_world =
    (sample_api_world\<lparr>w_db := flush_feed sample_db g, w_events := ev\<rparr>,
     \<lparr>rs_status = 200, rs_body = ReplyBody (FeedReply (feed_response_of g))\<rparr>)"
proof -
  have a: "is_ascii ''secret''" by (simp add: is_ascii_def ord_def)
  have k: "require_api_key ''secret'' (Some ''secret'') = Inr ()"
    unfolding require_api_key_def compare_digest_def using a by simp
  have f: "feed_by_id (w_db sample_api_world) 1 = Some sample_feed" "int4 1"
    by (simp_all add: feed_by_id_def sample_api_world_def sample_db_def sample_feed_def int4_def)
  have g: "fst (reactivate 7 sample_feed ev) = g" for ev by (simp add: g_def reactivate_def)
  have d: "w_db sample_api_world = sample_db" by (simp add: sample_api_world_def)
  obtain ev where "reactivate_feed 7 1 sample_api_world =
      (sample_api_world\<lparr>w_db := flush_feed sample_db g, w_events := ev\<rparr>, Inr (feed_response_of g))"
    using reactivate_feed_found [OF f(2,1), of 7] unfolding g d by blast
  then show ?thesis
    by (simp add: serve_def route_request_def sample_api_state_def sample_api_env_def reactivation_request_def
        k call_endpoint_def get_session_def Let_def) blast
qed

theorem requested_feed_is_claimed_witness:
  "\<exists>w1 rs d' ids. serve sample_api_state sample_api_env reactivation_request sample_api_world = (w1, rs) \<and>
     claim_due_feeds (\<lambda>_. False) sample_now 8 90 7 (w_db w1) = Inr (d', ids) \<and> 1 \<in> set ids"
proof -
  let ?g = "sample_feed\<lparr>f_status := ACTIVE, f_consecutive_failures := 0, f_last_error_code := None, f_next_fetch_at := 7\<rparr>"
  obtain ev where s: "serve sample_api_state sample_api_env reactivation_request sample_api_world =
      (sample_api_world\<lparr>w_db := flush_feed sample_db ?g, w_events := ev\<rparr>,
       \<lparr>rs_status = 200, rs_body = ReplyBody (FeedReply (feed_response_of ?g))\<rparr>)" (is "_ = (?w, ?rs)")
    using sample_reactivation by blast
  have "claim_due_feeds (\<lambda>_. False) sample_now 8 90 7 (flush_feed sample_db ?g) =
      Inr (sample_db\<lparr>feeds_tbl := [?g\<lparr>f_next_fetch_at := sample_now + 90000000, f_last_attempt_at := Some sample_now\<rparr>]\<rparr>, [1])"
    by code_simp
  then obtain d' ids where c: "claim_due_feeds (\<lambda>_. False) sample_now 8 90 7 (w_db ?w) = Inr (d', ids)" by simp
  have ok: "db_ok (w_db sample_api_world)" by (simp add: sample_api_world_def sample_db_ok)
  have len: "int (length (filter p (feeds_tbl (w_db ?w)))) \<le> 8" for p
    by (simp add: flush_feed_def update_where_def sample_db_def)
  have id: "fr_id (feed_response_of ?g) = 1" by (simp add: feed_response_of_def sample_feed_def)
  have "1 \<in> set ids"
    using requested_feed_is_claimed [OF ok s _ _ _ _ c] len id
    by (simp add: reactivation_request_def sample_api_env_def sample_now_def)
  with s c show ?thesis by blast
qed

section \<open>From the scheduler to the gauges\<close>

text \<open>
  The gauge of due feeds is not the length of the scheduler's queue: at any moment the rows a
  claim may take are the ones the gauge counts and, beyond them, exactly the dead feeds that are
  due for a probe.
\<close>

theorem due_gauge_misses_dead_probes:
  "int (length (filter (claim_predicate now cutoff) (feeds_tbl d))) =
     count_due now d + int (length (filter (\<lambda>f. f_status f = DEAD \<and>
       (f_last_attempt_at f = None \<or> the (f_last_attempt_at f) < cutoff)) (feeds_tbl d)))"
proof -
  have "length (filter (claim_predicate now cutoff) fs) =
      length (filter (\<lambda>f. f_status f \<noteq> DEAD \<and> f_next_fetch_at f \<le> now) fs) +
      length (filter (\<lambda>f. f_status f = DEAD \<and> (f_last_attempt_at f = None \<or> the (f_last_attempt_at f) < cutoff)) fs)" for fs
    by (induction fs) (auto simp: claim_predicate_def split: option.splits)
  then show ?thesis by (simp add: count_due_def)
qed

end
